(* ===== verification/Catalina_Base.thy ===== *)
theory Catalina_Base
  imports Main "HOL-Library.Word"
begin

text \<open>
  What the components of the library share: the faults a C execution can run into, the
  sequencing of computations that may fault, memory blocks as byte lists with checked
  loads and stores, C strings, and the two host byte orders with GLib's conversions to and
  from big-endian.

  A pointer to readable memory is \<open>None\<close> (\<^verbatim>\<open>NULL\<close>) or \<open>Some bs\<close>, the bytes that can be
  read from it upwards; every access is checked against the end of that block, so that an
  over-read or an overflow of the C code is the value \<open>Inl Out_Of_Bounds\<close> of the model.
  The platform is LP64 with a signed \<^verbatim>\<open>gchar\<close> (x86-64 and alike); the byte order is a
  parameter wherever the code depends on it.
\<close>

unbundle bit_operations_syntax

type_synonym byte = "8 word"
type_synonym bytes = "8 word list"

section \<open>Faults and sequencing\<close>

text \<open>
  \<open>Out_Of_Bounds\<close>: a read or write outside the block; \<open>Null_Pointer\<close>: a dereference of
  \<^verbatim>\<open>NULL\<close>; \<open>Use_After_Free\<close>: a dereference of a freed task; \<open>Type_Confusion\<close>: memory
  used as a structure it is not; \<open>Process_Abort\<close>:
  \<^verbatim>\<open>g_error\<close> or a failed \<^verbatim>\<open>g_assert\<close>; \<open>Stack_Exhausted\<close>: the recursion depth given to
  the model was used up; \<open>Divergence\<close>: a loop that does not end.
\<close>

datatype fault =
    Out_Of_Bounds | Null_Pointer | Use_After_Free | Type_Confusion | Process_Abort | Stack_Exhausted | Divergence

type_synonym 'a result = "fault + 'a"

fun c_bind :: "'a result \<Rightarrow> ('a \<Rightarrow> 'b result) \<Rightarrow> 'b result" where
  "c_bind (Inl e) f = Inl e"
| "c_bind (Inr x) f = f x"

lemma c_bind_cong [fundef_cong]:
  "m = m' \<Longrightarrow> (\<And>x. m' = Inr x \<Longrightarrow> f x = g x) \<Longrightarrow> c_bind m f = c_bind m' g"
  by (cases m') auto

lemma c_bind_eq_Inr: "c_bind m f = Inr y \<longleftrightarrow> (\<exists>x. m = Inr x \<and> f x = Inr y)"
  by (cases m) auto

lemma c_bind_assoc: "c_bind (c_bind m f) g = c_bind m (\<lambda>x. c_bind (f x) g)"
  by (cases m) auto

lemma c_bind_split:
  "P (c_bind m f) \<longleftrightarrow> (\<forall>e. m = Inl e \<longrightarrow> P (Inl e)) \<and> (\<forall>x. m = Inr x \<longrightarrow> P (f x))"
  by (cases m) auto

section \<open>Memory blocks\<close>

text \<open>\<open>load_byte\<close> is \<^verbatim>\<open>buffer[i]\<close>; \<open>load_bytes\<close> and \<open>store_bytes\<close> are the two sides of \<^verbatim>\<open>memcpy\<close>.\<close>

definition load_byte :: "bytes \<Rightarrow> nat \<Rightarrow> byte result" where
  "load_byte buf i = (if i < length buf then Inr (buf ! i) else Inl Out_Of_Bounds)"

definition load_bytes :: "bytes \<Rightarrow> nat \<Rightarrow> nat \<Rightarrow> bytes result" where
  "load_bytes buf i n =
     (if i + n \<le> length buf then Inr (take n (drop i buf)) else Inl Out_Of_Bounds)"

definition store_byte :: "bytes \<Rightarrow> nat \<Rightarrow> byte \<Rightarrow> bytes result" where
  "store_byte buf i b = (if i < length buf then Inr (buf[i := b]) else Inl Out_Of_Bounds)"

definition store_bytes :: "bytes \<Rightarrow> nat \<Rightarrow> bytes \<Rightarrow> bytes result" where
  "store_bytes buf i src =
     (if i + length src \<le> length buf
      then Inr (take i buf @ src @ drop (i + length src) buf) else Inl Out_Of_Bounds)"

definition zeroed :: "nat \<Rightarrow> bytes" where
  "zeroed n = replicate n 0"

definition g_malloc0 :: "nat \<Rightarrow> bytes option" where
  "g_malloc0 n = (if n = 0 then None else Some (zeroed n))"

named_theorems mem_simps \<open>evaluation of loads and stores\<close>

definition g_malloc :: "(nat \<Rightarrow> byte) \<Rightarrow> nat \<Rightarrow> bytes option" where
  "g_malloc junk n = (if n = 0 then None else Some (map junk [0..<n]))"

text \<open>
  The bytes a pointer leads to, none for \<^verbatim>\<open>NULL\<close>; and \<^verbatim>\<open>n\<close> of them, where reading any
  through \<^verbatim>\<open>NULL\<close> faults.
\<close>

definition block :: "bytes option \<Rightarrow> bytes" where
  "block p = (case p of None \<Rightarrow> [] | Some bs \<Rightarrow> bs)"

definition read_mem :: "bytes option \<Rightarrow> nat \<Rightarrow> bytes result" where
  "read_mem p n = (case p of Some bs \<Rightarrow> load_bytes bs 0 n
     | None \<Rightarrow> if n = 0 then Inr [] else Inl Null_Pointer)"

lemma block_simps [simp]: "block None = []" "block (Some bs) = bs"
  by (simp_all add: block_def)

lemma read_mem_Some: "read_mem (Some bs) n = load_bytes bs 0 n"
  by (simp add: read_mem_def)

lemma read_mem_whole [simp]: "read_mem (Some bs) (length bs) = Inr bs"
  by (simp add: read_mem_def load_bytes_def)

lemma length_g_malloc [simp]: "length (block (g_malloc junk n)) = n"
  by (simp add: g_malloc_def)

lemma load_byte_Cons_0 [mem_simps]: "load_byte (b # bs) 0 = Inr b"
  by (simp add: load_byte_def)

lemma load_byte_Nil [mem_simps]: "load_byte [] i = Inl Out_Of_Bounds"
  by (simp add: load_byte_def)

lemma load_byte_in: "i < length buf \<Longrightarrow> load_byte buf i = Inr (buf ! i)"
  by (simp add: load_byte_def)

lemma load_bytes_in: "i + n \<le> length buf \<Longrightarrow> load_bytes buf i n = Inr (take n (drop i buf))"
  by (simp add: load_bytes_def)

lemma load_bytes_short: "length buf < i + n \<Longrightarrow> load_bytes buf i n = Inl Out_Of_Bounds"
  by (simp add: load_bytes_def)

lemma load_bytes_Suc [mem_simps]: "load_bytes (b # bs) (Suc i) n = load_bytes bs i n"
  by (simp add: load_bytes_def)

lemma load_bytes_append [mem_simps]: "length xs = n \<Longrightarrow> load_bytes (xs @ ys) 0 n = Inr xs"
  by (simp add: load_bytes_def)

lemma load_bytes_whole [mem_simps]: "length xs = n \<Longrightarrow> load_bytes xs 0 n = Inr xs"
  by (simp add: load_bytes_def)

lemma length_load_bytes: "load_bytes buf i n = Inr bs \<Longrightarrow> length bs = n"
  by (auto simp: load_bytes_def split: if_splits)

lemma length_zeroed [simp]: "length (zeroed n) = n"
  by (simp add: zeroed_def)

lemma zeroed_0 [simp]: "zeroed 0 = []"
  by (simp add: zeroed_def)

lemma zeroed_Suc: "zeroed (Suc n) = 0 # zeroed n"
  by (simp add: zeroed_def)

lemma drop_zeroed [simp]: "drop k (zeroed n) = zeroed (n - k)"
  by (simp add: zeroed_def)

lemma zeroed_add: "zeroed (m + n) = zeroed m @ zeroed n"
  by (simp add: zeroed_def replicate_add)

text \<open>A store at the end of what has been written so far, into memory that is still zero.\<close>

lemma store_bytes_append:
  "length xs = i \<Longrightarrow> length src \<le> n \<Longrightarrow>
   store_bytes (xs @ zeroed n) i src = Inr (xs @ src @ zeroed (n - length src))"
  by (simp add: store_bytes_def)

lemma store_byte_append:
  "length xs = i \<Longrightarrow> store_byte (xs @ zeroed (Suc n)) i b = Inr (xs @ b # zeroed n)"
  by (auto simp: store_byte_def list_update_append zeroed_Suc)

lemma store_bytes_zeroed_tail [mem_simps]:
  "length src = n \<Longrightarrow> store_bytes (b # zeroed n) (Suc 0) src = Inr (b # src)"
  by (simp add: store_bytes_def)

section \<open>C strings\<close>

text \<open>
  \<open>c_string\<close> is the text a \<^verbatim>\<open>const char *\<close> denotes, the bytes before the first NUL; scanning
  a block that holds no NUL leaves it. \<^verbatim>\<open>strlen\<close> is the length of that text.
\<close>

fun c_string :: "bytes \<Rightarrow> bytes result" where
  "c_string [] = Inl Out_Of_Bounds"
| "c_string (b # bs) = (if b = 0 then Inr [] else c_bind (c_string bs) (\<lambda>s. Inr (b # s)))"

definition strlen :: "bytes \<Rightarrow> nat result" where
  "strlen buf = c_bind (c_string buf) (\<lambda>s. Inr (length s))"

lemma c_string_terminated: "0 \<notin> set s \<Longrightarrow> c_string (s @ 0 # rest) = Inr s"
  by (induction s) auto

lemma c_string_no_nul: "0 \<notin> set s \<Longrightarrow> c_string s = Inl Out_Of_Bounds"
  by (induction s) auto

lemma c_string_Inr: "c_string buf = Inr s \<Longrightarrow> 0 \<notin> set s \<and> (\<exists>rest. buf = s @ 0 # rest)"
  by (induction buf arbitrary: s) (auto simp: c_bind_eq_Inr split: if_splits)

lemma strlen_terminated: "0 \<notin> set s \<Longrightarrow> strlen (s @ 0 # rest) = Inr (length s)"
  by (simp add: strlen_def c_string_terminated)

section \<open>Byte order\<close>

datatype endian = Little | Big

text \<open>
  \<open>be_bytes w\<close> is a word as its bytes, most significant first, and \<open>of_be_bytes\<close> reads
  them back. \<open>mem_repr\<close> is the object representation \<^verbatim>\<open>memcpy\<close> sees on a host, and
  \<open>mem_load\<close> the value a host reads from such bytes. \<open>to_be\<close> and \<open>from_be\<close> are GLib's
  \<^verbatim>\<open>G*_TO_BE\<close> and \<^verbatim>\<open>G*_FROM_BE\<close>: a byte swap on little-endian hosts, nothing on big-endian ones.
\<close>

definition be_bytes :: "'a::len word \<Rightarrow> bytes" where
  "be_bytes w = map (\<lambda>i. ucast (drop_bit (8 * i) w)) (rev [0..<LENGTH('a) div 8])"

definition of_be_bytes :: "bytes \<Rightarrow> 'a::len word" where
  "of_be_bytes bs = foldl (\<lambda>w b. push_bit 8 w OR ucast b) 0 bs"

definition host_order :: "endian \<Rightarrow> bytes \<Rightarrow> bytes" where
  "host_order h bs = (case h of Little \<Rightarrow> rev bs | Big \<Rightarrow> bs)"

definition mem_repr :: "endian \<Rightarrow> 'a::len word \<Rightarrow> bytes" where
  "mem_repr h w = host_order h (be_bytes w)"

definition mem_load :: "endian \<Rightarrow> bytes \<Rightarrow> 'a::len word" where
  "mem_load h bs = of_be_bytes (host_order h bs)"

definition byte_swap :: "'a::len word \<Rightarrow> 'a word" where
  "byte_swap w = of_be_bytes (rev (be_bytes w))"

definition to_be :: "endian \<Rightarrow> 'a::len word \<Rightarrow> 'a word" where
  "to_be h w = (case h of Little \<Rightarrow> byte_swap w | Big \<Rightarrow> w)"

definition from_be :: "endian \<Rightarrow> 'a::len word \<Rightarrow> 'a word" where
  "from_be h w = (case h of Little \<Rightarrow> byte_swap w | Big \<Rightarrow> w)"

lemma length_be_bytes [simp]: "length (be_bytes (w :: 'a::len word)) = LENGTH('a) div 8"
  by (simp add: be_bytes_def)

lemma length_host_order [simp]: "length (host_order h bs) = length bs"
  by (simp add: host_order_def split: endian.split)

lemma length_mem_repr [simp]: "length (mem_repr h (w :: 'a::len word)) = LENGTH('a) div 8"
  by (simp add: mem_repr_def)

lemma of_be_bytes_snoc: "of_be_bytes (bs @ [b]) = push_bit 8 (of_be_bytes bs) OR ucast b"
  by (simp add: of_be_bytes_def)

lemma bit_of_be_bytes:
  "bit (of_be_bytes bs :: 'a::len word) k \<longleftrightarrow>
     k < LENGTH('a) \<and> k div 8 < length bs \<and> bit (rev bs ! (k div 8)) (k mod 8)"
proof (induction bs arbitrary: k rule: rev_induct)
  case Nil
  show ?case by (simp add: of_be_bytes_def)
next
  case (snoc b bs)
  show ?case
  proof (cases "k < 8")
    case True
    then show ?thesis
      by (auto simp: of_be_bytes_snoc bit_or_iff bit_push_bit_iff bit_ucast_iff dest: bit_imp_le_length)
  next
    case False
    then obtain j where k: "k = 8 + j" by (metis le_add_diff_inverse not_less)
    have "\<not> bit b k" using False by (auto dest: bit_imp_le_length)
    moreover have "(8 + j) div 8 = Suc (j div 8)" by simp
    ultimately show ?thesis
      by (auto simp: of_be_bytes_snoc bit_or_iff bit_push_bit_iff bit_ucast_iff k snoc.IH
          dest: bit_imp_le_length)
  qed
qed

lemma rev_be_bytes_nth:
  "j < LENGTH('a) div 8 \<Longrightarrow> rev (be_bytes (w :: 'a::len word)) ! j = ucast (drop_bit (8 * j) w)"
  by (simp add: be_bytes_def rev_map)

lemma of_be_bytes_be_bytes:
  assumes "8 dvd LENGTH('a)"
  shows "of_be_bytes (be_bytes (w :: 'a::len word)) = w"
proof (rule bit_word_eqI)
  fix k assume k: "k < LENGTH('a)"
  from assms k have d: "k div 8 < LENGTH('a) div 8" by auto
  then show "bit (of_be_bytes (be_bytes w) :: 'a word) k = bit w k"
    using k by (simp add: bit_of_be_bytes rev_be_bytes_nth bit_ucast_iff bit_drop_bit_eq)
qed

lemma be_bytes_of_be_bytes:
  assumes "length bs = LENGTH('a) div 8"
  shows "be_bytes (of_be_bytes bs :: 'a::len word) = bs"
proof -
  have "rev (be_bytes (of_be_bytes bs :: 'a word)) = rev bs"
  proof (rule nth_equalityI)
    show "length (rev (be_bytes (of_be_bytes bs :: 'a word))) = length (rev bs)"
      using assms by simp
    fix j assume "j < length (rev (be_bytes (of_be_bytes bs :: 'a word)))"
    then have j: "j < LENGTH('a) div 8" by simp
    show "rev (be_bytes (of_be_bytes bs :: 'a word)) ! j = rev bs ! j"
    proof (rule bit_word_eqI)
      fix k assume k: "k < LENGTH(8)"
      then have "8 * j + k < LENGTH('a)" using j by auto
      with j k assms show
        "bit (rev (be_bytes (of_be_bytes bs :: 'a word)) ! j) k = bit (rev bs ! j) k"
        by (simp add: rev_be_bytes_nth bit_ucast_iff bit_drop_bit_eq bit_of_be_bytes)
    qed
  qed
  then show ?thesis by simp
qed

lemma host_order_involutive [simp]: "host_order h (host_order h bs) = bs"
  by (simp add: host_order_def split: endian.split)

lemma mem_load_mem_repr:
  "8 dvd LENGTH('a) \<Longrightarrow> mem_load h (mem_repr h (w :: 'a::len word)) = w"
  by (simp add: mem_load_def mem_repr_def of_be_bytes_be_bytes)

text \<open>The bytes a host stores for a converted word are the big-endian bytes, on every host.\<close>

lemma mem_repr_to_be:
  "mem_repr h (to_be h (w :: 'a::len word)) = be_bytes w"
  by (cases h) (simp_all add: mem_repr_def host_order_def to_be_def byte_swap_def be_bytes_of_be_bytes)

lemma from_be_mem_load:
  "length bs = LENGTH('a) div 8 \<Longrightarrow> from_be h (mem_load h bs :: 'a::len word) = of_be_bytes bs"
  by (cases h) (simp_all add: mem_load_def host_order_def from_be_def byte_swap_def be_bytes_of_be_bytes)

lemma be_bytes_inject:
  "8 dvd LENGTH('a) \<Longrightarrow> be_bytes (v :: 'a::len word) = be_bytes w \<longleftrightarrow> v = w"
  by (metis of_be_bytes_be_bytes)

end
