(* ===== verification/Formatter_Scalars.thy ===== *)
theory Formatter_Scalars
  imports Catalina_Base
begin

text \<open>
  The scalar half of \<^verbatim>\<open>catalina/catalina-binary-formatter.c\<close>: the type codes of
  \<^verbatim>\<open>catalina-binary-formatter-private.h\<close> and the twelve pairs
  \<^verbatim>\<open>catalina_binary_formatter_write_X\<close> / \<^verbatim>\<open>catalina_binary_formatter_read_X\<close> of fixed
  width. Every pair is an instance of the locale \<open>wire_codec\<close>, whose lemmas (round trip
  between any two hosts, canonical bytes, no over-read) are proved once.

  A writer returns \<open>None\<close> when it returns \<^verbatim>\<open>FALSE\<close> and leaves its out-locations alone, and
  \<open>Some (*buffer, *buffer_length)\<close> when it returns \<^verbatim>\<open>TRUE\<close>. A reader takes the old content
  of its location \<open>value\<close> and returns its \<^verbatim>\<open>gboolean\<close> with the content afterwards. The
  \<^verbatim>\<open>formatter\<close> and \<^verbatim>\<open>error\<close> arguments, which none of them uses, are left out.
\<close>

section \<open>Types\<close>

text \<open>C integers are words; the signed ones are read with \<open>sint\<close> where their value matters.\<close>

type_synonym gboolean = "32 word"
type_synonym gchar = "8 word"
type_synonym gshort = "16 word"
type_synonym gint = "32 word"
type_synonym guint = "32 word"
type_synonym glong = "64 word"
type_synonym gint64 = "64 word"

datatype out_loc = Null_Loc | Loc \<comment> \<open>an out-location argument: \<^verbatim>\<open>NULL\<close> or not\<close>

type_synonym write_out = "(bytes \<times> guint) option"

definition BINARY_FORMATTER_TYPE_UNSIGNED :: byte where
  "BINARY_FORMATTER_TYPE_UNSIGNED = push_bit 7 1"

definition BINARY_FORMATTER_TYPE_BOOLEAN :: byte where
  "BINARY_FORMATTER_TYPE_BOOLEAN = 1"

definition BINARY_FORMATTER_TYPE_INT64 :: byte where
  "BINARY_FORMATTER_TYPE_INT64 = 2"

definition BINARY_FORMATTER_TYPE_UINT64 :: byte where
  "BINARY_FORMATTER_TYPE_UINT64 = 2 OR BINARY_FORMATTER_TYPE_UNSIGNED"

definition BINARY_FORMATTER_TYPE_LONG :: byte where
  "BINARY_FORMATTER_TYPE_LONG = 3"

definition BINARY_FORMATTER_TYPE_ULONG :: byte where
  "BINARY_FORMATTER_TYPE_ULONG = 3 OR BINARY_FORMATTER_TYPE_UNSIGNED"

definition BINARY_FORMATTER_TYPE_INT :: byte where
  "BINARY_FORMATTER_TYPE_INT = 4"

definition BINARY_FORMATTER_TYPE_UINT :: byte where
  "BINARY_FORMATTER_TYPE_UINT = 4 OR BINARY_FORMATTER_TYPE_UNSIGNED"

definition BINARY_FORMATTER_TYPE_SHORT :: byte where
  "BINARY_FORMATTER_TYPE_SHORT = 5"

definition BINARY_FORMATTER_TYPE_USHORT :: byte where
  "BINARY_FORMATTER_TYPE_USHORT = 5 OR BINARY_FORMATTER_TYPE_UNSIGNED"

definition BINARY_FORMATTER_TYPE_CHAR :: byte where
  "BINARY_FORMATTER_TYPE_CHAR = 6"

definition BINARY_FORMATTER_TYPE_UCHAR :: byte where
  "BINARY_FORMATTER_TYPE_UCHAR = 6 OR BINARY_FORMATTER_TYPE_UNSIGNED"

definition BINARY_FORMATTER_TYPE_DOUBLE :: byte where
  "BINARY_FORMATTER_TYPE_DOUBLE = 7"

definition BINARY_FORMATTER_TYPE_FLOAT :: byte where
  "BINARY_FORMATTER_TYPE_FLOAT = 8"

definition BINARY_FORMATTER_TYPE_STRING :: byte where
  "BINARY_FORMATTER_TYPE_STRING = 14"

definition BINARY_FORMATTER_TYPE_OBJECT :: byte where
  "BINARY_FORMATTER_TYPE_OBJECT = 15"

lemmas type_code_defs =
  BINARY_FORMATTER_TYPE_UNSIGNED_def BINARY_FORMATTER_TYPE_BOOLEAN_def
  BINARY_FORMATTER_TYPE_INT64_def
  BINARY_FORMATTER_TYPE_UINT64_def
  BINARY_FORMATTER_TYPE_LONG_def
  BINARY_FORMATTER_TYPE_ULONG_def
  BINARY_FORMATTER_TYPE_INT_def
  BINARY_FORMATTER_TYPE_UINT_def
  BINARY_FORMATTER_TYPE_SHORT_def
  BINARY_FORMATTER_TYPE_USHORT_def
  BINARY_FORMATTER_TYPE_CHAR_def
  BINARY_FORMATTER_TYPE_UCHAR_def
  BINARY_FORMATTER_TYPE_DOUBLE_def
  BINARY_FORMATTER_TYPE_FLOAT_def
  BINARY_FORMATTER_TYPE_STRING_def
  BINARY_FORMATTER_TYPE_OBJECT_def

lemma type_code_values [simp]:
  "BINARY_FORMATTER_TYPE_BOOLEAN = 1"
  "BINARY_FORMATTER_TYPE_INT64 = 2"
  "BINARY_FORMATTER_TYPE_UINT64 = 130"
  "BINARY_FORMATTER_TYPE_LONG = 3"
  "BINARY_FORMATTER_TYPE_ULONG = 131"
  "BINARY_FORMATTER_TYPE_INT = 4"
  "BINARY_FORMATTER_TYPE_UINT = 132"
  "BINARY_FORMATTER_TYPE_SHORT = 5"
  "BINARY_FORMATTER_TYPE_USHORT = 133"
  "BINARY_FORMATTER_TYPE_CHAR = 6"
  "BINARY_FORMATTER_TYPE_UCHAR = 134"
  "BINARY_FORMATTER_TYPE_DOUBLE = 7"
  "BINARY_FORMATTER_TYPE_FLOAT = 8"
  "BINARY_FORMATTER_TYPE_STRING = 14"
  "BINARY_FORMATTER_TYPE_OBJECT = 15"
  by (simp_all add: type_code_defs)

section \<open>The reader and writer pairs\<close>

text \<open>
  One byte: \<^verbatim>\<open>(guchar)value\<close> keeps the low byte of the \<^verbatim>\<open>gint\<close>, and reading
  \<^verbatim>\<open>buffer[1]\<close>, a signed \<^verbatim>\<open>gchar\<close>, back into a \<^verbatim>\<open>gboolean\<close> sign-extends it.
\<close>

definition write_boolean :: "gboolean \<Rightarrow> out_loc \<Rightarrow> out_loc \<Rightarrow> write_out result" where
  "write_boolean value buffer buffer_length =
     (if buffer = Null_Loc then Inr None
      else if buffer_length = Null_Loc then Inr None
      else c_bind (store_byte (zeroed 2) 0 BINARY_FORMATTER_TYPE_BOOLEAN) (\<lambda>buf.
           c_bind (store_byte buf 1 (ucast value)) (\<lambda>buf.
           Inr (Some (buf, 2)))))"

definition read_boolean :: "gboolean \<Rightarrow> bytes option \<Rightarrow> guint \<Rightarrow> (bool \<times> gboolean) result" where
  "read_boolean value buffer buffer_length =
     (case buffer of None \<Rightarrow> Inr (False, value)
      | Some buf \<Rightarrow>
          if buffer_length \<noteq> 2 then Inr (False, value)
          else c_bind (load_byte buf 0) (\<lambda>t.
               if t \<noteq> BINARY_FORMATTER_TYPE_BOOLEAN then Inr (False, value)
               else c_bind (load_byte buf 1) (\<lambda>b. Inr (True, scast b))))"

definition write_char :: "gchar \<Rightarrow> out_loc \<Rightarrow> out_loc \<Rightarrow> write_out result" where
  "write_char value buffer buffer_length =
     (if buffer = Null_Loc then Inr None
      else if buffer_length = Null_Loc then Inr None
      else c_bind (store_byte (zeroed 2) 0 BINARY_FORMATTER_TYPE_CHAR) (\<lambda>buf.
           c_bind (store_byte buf 1 (value)) (\<lambda>buf.
           Inr (Some (buf, 2)))))"

definition read_char :: "gchar \<Rightarrow> bytes option \<Rightarrow> guint \<Rightarrow> (bool \<times> gchar) result" where
  "read_char value buffer buffer_length =
     (case buffer of None \<Rightarrow> Inr (False, value)
      | Some buf \<Rightarrow>
          if buffer_length \<noteq> 2 then Inr (False, value)
          else c_bind (load_byte buf 0) (\<lambda>t.
               if t \<noteq> BINARY_FORMATTER_TYPE_CHAR then Inr (False, value)
               else c_bind (load_byte buf 1) (\<lambda>b. Inr (True, b))))"

definition write_uchar :: "gchar \<Rightarrow> out_loc \<Rightarrow> out_loc \<Rightarrow> write_out result" where
  "write_uchar value buffer buffer_length =
     (if buffer = Null_Loc then Inr None
      else if buffer_length = Null_Loc then Inr None
      else c_bind (store_byte (zeroed 2) 0 BINARY_FORMATTER_TYPE_UCHAR) (\<lambda>buf.
           c_bind (store_byte buf 1 (value)) (\<lambda>buf.
           Inr (Some (buf, 2)))))"

definition read_uchar :: "gchar \<Rightarrow> bytes option \<Rightarrow> guint \<Rightarrow> (bool \<times> gchar) result" where
  "read_uchar value buffer buffer_length =
     (case buffer of None \<Rightarrow> Inr (False, value)
      | Some buf \<Rightarrow>
          if buffer_length \<noteq> 2 then Inr (False, value)
          else c_bind (load_byte buf 0) (\<lambda>t.
               if t \<noteq> BINARY_FORMATTER_TYPE_UCHAR then Inr (False, value)
               else c_bind (load_byte buf 1) (\<lambda>b. Inr (True, b))))"

text \<open>
  From here on the value is converted with \<^verbatim>\<open>G*_TO_BE\<close> into \<open>be_value\<close>, whose object
  representation is copied behind the type code.
\<close>

definition write_short :: "endian \<Rightarrow> gshort \<Rightarrow> out_loc \<Rightarrow> out_loc \<Rightarrow> write_out result" where
  "write_short h value buffer buffer_length =
     (if buffer = Null_Loc then Inr None
      else if buffer_length = Null_Loc then Inr None
      else let be_value = to_be h value in
           c_bind (store_byte (zeroed 3) 0 BINARY_FORMATTER_TYPE_SHORT) (\<lambda>buf.
           c_bind (store_bytes buf 1 (mem_repr h be_value)) (\<lambda>buf.
           Inr (Some (buf, 3)))))"

definition read_short :: "endian \<Rightarrow> gshort \<Rightarrow> bytes option \<Rightarrow> guint \<Rightarrow> (bool \<times> gshort) result" where
  "read_short h value buffer buffer_length =
     (case buffer of None \<Rightarrow> Inr (False, value)
      | Some buf \<Rightarrow>
          if buffer_length \<noteq> 3 then Inr (False, value)
          else c_bind (load_byte buf 0) (\<lambda>t.
               if t \<noteq> BINARY_FORMATTER_TYPE_SHORT then Inr (False, value)
               else c_bind (load_bytes buf 1 2) (\<lambda>be_value.
                    Inr (True, from_be h (mem_load h be_value)))))"

definition write_ushort :: "endian \<Rightarrow> gshort \<Rightarrow> out_loc \<Rightarrow> out_loc \<Rightarrow> write_out result" where
  "write_ushort h value buffer buffer_length =
     (if buffer = Null_Loc then Inr None
      else if buffer_length = Null_Loc then Inr None
      else let be_value = to_be h value in
           c_bind (store_byte (zeroed 3) 0 BINARY_FORMATTER_TYPE_USHORT) (\<lambda>buf.
           c_bind (store_bytes buf 1 (mem_repr h be_value)) (\<lambda>buf.
           Inr (Some (buf, 3)))))"

definition read_ushort :: "endian \<Rightarrow> gshort \<Rightarrow> bytes option \<Rightarrow> guint \<Rightarrow> (bool \<times> gshort) result" where
  "read_ushort h value buffer buffer_length =
     (case buffer of None \<Rightarrow> Inr (False, value)
      | Some buf \<Rightarrow>
          if buffer_length \<noteq> 3 then Inr (False, value)
          else c_bind (load_byte buf 0) (\<lambda>t.
               if t \<noteq> BINARY_FORMATTER_TYPE_USHORT then Inr (False, value)
               else c_bind (load_bytes buf 1 2) (\<lambda>be_value.
                    Inr (True, from_be h (mem_load h be_value)))))"

definition write_int :: "endian \<Rightarrow> gint \<Rightarrow> out_loc \<Rightarrow> out_loc \<Rightarrow> write_out result" where
  "write_int h value buffer buffer_length =
     (if buffer = Null_Loc then Inr None
      else if buffer_length = Null_Loc then Inr None
      else let be_value = to_be h value in
           c_bind (store_byte (zeroed 5) 0 BINARY_FORMATTER_TYPE_INT) (\<lambda>buf.
           c_bind (store_bytes buf 1 (mem_repr h be_value)) (\<lambda>buf.
           Inr (Some (buf, 5)))))"

definition read_int :: "endian \<Rightarrow> gint \<Rightarrow> bytes option \<Rightarrow> guint \<Rightarrow> (bool \<times> gint) result" where
  "read_int h value buffer buffer_length =
     (case buffer of None \<Rightarrow> Inr (False, value)
      | Some buf \<Rightarrow>
          if buffer_length \<noteq> 5 then Inr (False, value)
          else c_bind (load_byte buf 0) (\<lambda>t.
               if t \<noteq> BINARY_FORMATTER_TYPE_INT then Inr (False, value)
               else c_bind (load_bytes buf 1 4) (\<lambda>be_value.
                    Inr (True, from_be h (mem_load h be_value)))))"

definition write_uint :: "endian \<Rightarrow> guint \<Rightarrow> out_loc \<Rightarrow> out_loc \<Rightarrow> write_out result" where
  "write_uint h value buffer buffer_length =
     (if buffer = Null_Loc then Inr None
      else if buffer_length = Null_Loc then Inr None
      else let be_value = to_be h value in
           c_bind (store_byte (zeroed 5) 0 BINARY_FORMATTER_TYPE_UINT) (\<lambda>buf.
           c_bind (store_bytes buf 1 (mem_repr h be_value)) (\<lambda>buf.
           Inr (Some (buf, 5)))))"

definition read_uint :: "endian \<Rightarrow> guint \<Rightarrow> bytes option \<Rightarrow> guint \<Rightarrow> (bool \<times> guint) result" where
  "read_uint h value buffer buffer_length =
     (case buffer of None \<Rightarrow> Inr (False, value)
      | Some buf \<Rightarrow>
          if buffer_length \<noteq> 5 then Inr (False, value)
          else c_bind (load_byte buf 0) (\<lambda>t.
               if t \<noteq> BINARY_FORMATTER_TYPE_UINT then Inr (False, value)
               else c_bind (load_bytes buf 1 4) (\<lambda>be_value.
                    Inr (True, from_be h (mem_load h be_value)))))"

text \<open>\<^verbatim>\<open>glong\<close> has eight bytes here: \<^verbatim>\<open>sizeof (glong)\<close> is 8 and fills the block of nine.\<close>

definition write_long :: "endian \<Rightarrow> glong \<Rightarrow> out_loc \<Rightarrow> out_loc \<Rightarrow> write_out result" where
  "write_long h value buffer buffer_length =
     (if buffer = Null_Loc then Inr None
      else if buffer_length = Null_Loc then Inr None
      else let be_value = to_be h value in
           c_bind (store_byte (zeroed 9) 0 BINARY_FORMATTER_TYPE_LONG) (\<lambda>buf.
           c_bind (store_bytes buf 1 (mem_repr h be_value)) (\<lambda>buf.
           Inr (Some (buf, 9)))))"

definition read_long :: "endian \<Rightarrow> glong \<Rightarrow> bytes option \<Rightarrow> guint \<Rightarrow> (bool \<times> glong) result" where
  "read_long h value buffer buffer_length =
     (case buffer of None \<Rightarrow> Inr (False, value)
      | Some buf \<Rightarrow>
          if buffer_length \<noteq> 9 then Inr (False, value)
          else c_bind (load_byte buf 0) (\<lambda>t.
               if t \<noteq> BINARY_FORMATTER_TYPE_LONG then Inr (False, value)
               else c_bind (load_bytes buf 1 8) (\<lambda>be_value.
                    Inr (True, from_be h (mem_load h be_value)))))"

definition write_ulong :: "endian \<Rightarrow> glong \<Rightarrow> out_loc \<Rightarrow> out_loc \<Rightarrow> write_out result" where
  "write_ulong h value buffer buffer_length =
     (if buffer = Null_Loc then Inr None
      else if buffer_length = Null_Loc then Inr None
      else let be_value = to_be h value in
           c_bind (store_byte (zeroed 9) 0 BINARY_FORMATTER_TYPE_ULONG) (\<lambda>buf.
           c_bind (store_bytes buf 1 (mem_repr h be_value)) (\<lambda>buf.
           Inr (Some (buf, 9)))))"

definition read_ulong :: "endian \<Rightarrow> glong \<Rightarrow> bytes option \<Rightarrow> guint \<Rightarrow> (bool \<times> glong) result" where
  "read_ulong h value buffer buffer_length =
     (case buffer of None \<Rightarrow> Inr (False, value)
      | Some buf \<Rightarrow>
          if buffer_length \<noteq> 9 then Inr (False, value)
          else c_bind (load_byte buf 0) (\<lambda>t.
               if t \<noteq> BINARY_FORMATTER_TYPE_ULONG then Inr (False, value)
               else c_bind (load_bytes buf 1 8) (\<lambda>be_value.
                    Inr (True, from_be h (mem_load h be_value)))))"

definition write_int64 :: "endian \<Rightarrow> gint64 \<Rightarrow> out_loc \<Rightarrow> out_loc \<Rightarrow> write_out result" where
  "write_int64 h value buffer buffer_length =
     (if buffer = Null_Loc then Inr None
      else if buffer_length = Null_Loc then Inr None
      else let be_value = to_be h value in
           c_bind (store_byte (zeroed 9) 0 BINARY_FORMATTER_TYPE_INT64) (\<lambda>buf.
           c_bind (store_bytes buf 1 (mem_repr h be_value)) (\<lambda>buf.
           Inr (Some (buf, 9)))))"

definition read_int64 :: "endian \<Rightarrow> gint64 \<Rightarrow> bytes option \<Rightarrow> guint \<Rightarrow> (bool \<times> gint64) result" where
  "read_int64 h value buffer buffer_length =
     (case buffer of None \<Rightarrow> Inr (False, value)
      | Some buf \<Rightarrow>
          if buffer_length \<noteq> 9 then Inr (False, value)
          else c_bind (load_byte buf 0) (\<lambda>t.
               if t \<noteq> BINARY_FORMATTER_TYPE_INT64 then Inr (False, value)
               else c_bind (load_bytes buf 1 8) (\<lambda>be_value.
                    Inr (True, from_be h (mem_load h be_value)))))"

definition write_uint64 :: "endian \<Rightarrow> gint64 \<Rightarrow> out_loc \<Rightarrow> out_loc \<Rightarrow> write_out result" where
  "write_uint64 h value buffer buffer_length =
     (if buffer = Null_Loc then Inr None
      else if buffer_length = Null_Loc then Inr None
      else let be_value = to_be h value in
           c_bind (store_byte (zeroed 9) 0 BINARY_FORMATTER_TYPE_UINT64) (\<lambda>buf.
           c_bind (store_bytes buf 1 (mem_repr h be_value)) (\<lambda>buf.
           Inr (Some (buf, 9)))))"

definition read_uint64 :: "endian \<Rightarrow> gint64 \<Rightarrow> bytes option \<Rightarrow> guint \<Rightarrow> (bool \<times> gint64) result" where
  "read_uint64 h value buffer buffer_length =
     (case buffer of None \<Rightarrow> Inr (False, value)
      | Some buf \<Rightarrow>
          if buffer_length \<noteq> 9 then Inr (False, value)
          else c_bind (load_byte buf 0) (\<lambda>t.
               if t \<noteq> BINARY_FORMATTER_TYPE_UINT64 then Inr (False, value)
               else c_bind (load_bytes buf 1 8) (\<lambda>be_value.
                    Inr (True, from_be h (mem_load h be_value)))))"

lemmas scalar_writer_defs =
  write_boolean_def write_char_def write_uchar_def write_short_def write_ushort_def write_int_def write_uint_def write_long_def write_ulong_def write_int64_def write_uint64_def

lemmas scalar_reader_defs =
  read_boolean_def read_char_def read_uchar_def read_short_def read_ushort_def read_int_def read_uint_def read_long_def read_ulong_def read_int64_def read_uint64_def

section \<open>The contract of a pair\<close>

text \<open>
  What a pair promises, relative to an abstract encoding that mentions no host: the writer
  emits the type code and \<open>encode v\<close>; the reader accepts exactly a block of that length
  with that type code and decodes the payload. \<open>canonical\<close> are the values that survive the
  encoding (all of them, but for \<^verbatim>\<open>gboolean\<close>).
\<close>

locale wire_codec =
  fixes writer :: "endian \<Rightarrow> 'v \<Rightarrow> out_loc \<Rightarrow> out_loc \<Rightarrow> write_out result"
    and reader :: "endian \<Rightarrow> 'v \<Rightarrow> bytes option \<Rightarrow> guint \<Rightarrow> (bool \<times> 'v) result"
    and encode :: "'v \<Rightarrow> bytes"
    and decode :: "bytes \<Rightarrow> 'v"
    and canonical :: "'v \<Rightarrow> bool"
    and tag :: byte
    and width :: nat
    and size :: guint
  assumes writer_eq: "writer h v Loc Loc = Inr (Some (tag # encode v, size))"
    and writer_null: "b = Null_Loc \<or> l = Null_Loc \<Longrightarrow> writer h v b l = Inr None"
    and reader_null: "reader h v0 None n = Inr (False, v0)"
    and reader_eq: "reader h v0 (Some buf) n =
          (if n \<noteq> size then Inr (False, v0)
           else c_bind (load_byte buf 0) (\<lambda>t.
                if t \<noteq> tag then Inr (False, v0)
                else c_bind (load_bytes buf 1 width) (\<lambda>bs. Inr (True, decode bs))))"
    and length_encode: "length (encode v) = width"
    and decode_encode: "canonical v \<Longrightarrow> decode (encode v) = v"
    and encode_decode: "length bs = width \<Longrightarrow> encode (decode bs) = bs"
    and size_width: "unat size = Suc width"
begin

lemma read_written:
  "reader h v0 (Some (tag # encode v @ rest)) (size) = Inr (True, decode (encode v))"
  by (simp add: reader_eq mem_simps length_encode)

lemma roundtrip:
  assumes "canonical v" "writer h v Loc Loc = Inr (Some (buf, len))"
  shows "reader h' v0 (Some (buf @ rest)) len = Inr (True, v)"
  using assms read_written [of h' v0 v rest] by (auto simp: writer_eq decode_encode)

lemma host_independent: "writer h v b l = writer h' v b l"
  by (cases b; cases l) (simp_all add: writer_eq writer_null)

lemma write_inj:
  assumes "canonical u" "canonical v" "writer h u Loc Loc = writer h' v Loc Loc"
  shows "u = v"
proof -
  from assms(3) have "encode u = encode v" by (simp add: writer_eq)
  then have "decode (encode u) = decode (encode v)" by simp
  with assms(1,2) show ?thesis by (simp add: decode_encode)
qed

lemma no_over_read:
  assumes "unat n \<le> length buf"
  shows "reader h v0 (Some buf) n \<noteq> Inl e"
proof (cases "n = size")
  case True
  with assms have "Suc width \<le> length buf" by (simp only: size_width)
  then have "0 < length buf" and "1 + width \<le> length buf" by linarith+
  then show ?thesis using True by (cases "buf ! 0 = tag") (simp_all add: reader_eq load_byte_in load_bytes_in)
next
  case False
  then show ?thesis by (simp add: reader_eq)
qed

lemma rejected_unchanged: "reader h v0 b n = Inr (False, v) \<Longrightarrow> v = v0"
  by (cases b) (auto simp: reader_null reader_eq c_bind_eq_Inr split: if_splits)

lemma accepted:
  assumes "reader h v0 (Some buf) n = Inr (True, v)"
  obtains payload rest where "buf = tag # payload @ rest" "length payload = width"
    "n = size" "v = decode payload"
proof -
  from assms have n: "n = size"
    and t: "load_byte buf 0 = Inr tag"
    and v: "load_bytes buf 1 width = Inr bs \<Longrightarrow> v = decode bs" for bs
    by (auto simp: reader_eq c_bind_eq_Inr split: if_splits)
  from assms obtain bs where bs: "load_bytes buf 1 width = Inr bs"
    by (auto simp: reader_eq c_bind_eq_Inr split: if_splits)
  from t obtain buf' where buf: "buf = tag # buf'"
    by (cases buf) (auto simp: load_byte_def)
  from bs have b: "take width buf' = bs" "length bs = width"
    by (auto simp: buf load_bytes_def split: if_splits)
  have "buf = tag # bs @ drop width buf'"
    using b(1) buf by (metis append_take_drop_id)
  with that b n v [OF bs] show thesis by blast
qed

lemma accepted_canonical_bytes:
  assumes "reader h v0 (Some buf) n = Inr (True, v)" "length buf = unat n"
  shows "writer h' v Loc Loc = Inr (Some (buf, n))"
proof -
  from assms(1) obtain payload rest where *: "buf = tag # payload @ rest" "length payload = width"
    "n = size" "v = decode payload" by (rule accepted)
  with assms(2) have "rest = []" by (simp add: size_width)
  with * show ?thesis by (simp add: writer_eq encode_decode)
qed

end

section \<open>The pairs satisfy the contract\<close>

text \<open>
  Loads and stores on a block of known size evaluate; the rest of each interpretation is
  the conversion to big-endian, which disappears from the stored bytes.
\<close>

definition boolean_canonical :: "gboolean \<Rightarrow> bool" where
  "boolean_canonical v \<longleftrightarrow> - 128 \<le> sint v \<and> sint v < 128"

lemma store_type_code:
  "store_byte (zeroed (Suc n)) 0 b = Inr (b # zeroed n)"
  using store_byte_append [of "[]" 0 n b] by simp

lemma load_one_byte: "load_byte buf 1 = c_bind (load_bytes buf 1 1) (\<lambda>bs. Inr (hd bs))"
proof (cases buf)
  case (Cons a as)
  then show ?thesis by (cases as) (auto simp: load_byte_def load_bytes_def)
qed (simp add: load_byte_def load_bytes_def)

lemma store_one_byte: "store_byte (b # zeroed (Suc 0)) (Suc 0) c = Inr [b, c]"
  by (simp add: store_byte_def zeroed_Suc)

lemma store_payload:
  fixes w :: "'a::len word"
  shows "LENGTH('a) div 8 = n \<Longrightarrow>
    store_bytes (b # zeroed n) (Suc 0) (mem_repr h (to_be h w)) = Inr (b # be_bytes w)"
  by (simp add: mem_simps mem_repr_to_be)

lemma load_payload:
  assumes "LENGTH('a) div 8 = n"
  shows "c_bind (load_bytes buf i n) (\<lambda>bs. Inr (True, from_be h (mem_load h bs :: 'a::len word)))
       = c_bind (load_bytes buf i n) (\<lambda>bs. Inr (True, of_be_bytes bs))"
  using assms by (cases "load_bytes buf i n") (auto simp: from_be_mem_load dest: length_load_bytes)

lemma store_byte_numeral:
  "n = Suc m \<Longrightarrow> store_byte (zeroed n) 0 b = Inr (b # zeroed m)"
  by (simp only: store_type_code)

lemmas payload_simps = Let_def store_byte_numeral [OF numeral_3_eq_3]
  store_byte_numeral [of 5 4] store_byte_numeral [of 9 8]
  store_payload load_payload of_be_bytes_be_bytes be_bytes_of_be_bytes

lemma length_1_conv: "length bs = Suc 0 \<Longrightarrow> [hd bs] = bs"
  by (cases bs) auto

lemmas one_byte_simps = store_byte_numeral [OF numeral_2_eq_2] store_one_byte
  load_one_byte [simplified] c_bind_assoc length_1_conv

lemma scast_ucast_byte:
  fixes v :: "32 word"
  assumes "- 128 \<le> sint v" "sint v < 128"
  shows "scast (ucast v :: byte) = v"
proof -
  have "sint (ucast v :: byte) = signed_take_bit 7 (sint v)"
    by (simp add: sint_uint signed_take_bit_take_bit unsigned_ucast_eq take_bit_signed_take_bit)
  also have "\<dots> = sint v"
    using assms by (simp add: signed_take_bit_int_eq_self_iff)
  finally have "sint (ucast v :: byte) = sint v" .
  then have "scast (ucast v :: byte) = (word_of_int (sint v) :: 32 word)"
    by (simp add: scast_eq)
  then show ?thesis by simp
qed

lemma ucast_scast_byte: "ucast (scast (b :: byte) :: 32 word) = b"
  by (rule bit_word_eqI) (simp add: bit_ucast_iff bit_signed_iff)

interpretation boolean: wire_codec "\<lambda>h. write_boolean" "\<lambda>h. read_boolean"
  "\<lambda>v. [ucast v]" "\<lambda>bs. scast (hd bs)" boolean_canonical BINARY_FORMATTER_TYPE_BOOLEAN 1 2
  by unfold_locales
    (auto simp: write_boolean_def read_boolean_def one_byte_simps
      boolean_canonical_def scast_ucast_byte ucast_scast_byte
      cong: if_cong)

interpretation char: wire_codec "\<lambda>h. write_char" "\<lambda>h. read_char"
  "\<lambda>v. [v]" hd "\<lambda>_. True" BINARY_FORMATTER_TYPE_CHAR 1 2
  by unfold_locales
    (auto simp: write_char_def read_char_def one_byte_simps cong: if_cong)

interpretation uchar: wire_codec "\<lambda>h. write_uchar" "\<lambda>h. read_uchar"
  "\<lambda>v. [v]" hd "\<lambda>_. True" BINARY_FORMATTER_TYPE_UCHAR 1 2
  by unfold_locales
    (auto simp: write_uchar_def read_uchar_def one_byte_simps cong: if_cong)

interpretation short: wire_codec write_short read_short be_bytes of_be_bytes "\<lambda>_. True"
  BINARY_FORMATTER_TYPE_SHORT 2 3
  by unfold_locales (auto simp: write_short_def read_short_def payload_simps cong: if_cong)

interpretation ushort: wire_codec write_ushort read_ushort be_bytes of_be_bytes "\<lambda>_. True"
  BINARY_FORMATTER_TYPE_USHORT 2 3
  by unfold_locales (auto simp: write_ushort_def read_ushort_def payload_simps cong: if_cong)

interpretation int: wire_codec write_int read_int be_bytes of_be_bytes "\<lambda>_. True"
  BINARY_FORMATTER_TYPE_INT 4 5
  by unfold_locales (auto simp: write_int_def read_int_def payload_simps cong: if_cong)

interpretation uint: wire_codec write_uint read_uint be_bytes of_be_bytes "\<lambda>_. True"
  BINARY_FORMATTER_TYPE_UINT 4 5
  by unfold_locales (auto simp: write_uint_def read_uint_def payload_simps cong: if_cong)

interpretation long: wire_codec write_long read_long be_bytes of_be_bytes "\<lambda>_. True"
  BINARY_FORMATTER_TYPE_LONG 8 9
  by unfold_locales (auto simp: write_long_def read_long_def payload_simps cong: if_cong)

interpretation ulong: wire_codec write_ulong read_ulong be_bytes of_be_bytes "\<lambda>_. True"
  BINARY_FORMATTER_TYPE_ULONG 8 9
  by unfold_locales (auto simp: write_ulong_def read_ulong_def payload_simps cong: if_cong)

interpretation int64: wire_codec write_int64 read_int64 be_bytes of_be_bytes "\<lambda>_. True"
  BINARY_FORMATTER_TYPE_INT64 8 9
  by unfold_locales (auto simp: write_int64_def read_int64_def payload_simps cong: if_cong)

interpretation uint64: wire_codec write_uint64 read_uint64 be_bytes of_be_bytes "\<lambda>_. True"
  BINARY_FORMATTER_TYPE_UINT64 8 9
  by unfold_locales (auto simp: write_uint64_def read_uint64_def payload_simps cong: if_cong)

end
