(* ===== verification/Formatter_Strings.thy ===== *)
theory Formatter_Strings
  imports Formatter_Scalars
begin

text \<open>
  The variable-length half of \<^verbatim>\<open>catalina/catalina-binary-formatter.c\<close>: strings, and the
  floating-point numbers that are stored as the text \<^verbatim>\<open>printf\<close> makes of them.

  The C library's number formatting and parsing are a parameter, the record \<open>libc\<close>: the
  text of \<^verbatim>\<open>"%0.8g"\<close> and \<^verbatim>\<open>"%g"\<close> for a value (as its IEEE bits), and what \<^verbatim>\<open>strtod\<close> and
  \<^verbatim>\<open>strtof\<close> return for a text, with whether they set \<^verbatim>\<open>errno\<close>.
\<close>

section \<open>Strings\<close>

text \<open>
  The local \<^verbatim>\<open>length\<close> of \<^verbatim>\<open>write_string\<close>: the terminating NUL is counted for
  \<^verbatim>\<open>value_length == -1\<close>, the sum is truncated to a \<^verbatim>\<open>guint\<close>.
\<close>

definition string_length :: "bytes option \<Rightarrow> gint \<Rightarrow> guint result" where
  "string_length value value_length =
     (case value of
        Some mem \<Rightarrow>
          if value_length = - 1 then c_bind (strlen mem) (\<lambda>n. Inr (of_nat (n + 1)))
          else if 0 < sint value_length then Inr value_length else Inr 0
      | None \<Rightarrow> if 0 < sint value_length then Inr value_length else Inr 0)"

definition write_string ::
    "endian \<Rightarrow> bytes option \<Rightarrow> gint \<Rightarrow> out_loc \<Rightarrow> out_loc \<Rightarrow> write_out result" where
  "write_string h value value_length buffer buffer_length =
     (if buffer = Null_Loc then Inr None
      else if buffer_length = Null_Loc then Inr None
      else c_bind (string_length value value_length) (\<lambda>length.
           let total = 1 + 4 + length in
           c_bind (store_byte (zeroed (unat total)) 0 BINARY_FORMATTER_TYPE_STRING) (\<lambda>buf.
           c_bind (case value of None \<Rightarrow> Inr buf
                   | Some mem \<Rightarrow> c_bind (load_bytes mem 0 (unat length)) (store_bytes buf 5)) (\<lambda>buf.
           c_bind (store_bytes buf 1 (mem_repr h (to_be h length))) (\<lambda>buf.
           Inr (Some (buf, total)))))))"

text \<open>
  The outcome of \<^verbatim>\<open>read_string\<close>: its \<^verbatim>\<open>gboolean\<close>, \<^verbatim>\<open>value\<close> and \<^verbatim>\<open>value_length\<close>. Both are
  locations that may be \<^verbatim>\<open>NULL\<close> (the outer option); \<^verbatim>\<open>*value\<close> is itself a pointer, which
  \<^verbatim>\<open>g_malloc0\<close> makes \<^verbatim>\<open>NULL\<close> for a length of zero.
\<close>

type_synonym string_out = "bool \<times> bytes option option \<times> guint option"

definition read_string ::
    "endian \<Rightarrow> bytes option option \<Rightarrow> guint option \<Rightarrow> bytes option \<Rightarrow> guint \<Rightarrow> string_out result" where
  "read_string h value value_length buffer buffer_length =
     (case buffer of None \<Rightarrow> Inr (False, value, value_length)
      | Some buf \<Rightarrow>
          if value = None then Inr (False, value, value_length)
          else c_bind (load_byte buf 0) (\<lambda>t.
               if t \<noteq> BINARY_FORMATTER_TYPE_STRING then Inr (False, value, value_length)
               else c_bind (load_bytes buf 1 4) (\<lambda>be_length.
                    let length = from_be h (mem_load h be_length) :: guint in
                    if length + 5 \<noteq> buffer_length then Inr (False, value, value_length)
                    else c_bind (load_bytes buf 5 (unat length)) (\<lambda>s.
                         Inr (True, Some (map_option (\<lambda>_. s) (g_malloc0 (unat length))),
                              map_option (\<lambda>_. length) value_length)))))"

text \<open>The bytes of a string with payload \<open>p\<close>, as they lie in a buffer.\<close>

definition wire_string :: "byte \<Rightarrow> bytes \<Rightarrow> bytes" where
  "wire_string tag p = tag # be_bytes (of_nat (length p) :: guint) @ p"

lemma length_wire_string [simp]: "length (wire_string tag p) = length p + 5"
  by (simp add: wire_string_def)

lemma unat_of_nat_guint: "n < 2 ^ 32 \<Longrightarrow> unat (of_nat n :: guint) = n"
  by (simp add: unat_of_nat take_bit_nat_eq_self)

lemma unat_guint_less: "unat (l :: guint) < 2 ^ 32"
  using unsigned_less [of l, where ?'a = nat] by simp

lemma unat_5_plus:
  fixes l :: guint
  assumes "unat l + 5 < 2 ^ 32"
  shows "unat (5 + l) = unat l + 5"
proof -
  have "unat (5 + l) = (5 + unat l) mod 2 ^ 32" by (simp add: unat_word_ariths)
  with assms show ?thesis by simp
qed

text \<open>Every branch of the writer, on memory that holds what is to be copied.\<close>

lemma write_string_payload:
  assumes "string_length value value_length = Inr (of_nat (length p))"
    and "length p + 5 < 2 ^ 32"
    and "\<And>mem. value = Some mem \<Longrightarrow> load_bytes mem 0 (length p) = Inr p"
    and "value = None \<Longrightarrow> p = zeroed (length p)"
  shows "write_string h value value_length Loc Loc =
           Inr (Some (wire_string BINARY_FORMATTER_TYPE_STRING p, of_nat (length p + 5)))"
proof -
  let ?l = "of_nat (length p) :: guint"
  have l: "unat ?l = length p" using assms(2) by (simp add: unat_of_nat_guint)
  have total: "unat (1 + 4 + ?l) = Suc (4 + length p)"
    using assms(2) unat_5_plus [of ?l] by (simp add: l)
  have z: "zeroed (4 + length p) = zeroed 4 @ zeroed (length p)" by (rule zeroed_add)
  have copied: "(case value of None \<Rightarrow> Inr (14 # zeroed (4 + length p))
      | Some mem \<Rightarrow> c_bind (load_bytes mem 0 (length p)) (store_bytes (14 # zeroed (4 + length p)) 5))
      = Inr (14 # zeroed 4 @ p)"
  proof (cases "value")
    case None
    then show ?thesis using assms(4) z by simp
  next
    case (Some mem)
    have "store_bytes ((14 # zeroed 4) @ zeroed (length p)) 5 p = Inr ((14 # zeroed 4) @ p)"
      using store_bytes_append [of "14 # zeroed 4" 5 p "length p"] by simp
    then show ?thesis using Some assms(3) [OF Some] z by simp
  qed
  have "store_bytes (14 # zeroed 4 @ p) 1 (mem_repr h (to_be h ?l)) = Inr (14 # be_bytes ?l @ p)"
    by (simp add: store_bytes_def mem_repr_to_be)
  moreover have "store_byte (zeroed (5 + length p)) 0 14 = Inr (14 # zeroed (4 + length p))"
    using store_type_code [of "4 + length p"] by simp
  ultimately show ?thesis
    using copied total
    by (simp add: write_string_def assms(1) Let_def l wire_string_def add.commute [of _ 5]
        cong: option.case_cong)
qed

lemma write_string_terminated:
  assumes "0 \<notin> set s" "length s + 6 < 2 ^ 32"
  shows "write_string h (Some (s @ 0 # rest)) (- 1) Loc Loc =
           Inr (Some (wire_string BINARY_FORMATTER_TYPE_STRING (s @ [0]), of_nat (length s + 6)))"
proof -
  have "write_string h (Some (s @ 0 # rest)) (- 1) Loc Loc =
      Inr (Some (wire_string BINARY_FORMATTER_TYPE_STRING (s @ [0]), of_nat (length (s @ [0]) + 5)))"
  proof (rule write_string_payload)
    show "string_length (Some (s @ 0 # rest)) (- 1) = Inr (of_nat (length (s @ [0])))"
      using assms by (simp add: string_length_def strlen_terminated add.commute)
    show "length (s @ [0]) + 5 < 2 ^ 32" using assms(2) by simp
    show "load_bytes mem 0 (length (s @ [0])) = Inr (s @ [0])" if "Some (s @ 0 # rest) = Some mem" for mem
      using that load_bytes_append [of "s @ [0]" "length (s @ [0])" rest] by simp
  qed simp
  then show ?thesis by simp
qed

lemma write_string_NULL:
  "write_string h None (- 1) Loc Loc = Inr (Some (wire_string BINARY_FORMATTER_TYPE_STRING [], 5))"
  using write_string_payload [of None "- 1" "[]"] by (simp add: string_length_def)

lemma write_string_counted:
  assumes "0 < sint n" "unat n \<le> length mem" "unat n + 5 < 2 ^ 32" "n \<noteq> - 1"
  shows "write_string h (Some mem) n Loc Loc =
           Inr (Some (wire_string BINARY_FORMATTER_TYPE_STRING (take (unat n) mem), n + 5))"
proof -
  have len: "length (take (unat n) mem) = unat n" using assms(2) by simp
  have "write_string h (Some mem) n Loc Loc =
      Inr (Some (wire_string BINARY_FORMATTER_TYPE_STRING (take (unat n) mem), of_nat (unat n + 5)))"
    using write_string_payload [of "Some mem" n "take (unat n) mem" h, unfolded len] assms
    by (simp add: string_length_def load_bytes_in)
  then show ?thesis by simp
qed

lemma write_string_null_loc:
  "b = Null_Loc \<or> l = Null_Loc \<Longrightarrow> write_string h value n b l = Inr None"
  by (auto simp: write_string_def)

text \<open>Reading back, whatever lies behind the string.\<close>

lemma read_wire_string:
  assumes "length p + 5 < 2 ^ 32"
  shows "read_string h (Some v0) l0 (Some (wire_string BINARY_FORMATTER_TYPE_STRING p @ rest))
           (of_nat (length p + 5)) =
         Inr (True, Some (map_option (\<lambda>_. p) (g_malloc0 (length p))), map_option (\<lambda>_. of_nat (length p)) l0)"
proof -
  let ?l = "of_nat (length p) :: guint" and ?buf = "wire_string BINARY_FORMATTER_TYPE_STRING p @ rest"
  have l: "unat ?l = length p" using assms by (simp add: unat_of_nat_guint)
  have be: "load_bytes ?buf 1 4 = Inr (be_bytes ?l)"
    using load_bytes_append [of "be_bytes ?l" 4 "p @ rest"] by (simp add: wire_string_def mem_simps)
  have "from_be h (mem_load h (be_bytes ?l)) = ?l"
    by (simp add: from_be_mem_load of_be_bytes_be_bytes)
  moreover have "load_bytes ?buf 5 (length p) = Inr p"
    by (simp add: load_bytes_def wire_string_def)
  ultimately show ?thesis
    using be by (simp add: read_string_def Let_def l wire_string_def mem_simps add.commute)
qed

lemma read_string_no_fault:
  assumes "5 \<le> unat n" "unat n \<le> length buf"
  shows "read_string h v0 l0 (Some buf) n \<noteq> Inl e"
proof -
  have "0 < length buf" and 4: "1 + 4 \<le> length buf" using assms by linarith+
  then have 0: "load_byte buf 0 = Inr (buf ! 0)" by (simp add: load_byte_in)
  have "load_bytes buf 5 (unat l) \<noteq> Inl e" if "l + 5 = n" for l :: guint and e
  proof -
    have "unat l + 5 < 2 ^ 32"
    proof (rule ccontr)
      assume "\<not> unat l + 5 < 2 ^ 32"
      then have "unat (l + 5) = unat l + 5 - 2 ^ 32"
        using unat_guint_less [of l] by (simp add: unat_word_ariths mod_nat_eqI)
      with that assms(1) unat_guint_less [of l] show False by simp
    qed
    with that have "unat l + 5 = unat n" using unat_5_plus [of l] by (simp add: add.commute [of l 5])
    with assms(2) show ?thesis by (simp add: load_bytes_def)
  qed
  then show ?thesis
    using 0 4 by (auto simp: read_string_def Let_def load_bytes_in split: c_bind_split)
qed

section \<open>Floating-point numbers as text\<close>

record libc =
  printf_double :: "64 word \<Rightarrow> bytes"  \<comment> \<open>\<^verbatim>\<open>"%0.8g"\<close>\<close>
  printf_float :: "32 word \<Rightarrow> bytes"   \<comment> \<open>\<^verbatim>\<open>"%g"\<close>\<close>
  strtod :: "bytes \<Rightarrow> 64 word \<times> bool" \<comment> \<open>the number and whether \<^verbatim>\<open>errno\<close> was set\<close>
  strtof :: "bytes \<Rightarrow> 32 word \<times> bool"

datatype formatter_error = BAD_TYPE | BAD_DATA

definition write_double :: "libc \<Rightarrow> endian \<Rightarrow> 64 word \<Rightarrow> out_loc \<Rightarrow> out_loc \<Rightarrow> write_out result" where
  "write_double L h value buffer buffer_length =
     (if buffer = Null_Loc then Inr None
      else if buffer_length = Null_Loc then Inr None
      else let dbuf = printf_double L value @ [0] in
           c_bind (write_string h (Some dbuf) (- 1) buffer buffer_length) (\<lambda>r.
           case r of None \<Rightarrow> Inr None
           | Some (buf, len) \<Rightarrow>
               c_bind (store_byte buf 0 BINARY_FORMATTER_TYPE_DOUBLE) (\<lambda>buf. Inr (Some (buf, len)))))"

definition write_float :: "libc \<Rightarrow> endian \<Rightarrow> 32 word \<Rightarrow> out_loc \<Rightarrow> out_loc \<Rightarrow> write_out result" where
  "write_float L h value buffer buffer_length =
     (if buffer = Null_Loc then Inr None
      else if buffer_length = Null_Loc then Inr None
      else let dbuf = printf_float L value @ [0] in
           c_bind (write_string h (Some dbuf) (- 1) buffer buffer_length) (\<lambda>r.
           case r of None \<Rightarrow> Inr None
           | Some (buf, len) \<Rightarrow>
               c_bind (store_byte buf 0 BINARY_FORMATTER_TYPE_FLOAT) (\<lambda>buf. Inr (Some (buf, len)))))"

text \<open>
  The readers overwrite the type code with the one of a string, read the text, and restore
  \<^emph>\<open>their own\<close> code on every path; so they return the buffer too, and whatever code was
  there is never checked. \<^verbatim>\<open>strtod\<close> of a \<^verbatim>\<open>NULL\<close> text is a dereference of \<^verbatim>\<open>NULL\<close>.
\<close>

type_synonym 'v number_out = "bool \<times> 'v option \<times> bytes option \<times> formatter_error option"

definition read_double ::
    "libc \<Rightarrow> endian \<Rightarrow> 64 word option \<Rightarrow> bytes option \<Rightarrow> guint \<Rightarrow> 64 word number_out result" where
  "read_double L h value buffer buffer_length =
     (case buffer of None \<Rightarrow> Inr (False, value, buffer, None)
      | Some buf \<Rightarrow>
          if value = None then Inr (False, value, buffer, None)
          else c_bind (store_byte buf 0 BINARY_FORMATTER_TYPE_STRING) (\<lambda>buf.
               c_bind (read_string h (Some None) (Some 0) (Some buf) buffer_length) (\<lambda>(ok, dbuf, _).
               if \<not> ok
               then c_bind (store_byte buf 0 BINARY_FORMATTER_TYPE_DOUBLE) (\<lambda>buf.
                    Inr (False, value, Some buf, None))
               else case dbuf of Some (Some mem) \<Rightarrow>
                      c_bind (c_string mem) (\<lambda>s. let (d, err) = strtod L s in
                      c_bind (store_byte buf 0 BINARY_FORMATTER_TYPE_DOUBLE) (\<lambda>buf.
                      if err then Inr (False, Some d, Some buf, Some BAD_DATA)
                      else Inr (True, Some d, Some buf, None)))
                    | _ \<Rightarrow> Inl Null_Pointer)))"

definition read_float ::
    "libc \<Rightarrow> endian \<Rightarrow> 32 word option \<Rightarrow> bytes option \<Rightarrow> guint \<Rightarrow> 32 word number_out result" where
  "read_float L h value buffer buffer_length =
     (case buffer of None \<Rightarrow> Inr (False, value, buffer, None)
      | Some buf \<Rightarrow>
          if value = None then Inr (False, value, buffer, None)
          else c_bind (store_byte buf 0 BINARY_FORMATTER_TYPE_STRING) (\<lambda>buf.
               c_bind (read_string h (Some None) (Some 0) (Some buf) buffer_length) (\<lambda>(ok, dbuf, _).
               if \<not> ok
               then c_bind (store_byte buf 0 BINARY_FORMATTER_TYPE_FLOAT) (\<lambda>buf.
                    Inr (False, value, Some buf, None))
               else case dbuf of Some (Some mem) \<Rightarrow>
                      c_bind (c_string mem) (\<lambda>s. let (d, err) = strtof L s in
                      c_bind (store_byte buf 0 BINARY_FORMATTER_TYPE_FLOAT) (\<lambda>buf.
                      if err then Inr (False, Some d, Some buf, None)
                      else Inr (True, Some d, Some buf, None)))
                    | _ \<Rightarrow> Inl Null_Pointer)))"

text \<open>
  What the two number formats share. \<open>err\<close> is what the reader reports when the C library
  sets \<^verbatim>\<open>errno\<close>: only \<^verbatim>\<open>read_double\<close> reports anything.
\<close>

locale text_codec =
  fixes writer :: "libc \<Rightarrow> endian \<Rightarrow> 'v \<Rightarrow> out_loc \<Rightarrow> out_loc \<Rightarrow> write_out result"
    and reader :: "libc \<Rightarrow> endian \<Rightarrow> 'v option \<Rightarrow> bytes option \<Rightarrow> guint \<Rightarrow> 'v number_out result"
    and print :: "libc \<Rightarrow> 'v \<Rightarrow> bytes"
    and parse :: "libc \<Rightarrow> bytes \<Rightarrow> 'v \<times> bool"
    and tag :: byte
    and err :: "formatter_error option"
  assumes writer_eq: "writer L h v Loc Loc =
      c_bind (write_string h (Some (print L v @ [0])) (- 1) Loc Loc) (\<lambda>r.
        case r of None \<Rightarrow> Inr None
        | Some (buf, len) \<Rightarrow> c_bind (store_byte buf 0 tag) (\<lambda>buf. Inr (Some (buf, len))))"
    and reader_eq: "reader L h (Some v0) (Some buf) n =
      c_bind (store_byte buf 0 BINARY_FORMATTER_TYPE_STRING) (\<lambda>buf.
      c_bind (read_string h (Some None) (Some 0) (Some buf) n) (\<lambda>(ok, dbuf, _).
      if \<not> ok then c_bind (store_byte buf 0 tag) (\<lambda>buf. Inr (False, Some v0, Some buf, None))
      else case dbuf of Some (Some mem) \<Rightarrow>
             c_bind (c_string mem) (\<lambda>s.
             c_bind (store_byte buf 0 tag) (\<lambda>buf.
             Inr (\<not> snd (parse L s), Some (fst (parse L s)), Some buf,
                  if snd (parse L s) then err else None)))
           | _ \<Rightarrow> Inl Null_Pointer))"
begin

lemma written:
  assumes "0 \<notin> set (print L v)" "length (print L v) + 6 < 2 ^ 32"
  shows "writer L h v Loc Loc =
           Inr (Some (wire_string tag (print L v @ [0]), of_nat (length (print L v) + 6)))"
  using write_string_terminated [OF assms, of h "[]"]
  by (simp add: writer_eq wire_string_def store_byte_def)

lemma read_back:
  assumes "0 \<notin> set s" "length s + 6 < 2 ^ 32"
  shows "reader L h (Some v0) (Some (wire_string tag' (s @ [0]) @ rest)) (of_nat (length s + 6)) =
    Inr (\<not> snd (parse L s), Some (fst (parse L s)), Some (wire_string tag (s @ [0]) @ rest),
         if snd (parse L s) then err else None)"
proof -
  have len: "length (s @ [0]) + 5 = length s + 6" by simp
  let ?wire = "\<lambda>t. wire_string t (s @ [0]) @ rest"
  have store: "store_byte (?wire t) 0 t' = Inr (?wire t')" for t t'
    by (simp add: wire_string_def store_byte_def)
  have "read_string h (Some None) (Some 0) (Some (?wire BINARY_FORMATTER_TYPE_STRING))
      (of_nat (length s + 6)) = Inr (True, Some (Some (s @ [0])), Some (of_nat (length (s @ [0]))))"
    using read_wire_string [of "s @ [0]" h None "Some 0" rest, unfolded len] assms(2)
    by (simp add: g_malloc0_def)
  moreover have "c_string (s @ [0]) = Inr s"
    using assms(1) by (rule c_string_terminated)
  ultimately show ?thesis by (simp only: reader_eq store c_bind.simps prod.case simp_thms if_False option.case)
qed

lemma reader_restores_buffer:
  assumes "reader L h (Some v0) (Some (tag # bs)) n = Inr (ok, v, buf, e)"
  shows "buf = Some (tag # bs)"
  using assms
  by (auto simp: reader_eq store_byte_def c_bind_eq_Inr split: if_splits option.splits prod.splits)

end

lemma number_out_if:
  "(if e then Inr (False, v, b, x) else Inr (True, v, b, None)) = Inr (\<not> e, v, b, if e then x else None)"
  by simp

interpretation double: text_codec write_double read_double printf_double strtod
  BINARY_FORMATTER_TYPE_DOUBLE "Some BAD_DATA"
  by unfold_locales
    (simp_all add: write_double_def read_double_def Let_def case_prod_beta number_out_if
      cong: if_cong option.case_cong)

interpretation float: text_codec write_float read_float printf_float strtof
  BINARY_FORMATTER_TYPE_FLOAT None
  by unfold_locales
    (simp_all add: write_float_def read_float_def Let_def case_prod_beta number_out_if
      cong: if_cong option.case_cong)

end
