(* ===== verification/Wire_Properties.thy ===== *)
theory Wire_Properties
  imports Formatter_Strings
begin

text \<open>
  What the readers and writers of single numbers and strings promise to each other, through
  the interpretations of \<open>wire_codec\<close> and \<open>text_codec\<close>: round trips between hosts of either
  byte order, the one type that loses information, and how far a reader looks.
\<close>

text \<open>What a writer emitted, handed to a reader, with \<open>rest\<close> behind it.\<close>

definition write_then_read :: "write_out result \<Rightarrow> bytes \<Rightarrow> (bytes option \<Rightarrow> guint \<Rightarrow> 'a result) \<Rightarrow> 'a result" where
  "write_then_read w rest r = c_bind w (\<lambda>out. case out of None \<Rightarrow> Inl Null_Pointer
     | Some (buf, len) \<Rightarrow> r (Some (buf @ rest)) len)"

lemma write_then_read_written:
  "w = Inr (Some (buf, len)) \<Longrightarrow> write_then_read w rest r = r (Some (buf @ rest)) len"
  by (simp add: write_then_read_def)

context wire_codec
begin

lemma sent_and_received:
  "write_then_read (writer h v Loc Loc) rest (reader h' v0) = Inr (True, decode (encode v))"
  using read_written [of h' v0 v rest] by (simp add: write_then_read_def writer_eq)

lemma received_iff_canonical_image:
  "write_then_read (writer h v Loc Loc) rest (reader h' v0) = Inr (True, v) \<longleftrightarrow> decode (encode v) = v"
  by (simp add: sent_and_received)

end

text \<open>The shape the properties are stated in: what a reader would return for the value itself.\<close>

lemma be_bytes_back: "8 dvd LENGTH('a) \<Longrightarrow> of_be_bytes (be_bytes w) = (w :: 'a::len word)"
  by (rule of_be_bytes_be_bytes)

text \<open>
  C35: every multi-byte integer written on a host of one byte order is read back unchanged
  on a host of either byte order, whatever lies behind it in the buffer.
\<close>

theorem integers_travel_between_hosts:
  "write_then_read (write_short h s Loc Loc) rest (read_short h' s0) = Inr (True, s) \<and>
   write_then_read (write_ushort h s Loc Loc) rest (read_ushort h' s0) = Inr (True, s) \<and>
   write_then_read (write_int h i Loc Loc) rest (read_int h' i0) = Inr (True, i) \<and>
   write_then_read (write_uint h i Loc Loc) rest (read_uint h' i0) = Inr (True, i) \<and>
   write_then_read (write_long h l Loc Loc) rest (read_long h' l0) = Inr (True, l) \<and>
   write_then_read (write_ulong h l Loc Loc) rest (read_ulong h' l0) = Inr (True, l) \<and>
   write_then_read (write_int64 h l Loc Loc) rest (read_int64 h' l0) = Inr (True, l) \<and>
   write_then_read (write_uint64 h l Loc Loc) rest (read_uint64 h' l0) = Inr (True, l)"
  by (simp add: short.sent_and_received ushort.sent_and_received int.sent_and_received
      uint.sent_and_received long.sent_and_received ulong.sent_and_received
      int64.sent_and_received uint64.sent_and_received be_bytes_back)

lemma scast_byte_range: "- 128 \<le> sint (scast (b :: byte) :: 32 word) \<and> sint (scast b :: 32 word) < 128"
proof -
  have "sint (scast b :: 32 word) = sint b"
    using sint_greater_eq [of b] sint_less [of b] by (simp add: signed_scast_eq signed_take_bit_int_eq_self)
  moreover have "- 128 \<le> sint b" "sint b < 128"
    using sint_greater_eq [of b] sint_less [of b] by simp_all
  ultimately show ?thesis by simp
qed

lemma boolean_kept_iff: "scast (ucast v :: byte) = v \<longleftrightarrow> boolean_canonical v"
  by (metis boolean_canonical_def scast_byte_range scast_ucast_byte)

text \<open>
  a \<^verbatim>\<open>gboolean\<close> is stored as its low byte: it comes back as the sign extension of that
  byte, unchanged exactly when it lies between -128 and 127. The truth value itself may be
  lost: 256 comes back as \<^verbatim>\<open>FALSE\<close>.
\<close>

theorem boolean_keeps_its_low_byte:
  "write_then_read (write_boolean v Loc Loc) rest (read_boolean v0) = Inr (True, scast (ucast v :: byte)) \<and>
   (write_then_read (write_boolean v Loc Loc) rest (read_boolean v0) = Inr (True, v) \<longleftrightarrow>
      - 128 \<le> sint v \<and> sint v < 128) \<and>
   write_then_read (write_boolean 256 Loc Loc) rest (read_boolean v0) = Inr (True, 0)"
  using boolean.sent_and_received [of v rest v0] boolean.sent_and_received [of 256 rest v0]
  by (simp add: boolean_kept_iff boolean_canonical_def)

text \<open>
  no reader of a number of fixed size looks beyond the buffer length it is given, on any
  bytes whatever, as long as that length is not more than the buffer holds.
\<close>

theorem fixed_size_readers_stay_in_bounds:
  assumes "unat n \<le> length buf"
  shows "read_boolean b0 (Some buf) n \<noteq> Inl e \<and> read_char c0 (Some buf) n \<noteq> Inl e \<and>
    read_uchar c0 (Some buf) n \<noteq> Inl e \<and> read_short h s0 (Some buf) n \<noteq> Inl e \<and>
    read_ushort h s0 (Some buf) n \<noteq> Inl e \<and> read_int h i0 (Some buf) n \<noteq> Inl e \<and>
    read_uint h i0 (Some buf) n \<noteq> Inl e \<and> read_long h l0 (Some buf) n \<noteq> Inl e \<and>
    read_ulong h l0 (Some buf) n \<noteq> Inl e \<and> read_int64 h l0 (Some buf) n \<noteq> Inl e \<and>
    read_uint64 h l0 (Some buf) n \<noteq> Inl e"
  using assms
  by (intro conjI boolean.no_over_read char.no_over_read uchar.no_over_read short.no_over_read
      ushort.no_over_read int.no_over_read uint.no_over_read long.no_over_read
      ulong.no_over_read int64.no_over_read uint64.no_over_read)

theorem fixed_size_readers_stay_in_bounds_witness:
  "read_int64 Little 0 (Some [2, 1, 2, 3, 4, 5, 6, 7, 8]) 9 \<noteq> Inl Out_Of_Bounds"
  using fixed_size_readers_stay_in_bounds [of 9 "[2, 1, 2, 3, 4, 5, 6, 7, 8]" 0 Out_Of_Bounds] by simp

text \<open>
  a buffer the reader of a 32-bit or 64-bit integer accepts in full is the very buffer
  the writer makes of the value read, on any host: integers have one stored form.
\<close>

theorem integers_have_one_stored_form:
  assumes "length buf = unat n"
  shows "(read_int h i0 (Some buf) n = Inr (True, i) \<longrightarrow> write_int h' i Loc Loc = Inr (Some (buf, n))) \<and>
    (read_uint h i0 (Some buf) n = Inr (True, i) \<longrightarrow> write_uint h' i Loc Loc = Inr (Some (buf, n))) \<and>
    (read_int64 h l0 (Some buf) n = Inr (True, l) \<longrightarrow> write_int64 h' l Loc Loc = Inr (Some (buf, n))) \<and>
    (read_uint64 h l0 (Some buf) n = Inr (True, l) \<longrightarrow> write_uint64 h' l Loc Loc = Inr (Some (buf, n)))"
  using assms
  by (blast intro: int.accepted_canonical_bytes uint.accepted_canonical_bytes
      int64.accepted_canonical_bytes uint64.accepted_canonical_bytes)

theorem integers_have_one_stored_form_witness:
  "write_int Big 258 Loc Loc = Inr (Some ([4, 0, 0, 1, 2], 5))"
proof -
  have "read_int Little 0 (Some [4, 0, 0, 1, 2]) 5 = Inr (True, 258)" by code_simp
  then show ?thesis
    using integers_have_one_stored_form [of "[4, 0, 0, 1, 2]" 5 Little 0 258 Big] by simp
qed

section \<open>Strings and numbers stored as text\<close>

text \<open>
  a NUL-terminated string comes back with its terminator and its counted length, on a
  host of either byte order.
\<close>

theorem strings_travel_between_hosts:
  assumes "0 \<notin> set s" "length s + 6 < 2 ^ 32"
  shows "write_then_read (write_string h (Some (s @ [0])) (- 1) Loc Loc) rest (read_string h' (Some v0) (Some l0)) =
    Inr (True, Some (Some (s @ [0])), Some (of_nat (length s + 1)))"
proof -
  have len: "length (s @ [0]) + 5 = length s + 6" by simp
  show ?thesis
    using read_wire_string [of "s @ [0]" h' v0 "Some l0" rest, unfolded len] assms
    by (simp add: write_then_read_written [OF write_string_terminated [OF assms]] g_malloc0_def)
qed

theorem strings_travel_between_hosts_witness:
  "write_then_read (write_string Little (Some [72, 105, 0]) (- 1) Loc Loc) [] (read_string Big (Some None) (Some 0)) =
   Inr (True, Some (Some [72, 105, 0]), Some 3)"
  using strings_travel_between_hosts [of "[72, 105]" Little "[]" Big None 0] by simp

text \<open>
  A string written with a positive length is copied byte for byte, NULs included, and
  comes back as those bytes.
\<close>

theorem counted_strings_travel_between_hosts:
  assumes "0 < sint n" "unat n \<le> length mem" "unat n + 5 < 2 ^ 32"
  shows "write_then_read (write_string h (Some mem) n Loc Loc) rest (read_string h' (Some v0) (Some l0)) =
    Inr (True, Some (Some (take (unat n) mem)), Some n)"
proof -
  have "n \<noteq> - 1" and n0: "n \<noteq> 0" using assms(1) by auto
  then have w: "write_string h (Some mem) n Loc Loc =
      Inr (Some (wire_string BINARY_FORMATTER_TYPE_STRING (take (unat n) mem), n + 5))"
    using write_string_counted assms by blast
  have len: "length (take (unat n) mem) = unat n" using assms(2) by simp
  have "unat n \<noteq> 0" using n0 by (simp add: unat_eq_zero)
  then show ?thesis
    using read_wire_string [of "take (unat n) mem" h' v0 "Some l0" rest, unfolded len] assms(3)
    by (simp add: write_then_read_written [OF w] g_malloc0_def)
qed

theorem counted_strings_travel_between_hosts_witness:
  "write_then_read (write_string Little (Some [1, 0, 2, 0, 9]) 4 Loc Loc) [] (read_string Big (Some None) (Some 0)) =
   Inr (True, Some (Some [1, 0, 2, 0]), Some 4)"
  using counted_strings_travel_between_hosts [of 4 "[1, 0, 2, 0, 9]" Little "[]" Big None 0] by simp

text \<open>
  C36: \<^verbatim>\<open>read_string\<close> stays within a buffer of at least five bytes whatever it holds, but
  not within a shorter one: unlike the readers of numbers it has no check of the length
  before it reads the four bytes of the count.
\<close>

theorem read_string_bounds:
  "(5 \<le> unat n \<and> unat n \<le> length buf \<longrightarrow> read_string h v0 l0 (Some buf) n \<noteq> Inl e) \<and>
   (length buf < 5 \<longrightarrow> read_string h (Some p0) l0 (Some (BINARY_FORMATTER_TYPE_STRING # tl buf)) n = Inl Out_Of_Bounds)"
  using read_string_no_fault [of n buf h v0 l0 e]
  by (auto simp: read_string_def load_byte_def load_bytes_def)

theorem read_string_bounds_witness:
  "read_string Little (Some None) None (Some [14, 0, 0, 0]) 4 = Inl Out_Of_Bounds"
  using read_string_bounds [of 4 "[14, 0, 0, 0]" Little] by simp

text \<open>
  a number stored as text is read back as what the C library makes of the text it
  printed, on a host of either byte order; the reader takes any type code for its own and
  leaves its own in the buffer.
\<close>

theorem doubles_are_what_strtod_makes_of_them:
  assumes "0 \<notin> set (printf_double L d)" "length (printf_double L d) + 6 < 2 ^ 32"
    "strtod L (printf_double L d) = (d', False)"
  shows "write_double L h d Loc Loc =
      Inr (Some (wire_string BINARY_FORMATTER_TYPE_DOUBLE (printf_double L d @ [0]),
        of_nat (length (printf_double L d) + 6))) \<and>
    read_double L h' (Some d0) (Some (wire_string code (printf_double L d @ [0]) @ rest))
      (of_nat (length (printf_double L d) + 6)) =
    Inr (True, Some d', Some (wire_string BINARY_FORMATTER_TYPE_DOUBLE (printf_double L d @ [0]) @ rest), None)"
  using double.written [OF assms(1,2)] double.read_back [OF assms(1,2)] assms(3) by simp

theorem doubles_are_what_strtod_makes_of_them_witness:
  "read_double \<lparr>printf_double = \<lambda>d. [50], printf_float = \<lambda>f. [50], strtod = \<lambda>s. (0x4000000000000000, False),
       strtof = \<lambda>s. (0x40000000, False)\<rparr> Big (Some 0) (Some [99, 0, 0, 0, 2, 50, 0]) 7 =
   Inr (True, Some 0x4000000000000000, Some [7, 0, 0, 0, 2, 50, 0], None)"
proof -
  let ?L = "\<lparr>printf_double = \<lambda>d. [50], printf_float = \<lambda>f. [50], strtod = \<lambda>s. (0x4000000000000000, False),
       strtof = \<lambda>s. (0x40000000, False)\<rparr> :: libc"
  have w: "wire_string c [50, 0] = [c, 0, 0, 0, 2, 50, 0]" for c
  proof -
    have "be_bytes (2 :: guint) = [0, 0, 0, 2]" by code_simp
    then show ?thesis by (simp add: wire_string_def)
  qed
  show ?thesis
    using doubles_are_what_strtod_makes_of_them [of ?L "0x4000000000000000" "0x4000000000000000" Little Big 0 99 "[]"]
    by (simp add: w)
qed

text \<open>
  the text of a number that has no bytes at all is a \<^verbatim>\<open>NULL\<close> pointer, which \<^verbatim>\<open>read_double\<close>
  and \<^verbatim>\<open>read_float\<close> hand to the C library.
\<close>

theorem empty_number_text_is_null:
  "read_double L h (Some d0) (Some [code, 0, 0, 0, 0]) 5 = Inl Null_Pointer \<and>
   read_float L h (Some f0) (Some [code, 0, 0, 0, 0]) 5 = Inl Null_Pointer"
proof -
  have w: "wire_string 14 [] = [14, 0, 0, 0, 0]"
  proof -
    have "be_bytes (0 :: guint) = [0, 0, 0, 0]" by code_simp
    then show ?thesis by (simp add: wire_string_def)
  qed
  have "read_string h (Some None) (Some 0) (Some [14, 0, 0, 0, 0]) 5 = Inr (True, Some None, Some 0)"
    using read_wire_string [of "[]" h None "Some 0" "[]"] by (simp add: w g_malloc0_def)
  then show ?thesis by (simp add: read_double_def read_float_def store_byte_def)
qed

end
