(* ===== verification/Formatter_Types.thy ===== *)
theory Formatter_Types
  imports Formatter_Strings
begin

text \<open>
  The GLib types the formatter handles: \<^verbatim>\<open>GType\<close>s, \<^verbatim>\<open>GValue\<close>s, and the part of the GObject
  system it calls. The object system is a parameter, the record \<open>platform\<close>: the type
  registry, the properties of a class, and how an object's properties are read and set. An
  object is an element of the type variable \<open>'o\<close>; \<open>get_property\<close> may well return the object
  itself again, so object graphs may be cyclic, and setting a property of a freshly created
  object, which nothing else refers to yet, returns the changed object.
\<close>

section \<open>Types and values\<close>

datatype gtype =
    G_TYPE_INVALID \<comment> \<open>the \<^verbatim>\<open>GType\<close> 0\<close>
  | G_TYPE_NONE | G_TYPE_STRING | G_TYPE_INT | G_TYPE_UINT | G_TYPE_INT64 | G_TYPE_UINT64
  | G_TYPE_LONG | G_TYPE_ULONG | G_TYPE_DOUBLE | G_TYPE_FLOAT | G_TYPE_CHAR | G_TYPE_UCHAR
  | G_TYPE_BOOLEAN | G_TYPE_OBJECT
  | G_TYPE_USER nat \<comment> \<open>any other type, registered at run time\<close>

text \<open>
  A \<^verbatim>\<open>GValue\<close>: \<open>VUnset\<close> is the all-zero one. A string is its text without the NUL, or
  \<^verbatim>\<open>NULL\<close>. \<open>VObject t p\<close> is a value of a type \<open>t\<close> that is none of the others, with the
  object it points to when \<open>t\<close> is an object type. Numbers are bit patterns, the
  floating-point ones too.
\<close>

datatype 'o gvalue =
    VUnset
  | VString "bytes option"
  | VInt gint | VUInt guint | VBoolean bool | VLong glong | VULong glong
  | VInt64 gint64 | VUInt64 gint64 | VDouble "64 word" | VFloat "32 word"
  | VChar gchar | VUChar gchar
  | VObject gtype "'o option"

fun G_VALUE_TYPE :: "'o gvalue \<Rightarrow> gtype" where
  "G_VALUE_TYPE VUnset = G_TYPE_INVALID"
| "G_VALUE_TYPE (VString s) = G_TYPE_STRING"
| "G_VALUE_TYPE (VInt i) = G_TYPE_INT"
| "G_VALUE_TYPE (VUInt i) = G_TYPE_UINT"
| "G_VALUE_TYPE (VBoolean b) = G_TYPE_BOOLEAN"
| "G_VALUE_TYPE (VLong i) = G_TYPE_LONG"
| "G_VALUE_TYPE (VULong i) = G_TYPE_ULONG"
| "G_VALUE_TYPE (VInt64 i) = G_TYPE_INT64"
| "G_VALUE_TYPE (VUInt64 i) = G_TYPE_UINT64"
| "G_VALUE_TYPE (VDouble d) = G_TYPE_DOUBLE"
| "G_VALUE_TYPE (VFloat d) = G_TYPE_FLOAT"
| "G_VALUE_TYPE (VChar c) = G_TYPE_CHAR"
| "G_VALUE_TYPE (VUChar c) = G_TYPE_UCHAR"
| "G_VALUE_TYPE (VObject t p) = t"

text \<open>\<^verbatim>\<open>g_value_set_boolean\<close> keeps the truth value, \<^verbatim>\<open>g_value_get_boolean\<close> is 1 or 0.\<close>

definition g_value_get_boolean :: "bool \<Rightarrow> gboolean" where
  "g_value_get_boolean b = (if b then 1 else 0)"

section \<open>The object system\<close>

record 'o platform =
  libc_of :: libc
  g_type_is_a :: "gtype \<Rightarrow> gtype \<Rightarrow> bool"
  g_type_name :: "gtype \<Rightarrow> bytes"
  g_type_from_name :: "bytes \<Rightarrow> gtype"
  type_from_instance :: "'o \<Rightarrow> gtype"
  list_properties :: "gtype \<Rightarrow> (bytes \<times> gtype) list"
  get_property :: "'o \<Rightarrow> bytes \<Rightarrow> 'o gvalue"
  object_new :: "gtype \<Rightarrow> 'o"
  set_property :: "'o \<Rightarrow> bytes \<Rightarrow> 'o gvalue \<Rightarrow> 'o"

text \<open>
  \<^verbatim>\<open>g_value_init\<close> followed by \<^verbatim>\<open>g_value_set_X\<close>: a value that is already initialised keeps its
  type, and a setter of another type leaves it alone (both with a warning).
\<close>

definition g_value_put :: "'o gvalue \<Rightarrow> 'o gvalue \<Rightarrow> 'o gvalue" where
  "g_value_put v0 v =
     (if G_VALUE_TYPE v0 = G_TYPE_INVALID \<or> G_VALUE_TYPE v0 = G_VALUE_TYPE v then v else v0)"

text \<open>
  \<^verbatim>\<open>g_value_take_object\<close>, with the \<^verbatim>\<open>g_value_init\<close> for a value without a type in front of it.
\<close>

definition g_value_put_object :: "('o, 'z) platform_scheme \<Rightarrow> 'o gvalue \<Rightarrow> 'o \<Rightarrow> 'o gvalue" where
  "g_value_put_object P v0 ob =
     (if G_VALUE_TYPE v0 = G_TYPE_INVALID then VObject (type_from_instance P ob) (Some ob)
      else if g_type_is_a P (G_VALUE_TYPE v0) G_TYPE_OBJECT
              \<and> g_type_is_a P (type_from_instance P ob) (G_VALUE_TYPE v0)
      then VObject (G_VALUE_TYPE v0) (Some ob) else v0)"

section \<open>Which property types are serialised\<close>

definition can_serialize_type :: "('o, 'z) platform_scheme \<Rightarrow> gtype \<Rightarrow> bool" where
  "can_serialize_type P type =
     (if type = G_TYPE_NONE then False
      else if g_type_is_a P type G_TYPE_OBJECT then True
      else if type = G_TYPE_STRING then True
      else if type = G_TYPE_INT \<or> type = G_TYPE_UINT then True
      else if type = G_TYPE_INT64 \<or> type = G_TYPE_UINT64 then True
      else if type = G_TYPE_LONG \<or> type = G_TYPE_ULONG then True
      else if type = G_TYPE_DOUBLE \<or> type = G_TYPE_FLOAT then True
      else if type = G_TYPE_CHAR \<or> type = G_TYPE_UCHAR then True
      else if type = G_TYPE_BOOLEAN then True
      else False)"

text \<open>
  Which values the writer has bytes for: the scalars and strings, and a non-\<^verbatim>\<open>NULL\<close> object of
  an object type.
\<close>

fun storable :: "('o, 'z) platform_scheme \<Rightarrow> 'o gvalue \<Rightarrow> bool" where
  "storable P VUnset = False"
| "storable P (VObject t None) = False"
| "storable P (VObject t (Some ob)) = (t \<noteq> G_TYPE_NONE \<and> g_type_is_a P t G_TYPE_OBJECT)"
| "storable P v = True"

end
