(* ===== verification/Formatter_Write.thy ===== *)
theory Formatter_Write
  imports Formatter_Types
begin

text \<open>
  Writing \<^verbatim>\<open>GValue\<close>s and \<^verbatim>\<open>GObject\<close>s: \<^verbatim>\<open>write_value\<close>, \<^verbatim>\<open>write_object\<close> with its two loops, and
  the \<^verbatim>\<open>serialize\<close> method of the formatter, from \<^verbatim>\<open>catalina/catalina-binary-formatter.c\<close>.

  Two points of \<^verbatim>\<open>write_object\<close> need an argument. Its recursion into object-valued properties
  follows the object graph, which may be cyclic: \<open>depth\<close> is the nesting the C stack allows,
  and running out of it is \<open>Inl Stack_Exhausted\<close>. And its local \<^verbatim>\<open>guint total\<close> is added to
  before it is ever assigned, so it starts with whatever is on the stack: \<open>junk path\<close> is that
  value in the call for the object reached by the property names \<open>path\<close>.
\<close>

section \<open>The writers\<close>

text \<open>The key of a chunk is the memory at \<^verbatim>\<open>params[i]->name\<close>, its NUL included.\<close>

record chunk =
  key :: bytes
  key_length :: guint
  chunk_value :: bytes
  value_length :: guint

text \<open>The second loop of \<^verbatim>\<open>write_object\<close>: copying the chunks into the buffer from \<^verbatim>\<open>offset\<close> on.\<close>

fun emit_chunks :: "endian \<Rightarrow> bytes \<Rightarrow> guint \<Rightarrow> chunk list \<Rightarrow> bytes result" where
  "emit_chunks h buf offset [] = Inr buf"
| "emit_chunks h buf offset (c # cs) =
     (let be_length = to_be h (value_length c) in
      c_bind (store_byte buf (unat offset) (ucast (key_length c))) (\<lambda>buf.
      let offset = offset + 1 in
      c_bind (c_bind (load_bytes (key c) 0 (unat (key_length c))) (store_bytes buf (unat offset))) (\<lambda>buf.
      let offset = offset + key_length c in
      c_bind (store_bytes buf (unat offset) (mem_repr h be_length)) (\<lambda>buf.
      let offset = offset + 4 in
      c_bind (c_bind (load_bytes (chunk_value c) 0 (unat (value_length c)))
               (store_bytes buf (unat offset))) (\<lambda>buf.
      emit_chunks h buf (offset + value_length c) cs)))))"

text \<open>
  \<open>write_props\<close> is the first loop of \<^verbatim>\<open>write_object\<close>, over the properties of the class, with
  the list \<^verbatim>\<open>chunks\<close> (prepended to) and \<^verbatim>\<open>total\<close> as its state. A property whose value has no
  serialisation is skipped.
\<close>

function (sequential)
    write_value :: "('o, 'z) platform_scheme \<Rightarrow> endian \<Rightarrow> (bytes list \<Rightarrow> guint) \<Rightarrow> nat \<Rightarrow> bytes list
      \<Rightarrow> 'o gvalue \<Rightarrow> out_loc \<Rightarrow> out_loc \<Rightarrow> write_out result"
and write_object :: "('o, 'z) platform_scheme \<Rightarrow> endian \<Rightarrow> (bytes list \<Rightarrow> guint) \<Rightarrow> nat \<Rightarrow> bytes list
      \<Rightarrow> 'o option \<Rightarrow> out_loc \<Rightarrow> out_loc \<Rightarrow> write_out result"
and write_props :: "('o, 'z) platform_scheme \<Rightarrow> endian \<Rightarrow> (bytes list \<Rightarrow> guint) \<Rightarrow> nat \<Rightarrow> bytes list
      \<Rightarrow> 'o \<Rightarrow> (bytes \<times> gtype) list \<Rightarrow> chunk list \<Rightarrow> guint \<Rightarrow> (chunk list \<times> guint) result"
where
  "write_value P h junk depth path v buffer buffer_length =
     (if buffer = Null_Loc then Inr None
      else if buffer_length = Null_Loc then Inr None
      else case v of
        VString s \<Rightarrow> write_string h (map_option (\<lambda>s. s @ [0]) s) (- 1) buffer buffer_length
      | VInt i \<Rightarrow> write_int h i buffer buffer_length
      | VUInt i \<Rightarrow> write_uint h i buffer buffer_length
      | VBoolean b \<Rightarrow> write_boolean (g_value_get_boolean b) buffer buffer_length
      | VLong i \<Rightarrow> write_long h i buffer buffer_length
      | VULong i \<Rightarrow> write_ulong h i buffer buffer_length
      | VInt64 i \<Rightarrow> write_int64 h i buffer buffer_length
      | VUInt64 i \<Rightarrow> write_uint64 h i buffer buffer_length
      | VDouble d \<Rightarrow> write_double (libc_of P) h d buffer buffer_length
      | VFloat d \<Rightarrow> write_float (libc_of P) h d buffer buffer_length
      | VChar c \<Rightarrow> write_char c buffer buffer_length
      | VUChar c \<Rightarrow> write_uchar c buffer buffer_length
      | VObject type ob \<Rightarrow>
          if type = G_TYPE_NONE then Inr None
          else if g_type_is_a P type G_TYPE_OBJECT
          then write_object P h junk depth path ob buffer buffer_length
          else Inr None
      | VUnset \<Rightarrow> Inr None)"
| "write_object P h junk depth path None buffer buffer_length = Inr None"
| "write_object P h junk depth path (Some ob) buffer buffer_length =
     (if buffer = Null_Loc then Inr None
      else if buffer_length = Null_Loc then Inr None
      else case depth of 0 \<Rightarrow> Inl Stack_Exhausted
      | Suc depth \<Rightarrow>
          let obj_type = type_from_instance P ob;
              type_name = g_type_name P obj_type;
              type_name_len = of_nat (length type_name + 1) :: byte;
              header_length = 1 + 1 + ucast type_name_len :: guint in
          c_bind (store_byte (zeroed (unat header_length)) 0 BINARY_FORMATTER_TYPE_OBJECT) (\<lambda>header.
          c_bind (store_byte header 1 type_name_len) (\<lambda>header.
          c_bind (c_bind (load_bytes (type_name @ [0]) 0 (unat type_name_len)) (store_bytes header 2)) (\<lambda>header.
          c_bind (write_props P h junk depth path ob (list_properties P obj_type) []
                    (junk path + header_length)) (\<lambda>(chunks, total).
          let total = total + 1 in
          c_bind (store_bytes (zeroed (unat total)) 0 header) (\<lambda>buf.
          c_bind (emit_chunks h buf header_length chunks) (\<lambda>buf.
          Inr (Some (buf, total)))))))))"
| "write_props P h junk depth path ob [] chunks tot = Inr (chunks, tot)"
| "write_props P h junk depth path ob ((name, value_type) # params) chunks tot =
     (if can_serialize_type P value_type
      then let klen = of_nat (length name + 1) :: guint in
           c_bind (write_value P h junk depth (path @ [name]) (get_property P ob name) Loc Loc) (\<lambda>r.
           case r of
             None \<Rightarrow> write_props P h junk depth path ob params chunks tot
           | Some (buf, vlen) \<Rightarrow>
               write_props P h junk depth path ob params
                 (\<lparr>key = name @ [0], key_length = klen, chunk_value = buf, value_length = vlen\<rparr> # chunks)
                 (tot + (1 + klen + 4 + vlen)))
      else write_props P h junk depth path ob params chunks tot)"
  by pat_completeness auto
termination
  by (relation "inv_image (less_than <*lex*> less_than <*lex*> less_than)
        (case_sum (\<lambda>(P, h, junk, depth, path, v, b, l). (depth, 1 :: nat, 0 :: nat))
          (case_sum (\<lambda>(P, h, junk, depth, path, ob, b, l). (depth, 0, 0))
                    (\<lambda>(P, h, junk, depth, path, ob, params, chunks, tot). (depth, 2, length params))))")
    auto

declare write_value.simps [simp del] write_object.simps [simp del]

section \<open>The formatter's serialize method\<close>

text \<open>
  The return value of \<^verbatim>\<open>write_value\<close> is not looked at: for a value without a serialisation
  \<^verbatim>\<open>tmp_buf\<close> and \<^verbatim>\<open>tmp_len\<close> are still \<^verbatim>\<open>NULL\<close> and 0, and the two header bytes are all
  there is.
\<close>

definition real_serialize :: "('o, 'z) platform_scheme \<Rightarrow> endian \<Rightarrow> (bytes list \<Rightarrow> guint) \<Rightarrow> nat
    \<Rightarrow> 'o gvalue \<Rightarrow> (bool \<times> bytes \<times> 64 word) result" where
  "real_serialize P h junk depth v =
     c_bind (write_value P h junk depth [] v Loc Loc) (\<lambda>r.
     let tmp_buf = (case r of None \<Rightarrow> [] | Some (b, l) \<Rightarrow> b);
         tmp_len = (case r of None \<Rightarrow> 0 | Some (b, l) \<Rightarrow> l) in
     c_bind (store_byte (zeroed (unat (2 + tmp_len))) 0 1) (\<lambda>buffer.
     c_bind (store_byte buffer 1 0) (\<lambda>buffer.
     c_bind (c_bind (load_bytes tmp_buf 0 (unat tmp_len)) (store_bytes buffer 2)) (\<lambda>buffer.
     Inr (True, buffer, ucast (tmp_len + 2))))))"

end
