(* ===== verification/Formatter_Read.thy ===== *)
theory Formatter_Read
  imports Formatter_Write
begin

text \<open>
  Reading \<^verbatim>\<open>GValue\<close>s and \<^verbatim>\<open>GObject\<close>s back: \<^verbatim>\<open>read_value\<close>, \<^verbatim>\<open>read_object\<close> with its loop over
  the stored properties, and the \<^verbatim>\<open>deserialize\<close> method of the formatter, from
  \<^verbatim>\<open>catalina/catalina-binary-formatter.c\<close>.

  A cursor into the buffer is the list of bytes from there to the end of the block. Every
  iteration of the property loop advances the cursor, so the functions terminate on every
  input, hostile ones included; what they do beyond the block is \<open>Inl Out_Of_Bounds\<close>.
\<close>

section \<open>The readers\<close>

text \<open>
  \<open>read_value\<close> returns its \<^verbatim>\<open>gboolean\<close>, the value location afterwards and the error that was
  set; \<open>read_object\<close> its \<^verbatim>\<open>gboolean\<close> and the object location; \<open>read_props\<close> the object with
  the properties set. A property whose value cannot be read ends in \<^verbatim>\<open>g_error\<close>, which aborts
  the process.
\<close>

type_synonym 'o value_out = "bool \<times> 'o gvalue option \<times> formatter_error option"

function (sequential)
    read_value :: "('o, 'z) platform_scheme \<Rightarrow> endian \<Rightarrow> 'o gvalue option \<Rightarrow> bytes option \<Rightarrow> guint
      \<Rightarrow> 'o value_out result"
and read_object :: "('o, 'z) platform_scheme \<Rightarrow> endian \<Rightarrow> 'o option option \<Rightarrow> bytes option \<Rightarrow> guint
      \<Rightarrow> (bool \<times> 'o option option) result"
and read_props :: "('o, 'z) platform_scheme \<Rightarrow> endian \<Rightarrow> 'o \<Rightarrow> bytes \<Rightarrow> 'o result"
where
  "read_value P h None buffer buffer_length = Inr (False, None, None)"
| "read_value P h (Some v0) None buffer_length = Inr (False, Some v0, None)"
| "read_value P h (Some v0) (Some buf) buffer_length =
     c_bind (load_byte buf 0) (\<lambda>type_id.
     if type_id = BINARY_FORMATTER_TYPE_BOOLEAN
     then c_bind (read_boolean 0 (Some buf) buffer_length) (\<lambda>(ok, v).
          Inr (ok, Some (g_value_put v0 (VBoolean (v \<noteq> 0))), None))
     else if type_id = BINARY_FORMATTER_TYPE_INT64
     then c_bind (read_int64 h 0 (Some buf) buffer_length) (\<lambda>(ok, v).
          Inr (ok, Some (g_value_put v0 (VInt64 v)), None))
     else if type_id = BINARY_FORMATTER_TYPE_UINT64
     then c_bind (read_uint64 h 0 (Some buf) buffer_length) (\<lambda>(ok, v).
          Inr (ok, Some (g_value_put v0 (VUInt64 v)), None))
     else if type_id = BINARY_FORMATTER_TYPE_LONG
     then c_bind (read_long h 0 (Some buf) buffer_length) (\<lambda>(ok, v).
          Inr (ok, Some (g_value_put v0 (VLong v)), None))
     else if type_id = BINARY_FORMATTER_TYPE_ULONG
     then c_bind (read_ulong h 0 (Some buf) buffer_length) (\<lambda>(ok, v).
          Inr (ok, Some (g_value_put v0 (VULong v)), None))
     else if type_id = BINARY_FORMATTER_TYPE_INT
     then c_bind (read_int h 0 (Some buf) buffer_length) (\<lambda>(ok, v).
          Inr (ok, Some (g_value_put v0 (VInt v)), None))
     else if type_id = BINARY_FORMATTER_TYPE_UINT
     then c_bind (read_uint h 0 (Some buf) buffer_length) (\<lambda>(ok, v).
          Inr (ok, Some (g_value_put v0 (VUInt v)), None))
     else if type_id = BINARY_FORMATTER_TYPE_SHORT
     then c_bind (read_short h 0 (Some buf) buffer_length) (\<lambda>(ok, v).
          Inr (ok, Some (g_value_put v0 (VInt (scast v))), None))
     else if type_id = BINARY_FORMATTER_TYPE_USHORT
     then c_bind (read_ushort h 0 (Some buf) buffer_length) (\<lambda>(ok, v).
          Inr (ok, Some (g_value_put v0 (VInt (ucast v))), None))
     else if type_id = BINARY_FORMATTER_TYPE_CHAR
     then c_bind (read_char 0 (Some buf) buffer_length) (\<lambda>(ok, v).
          Inr (ok, Some (g_value_put v0 (VChar v)), None))
     else if type_id = BINARY_FORMATTER_TYPE_UCHAR
     then c_bind (read_uchar 0 (Some buf) buffer_length) (\<lambda>(ok, v).
          Inr (ok, Some (g_value_put v0 (VUChar v)), None))
     else if type_id = BINARY_FORMATTER_TYPE_DOUBLE
     then c_bind (read_double (libc_of P) h (Some 0) (Some buf) buffer_length) (\<lambda>(ok, v, _, err).
          Inr (ok, Some (g_value_put v0 (VDouble (case v of None \<Rightarrow> 0 | Some d \<Rightarrow> d))), err))
     else if type_id = BINARY_FORMATTER_TYPE_FLOAT
     then c_bind (read_float (libc_of P) h (Some 0) (Some buf) buffer_length) (\<lambda>(ok, v, _, err).
          Inr (ok, Some (g_value_put v0 (VFloat (case v of None \<Rightarrow> 0 | Some d \<Rightarrow> d))), err))
     else if type_id = BINARY_FORMATTER_TYPE_STRING
     then c_bind (read_string h (Some None) (Some 0) (Some buf) buffer_length) (\<lambda>(ok, v, l).
          case v of Some (Some mem) \<Rightarrow>
            c_bind (strlen mem) (\<lambda>n.
            if Some (n + 1) = map_option unat l
            then Inr (ok, Some (g_value_put v0 (VString (Some (take n mem)))), None)
            else Inr (ok, Some v0, None))
          | _ \<Rightarrow> Inr (ok, Some (g_value_put v0 (VString None)), None))
     else if type_id = BINARY_FORMATTER_TYPE_OBJECT
     then c_bind (read_object P h (Some None) (Some buf) buffer_length) (\<lambda>(ok, v).
          case v of Some (Some ob) \<Rightarrow> Inr (ok, Some (g_value_put_object P v0 ob), None)
          | _ \<Rightarrow> Inr (ok, Some v0, None))
     else Inr (False, Some v0, None))"
| "read_object P h None buffer buffer_length = Inr (False, None)"
| "read_object P h (Some ob0) None buffer_length = Inr (False, Some ob0)"
| "read_object P h (Some ob0) (Some buf) buffer_length =
     c_bind (load_byte buf 0) (\<lambda>type_id.
     if type_id \<noteq> BINARY_FORMATTER_TYPE_OBJECT then Inr (False, Some ob0)
     else c_bind (load_byte buf 1) (\<lambda>type_name_len.
          c_bind (load_bytes buf 2 (unat type_name_len)) (\<lambda>mem.
          c_bind (if type_name_len = 0 then Inr G_TYPE_INVALID
                  else c_bind (c_string mem) (\<lambda>s. Inr (g_type_from_name P s))) (\<lambda>type.
          if type = G_TYPE_INVALID \<or> \<not> g_type_is_a P type G_TYPE_OBJECT then Inr (False, Some ob0)
          else c_bind (read_props P h (object_new P type) (drop (1 + 1 + unat type_name_len) buf)) (\<lambda>ob.
               Inr (True, Some (Some ob)))))))"
| "read_props P h ob [] = Inl Out_Of_Bounds"
| "read_props P h ob (b # cursor) =
     (if b = 0 then Inr ob
      else let prop_name_len = unat b in
           c_bind (load_bytes cursor 0 prop_name_len) (\<lambda>prop_name.
           c_bind (load_bytes cursor prop_name_len 4) (\<lambda>be_len.
           let prop_value_len = from_be h (mem_load h be_len) :: guint;
               cur = drop (prop_name_len + 4) cursor in
           c_bind (read_value P h (Some VUnset) (Some cur) prop_value_len) (\<lambda>(ok, v, _).
           if \<not> ok then Inl Process_Abort
           else c_bind (c_string prop_name) (\<lambda>name.
                read_props P h (set_property P ob name (case v of None \<Rightarrow> VUnset | Some v \<Rightarrow> v))
                  (drop (unat prop_value_len) cur))))))"
  by pat_completeness auto
termination
  by (relation "inv_image (less_than <*lex*> less_than)
        (case_sum (\<lambda>(P, h, v, buf, n). (case buf of None \<Rightarrow> 0 | Some bs \<Rightarrow> length bs, 2 :: nat))
          (case_sum (\<lambda>(P, h, ob, buf, n). (case buf of None \<Rightarrow> 0 | Some bs \<Rightarrow> length bs, 1))
                    (\<lambda>(P, h, ob, bs). (length bs, 0))))")
    auto

declare read_value.simps(3) [simp del] read_object.simps(3) [simp del] read_props.simps(2) [simp del]

section \<open>The formatter's deserialize method\<close>

definition real_deserialize :: "('o, 'z) platform_scheme \<Rightarrow> endian \<Rightarrow> 'o gvalue option \<Rightarrow> bytes
    \<Rightarrow> 64 word \<Rightarrow> 'o value_out result" where
  "real_deserialize P h v0 buffer buffer_length =
     c_bind (load_byte buffer 0) (\<lambda>version.
     if version \<noteq> 1 then Inr (False, v0, Some BAD_DATA)
     else read_value P h v0 (Some (drop 2 buffer)) (ucast (buffer_length - 2)))"

end
