(* ===== verification/Formatter_Roundtrip.thy ===== *)
theory Formatter_Roundtrip
  imports Formatter_Read
begin

text \<open>
  The formatter as a whole: the exact bytes of a serialised value, that the readers recover
  from them what was written, on any host and whatever \<^verbatim>\<open>total\<close> happened to start with, and
  that the writer returns on every value within its limits.

  \<open>rebuild\<close> is the abstract specification: the value that reading back should give. An object
  comes back as a new object of the same type with the stored properties set, last first.
\<close>

section \<open>The specification\<close>

text \<open>The properties \<^verbatim>\<open>write_object\<close> stores.\<close>

definition stored_properties :: "('o, 'z) platform_scheme \<Rightarrow> 'o \<Rightarrow> (bytes \<times> gtype) list" where
  "stored_properties P ob =
     filter (\<lambda>(name, t). can_serialize_type P t \<and> storable P (get_property P ob name))
       (list_properties P (type_from_instance P ob))"

definition rebuild_with :: "('o, 'z) platform_scheme \<Rightarrow> ('o \<Rightarrow> 'o) \<Rightarrow> 'o gvalue \<Rightarrow> 'o gvalue" where
  "rebuild_with P f v =
     (case v of
        VDouble d \<Rightarrow> VDouble (fst (strtod (libc_of P) (printf_double (libc_of P) d)))
      | VFloat d \<Rightarrow> VFloat (fst (strtof (libc_of P) (printf_float (libc_of P) d)))
      | VObject t (Some ob) \<Rightarrow> VObject (type_from_instance P (f ob)) (Some (f ob))
      | _ \<Rightarrow> v)"

primrec rebuild_object :: "('o, 'z) platform_scheme \<Rightarrow> nat \<Rightarrow> 'o \<Rightarrow> 'o" where
  "rebuild_object P 0 ob = ob"
| "rebuild_object P (Suc n) ob =
     foldr (\<lambda>(name, t) ob'. set_property P ob' name
              (rebuild_with P (rebuild_object P n) (get_property P ob name)))
       (stored_properties P ob) (object_new P (type_from_instance P ob))"

definition rebuild :: "('o, 'z) platform_scheme \<Rightarrow> nat \<Rightarrow> 'o gvalue \<Rightarrow> 'o gvalue" where
  "rebuild P n = rebuild_with P (rebuild_object P n)"

text \<open>
  The limits of the format: strings without a NUL that fit a \<^verbatim>\<open>guint\<close>; numbers whose text can
  be read back without \<^verbatim>\<open>errno\<close>; type and property names that fit, with their NUL, the one
  byte of their length; registered object types; objects nested at most \<open>n\<close> deep.
\<close>

definition text_ok :: "bytes \<Rightarrow> bool" where
  "text_ok s \<longleftrightarrow> 0 \<notin> set s \<and> length s + 6 < 2 ^ 32"

definition name_ok :: "bytes \<Rightarrow> bool" where
  "name_ok s \<longleftrightarrow> 0 \<notin> set s \<and> length s + 1 < 2 ^ 8"

fun value_ok :: "('o, 'z) platform_scheme \<Rightarrow> ('o \<Rightarrow> bool) \<Rightarrow> 'o gvalue \<Rightarrow> bool" where
  "value_ok P f (VString (Some s)) = text_ok s"
| "value_ok P f (VDouble d) =
     (text_ok (printf_double (libc_of P) d)
      \<and> \<not> snd (strtod (libc_of P) (printf_double (libc_of P) d)))"
| "value_ok P f (VFloat d) =
     (text_ok (printf_float (libc_of P) d)
      \<and> \<not> snd (strtof (libc_of P) (printf_float (libc_of P) d)))"
| "value_ok P f (VObject t (Some ob)) = f ob"
| "value_ok P f v = True"

definition type_ok :: "('o, 'z) platform_scheme \<Rightarrow> gtype \<Rightarrow> bool" where
  "type_ok P t \<longleftrightarrow> name_ok (g_type_name P t) \<and> g_type_from_name P (g_type_name P t) = t
     \<and> t \<noteq> G_TYPE_INVALID \<and> g_type_is_a P t G_TYPE_OBJECT"

primrec object_ok :: "('o, 'z) platform_scheme \<Rightarrow> nat \<Rightarrow> 'o \<Rightarrow> bool" where
  "object_ok P 0 ob = False"
| "object_ok P (Suc n) ob =
     (type_ok P (type_from_instance P ob)
      \<and> list_all (\<lambda>(name, t). can_serialize_type P t \<longrightarrow>
            name_ok name \<and> value_ok P (object_ok P n) (get_property P ob name))
          (list_properties P (type_from_instance P ob)))"

definition encodable :: "('o, 'z) platform_scheme \<Rightarrow> nat \<Rightarrow> 'o gvalue \<Rightarrow> bool" where
  "encodable P n = value_ok P (object_ok P n)"

section \<open>The bytes of a chunk\<close>

definition wire_chunk :: "chunk \<Rightarrow> bytes" where
  "wire_chunk c = ucast (key_length c) # key c @ be_bytes (value_length c) @ chunk_value c"

definition chunk_ok :: "chunk \<Rightarrow> bool" where
  "chunk_ok c \<longleftrightarrow> unat (key_length c) = length (key c) \<and> unat (value_length c) = length (chunk_value c)"

definition wire_chunks :: "chunk list \<Rightarrow> bytes" where
  "wire_chunks cs = concat (map wire_chunk cs)"

lemma wire_chunks_simps [simp]:
  "wire_chunks [] = []"
  "wire_chunks (c # cs) = wire_chunk c @ wire_chunks cs"
  "wire_chunks (cs @ ds) = wire_chunks cs @ wire_chunks ds"
  by (simp_all add: wire_chunks_def)

lemma length_wire_chunk: "length (wire_chunk c) = 5 + length (key c) + length (chunk_value c)"
  by (simp add: wire_chunk_def)

lemma unat_guint_add:
  fixes a b :: guint
  shows "unat a + unat b < 2 ^ 32 \<Longrightarrow> unat (a + b) = unat a + unat b"
  by (simp add: unat_word_ariths)

text \<open>One turn of the copying loop, on memory that is still zero behind \<^verbatim>\<open>offset\<close>.\<close>

lemma emit_chunk:
  assumes "chunk_ok c" "length xs = unat offset"
    and fits: "unat offset + length (wire_chunk c) < 2 ^ 32"
    and room: "length (wire_chunk c) \<le> n"
  shows "\<exists>offset'. unat offset' = unat offset + length (wire_chunk c) \<and>
    emit_chunks h (xs @ zeroed n) offset (c # cs) =
    emit_chunks h ((xs @ wire_chunk c) @ zeroed (n - length (wire_chunk c))) offset' cs"
proof -
  let ?k = "length (key c)" and ?v = "length (chunk_value c)"
  have kv: "unat (key_length c) = ?k" "unat (value_length c) = ?v"
    using assms(1) by (simp_all add: chunk_ok_def)
  let ?o1 = "offset + 1" and ?o2 = "offset + 1 + key_length c"
  let ?o3 = "offset + 1 + key_length c + 4" and ?o4 = "offset + 1 + key_length c + 4 + value_length c"
  have bound: "unat offset + (5 + ?k + ?v) < 2 ^ 32" using fits by (simp add: length_wire_chunk)
  have o1: "unat ?o1 = unat offset + 1" using bound by (subst unat_guint_add) simp_all
  have o2: "unat ?o2 = unat offset + 1 + ?k" using bound o1 kv by (subst unat_guint_add) simp_all
  have o3: "unat ?o3 = unat offset + 5 + ?k" using bound o2 by (subst unat_guint_add) simp_all
  have o4: "unat ?o4 = unat offset + 5 + ?k + ?v" using bound o3 kv by (subst unat_guint_add) simp_all
  obtain m where "n = length (wire_chunk c) + m" using room le_Suc_ex by blast
  then have n: "n = Suc (?k + (4 + (?v + m)))" by (simp add: length_wire_chunk)
  have s1: "store_byte (xs @ zeroed n) (unat offset) b = Inr ((xs @ [b]) @ zeroed (?k + (4 + (?v + m))))" for b
    unfolding n using store_byte_append [OF assms(2)] by (simp only: append_assoc append_Cons append_Nil)
  have s2: "store_bytes ((xs @ [b]) @ zeroed (?k + (4 + (?v + m)))) (unat ?o1) (key c) =
      Inr ((xs @ b # key c) @ zeroed (4 + (?v + m)))" for b
    using store_bytes_append [of "xs @ [b]" "unat ?o1" "key c"] o1 assms(2) by simp
  have s3: "store_bytes ((xs @ b # key c) @ zeroed (4 + (?v + m))) (unat ?o2) (be_bytes w) =
      Inr ((xs @ b # key c @ be_bytes w) @ zeroed (?v + m))" for b and w :: guint
    using store_bytes_append [of "xs @ b # key c" "unat ?o2" "be_bytes w" "4 + (?v + m)"] o2 assms(2)
    by simp
  have s4: "store_bytes ((xs @ b # key c @ be_bytes w) @ zeroed (?v + m)) (unat ?o3) (chunk_value c) =
      Inr ((xs @ b # key c @ be_bytes w @ chunk_value c) @ zeroed m)" for b and w :: guint
    using store_bytes_append [of "xs @ b # key c @ be_bytes w" "unat ?o3" "chunk_value c" "?v + m"]
      o3 assms(2) by simp
  have "emit_chunks h (xs @ zeroed n) offset (c # cs) =
      emit_chunks h ((xs @ wire_chunk c) @ zeroed m) ?o4 cs"
    using load_bytes_whole [of "key c"] load_bytes_whole [of "chunk_value c"]
    by (simp only: emit_chunks.simps Let_def mem_repr_to_be kv s1 s2 s3 s4 c_bind.simps wire_chunk_def)
  moreover have "n - length (wire_chunk c) = m" by (simp add: n length_wire_chunk)
  ultimately show ?thesis
    using o4 by (intro exI [of _ ?o4]) (simp add: length_wire_chunk)
qed

text \<open>The whole loop: the chunks, one behind the other, and what was zero behind them.\<close>

lemma emit_chunks_ok:
  assumes "list_all chunk_ok cs" "length xs = unat offset"
    and "unat offset + length (wire_chunks cs) < 2 ^ 32" "length (wire_chunks cs) \<le> n"
  shows "emit_chunks h (xs @ zeroed n) offset cs =
           Inr (xs @ wire_chunks cs @ zeroed (n - length (wire_chunks cs)))"
  using assms
proof (induction cs arbitrary: xs offset n)
  case Nil
  then show ?case by simp
next
  case (Cons c cs)
  then obtain offset' where o: "unat offset' = unat offset + length (wire_chunk c)"
    and e: "emit_chunks h (xs @ zeroed n) offset (c # cs) =
      emit_chunks h ((xs @ wire_chunk c) @ zeroed (n - length (wire_chunk c))) offset' cs"
    using emit_chunk [of c xs offset n h cs] by auto
  have "emit_chunks h ((xs @ wire_chunk c) @ zeroed (n - length (wire_chunk c))) offset' cs =
      Inr ((xs @ wire_chunk c) @ wire_chunks cs @ zeroed (n - length (wire_chunk c) - length (wire_chunks cs)))"
    using Cons.prems o by (intro Cons.IH) auto
  then show ?case using e by simp
qed

text \<open>
  Conversely, the loop only returns when the chunks fit the buffer: every copy is a checked
  store. So a wrapped-around \<^verbatim>\<open>total\<close> cannot go unnoticed.
\<close>

lemma store_byte_Inr: "store_byte buf i b = Inr buf' \<Longrightarrow> i < length buf \<and> length buf' = length buf"
  by (auto simp: store_byte_def split: if_splits)

lemma store_bytes_Inr:
  "store_bytes buf i src = Inr buf' \<Longrightarrow> i + length src \<le> length buf \<and> length buf' = length buf"
  by (auto simp: store_bytes_def split: if_splits)

lemma emit_chunks_fits:
  assumes "emit_chunks h buf offset cs = Inr buf'" "list_all chunk_ok cs" "length buf < 2 ^ 32"
    and "unat offset \<le> length buf"
  shows "unat offset + length (wire_chunks cs) \<le> length buf \<and> length buf' = length buf"
  using assms
proof (induction cs arbitrary: buf offset)
  case Nil
  then show ?case by simp
next
  case (Cons c cs)
  let ?o1 = "offset + 1" and ?o2 = "offset + 1 + key_length c"
  let ?o3 = "offset + 1 + key_length c + 4" and ?o4 = "offset + 1 + key_length c + 4 + value_length c"
  from Cons.prems(2) have kv: "unat (key_length c) = length (key c)"
      "unat (value_length c) = length (chunk_value c)" and cs: "list_all chunk_ok cs"
    using chunk_ok_def [of c] by simp_all
  from Cons.prems(1) obtain b1 b2 b3 b4 where
    s1: "store_byte buf (unat offset) (ucast (key_length c)) = Inr b1" and
    s2: "store_bytes b1 (unat ?o1) (key c) = Inr b2" and
    s3: "store_bytes b2 (unat ?o2) (be_bytes (value_length c)) = Inr b3" and
    s4: "store_bytes b3 (unat ?o3) (chunk_value c) = Inr b4" and
    e: "emit_chunks h b4 ?o4 cs = Inr buf'"
    using load_bytes_whole [of "key c"] load_bytes_whole [of "chunk_value c"]
    by (auto simp: Let_def c_bind_eq_Inr kv mem_repr_to_be)
  note lens = store_byte_Inr [OF s1] store_bytes_Inr [OF s2] store_bytes_Inr [OF s3] store_bytes_Inr [OF s4]
  have o1: "unat ?o1 = unat offset + 1"
    using lens Cons.prems(3) by (subst unat_guint_add) simp_all
  have o2: "unat ?o2 = unat offset + 1 + length (key c)"
    using lens Cons.prems(3) o1 kv by (subst unat_guint_add) simp_all
  have "unat ?o2 + 4 \<le> length buf" using lens by simp
  then have o3: "unat ?o3 = unat ?o2 + 4"
    using Cons.prems(3) by (subst unat_guint_add) simp_all
  have o4: "unat ?o4 = unat ?o3 + length (chunk_value c)"
    using lens Cons.prems(3) kv by (subst unat_guint_add) simp_all
  have "unat ?o4 + length (wire_chunks cs) \<le> length b4 \<and> length buf' = length b4"
    using e cs lens o4 Cons.prems(3) by (intro Cons.IH) auto
  then show ?case using lens o2 o3 o4 by (simp add: length_wire_chunk)
qed

section \<open>Reading what was written\<close>

text \<open>The type dispatch of \<^verbatim>\<open>read_value\<close> on the bytes of each kind of value.\<close>

lemma load_first: "load_byte (b # bs) 0 = Inr b"
  by (simp add: mem_simps)

lemmas scalar_read_back =
  boolean.read_written [simplified] int.read_written [simplified] uint.read_written [simplified]
  long.read_written [simplified] ulong.read_written [simplified] int64.read_written [simplified]
  uint64.read_written [simplified] char.read_written [simplified] uchar.read_written [simplified]

lemma read_value_scalar:
  "read_value P h (Some v0) (Some (1 # b # rest)) 2 =
     Inr (True, Some (g_value_put v0 (VBoolean (scast b \<noteq> (0 :: gboolean)))), None)"
  "read_value P h (Some v0) (Some (2 # be_bytes (i64 :: gint64) @ rest)) 9 = Inr (True, Some (g_value_put v0 (VInt64 i64)), None)"
  "read_value P h (Some v0) (Some (130 # be_bytes (i64 :: gint64) @ rest)) 9 = Inr (True, Some (g_value_put v0 (VUInt64 i64)), None)"
  "read_value P h (Some v0) (Some (3 # be_bytes (l :: glong) @ rest)) 9 = Inr (True, Some (g_value_put v0 (VLong l)), None)"
  "read_value P h (Some v0) (Some (131 # be_bytes (l :: glong) @ rest)) 9 = Inr (True, Some (g_value_put v0 (VULong l)), None)"
  "read_value P h (Some v0) (Some (4 # be_bytes (i :: gint) @ rest)) 5 = Inr (True, Some (g_value_put v0 (VInt i)), None)"
  "read_value P h (Some v0) (Some (132 # be_bytes (i :: guint) @ rest)) 5 = Inr (True, Some (g_value_put v0 (VUInt i)), None)"
  "read_value P h (Some v0) (Some (6 # c # rest)) 2 = Inr (True, Some (g_value_put v0 (VChar c)), None)"
  "read_value P h (Some v0) (Some (134 # c # rest)) 2 = Inr (True, Some (g_value_put v0 (VUChar c)), None)"
  by (simp_all add: read_value.simps(3) load_first scalar_read_back of_be_bytes_be_bytes
      read_boolean_def read_char_def read_uchar_def load_byte_def)

lemma read_value_string:
  assumes "text_ok s"
  shows "read_value P h (Some v0)
           (Some (wire_string BINARY_FORMATTER_TYPE_STRING (s @ [0]) @ rest)) (of_nat (length s + 6)) =
         Inr (True, Some (g_value_put v0 (VString (Some s))), None)"
proof -
  have len: "length (s @ [0]) + 5 = length s + 6" by simp
  let ?buf = "wire_string BINARY_FORMATTER_TYPE_STRING (s @ [0]) @ rest"
  have small: "length s + 6 < 2 ^ 32" and nul: "0 \<notin> set s"
    using assms by (simp_all add: text_ok_def)
  have r: "read_string h (Some None) (Some 0) (Some ?buf) (of_nat (length s + 6)) =
      Inr (True, Some (Some (s @ [0])), Some (of_nat (length (s @ [0]))))"
    using read_wire_string [of "s @ [0]" h None "Some 0" rest, unfolded len] small
    by (simp add: g_malloc0_def)
  have n: "strlen (s @ [0]) = Inr (length s)"
    using nul by (rule strlen_terminated)
  have u: "unat (of_nat (length (s @ [0])) :: guint) = length s + 1"
    using small by (subst unat_of_nat_guint) simp_all
  have t: "load_byte ?buf 0 = Inr 14" by (simp add: wire_string_def load_first)
  show ?thesis
    unfolding read_value.simps(3) t c_bind.simps r prod.case option.case n option.map u by simp
qed

lemma read_value_NULL_string:
  "read_value P h (Some v0) (Some (wire_string BINARY_FORMATTER_TYPE_STRING [] @ rest)) 5 =
     Inr (True, Some (g_value_put v0 (VString None)), None)"
proof -
  let ?buf = "wire_string BINARY_FORMATTER_TYPE_STRING [] @ rest"
  have r: "read_string h (Some None) (Some 0) (Some ?buf) 5 = Inr (True, Some None, Some 0)"
    using read_wire_string [of "[]" h None "Some 0" rest] by (simp add: g_malloc0_def)
  have t: "load_byte ?buf 0 = Inr 14" by (simp add: wire_string_def load_first)
  show ?thesis
    unfolding read_value.simps(3) t c_bind.simps r prod.case option.case by simp
qed

lemma read_value_double:
  assumes "text_ok s"
  shows "read_value P h (Some v0)
           (Some (wire_string BINARY_FORMATTER_TYPE_DOUBLE (s @ [0]) @ rest)) (of_nat (length s + 6)) =
         Inr (\<not> snd (strtod (libc_of P) s), Some (g_value_put v0 (VDouble (fst (strtod (libc_of P) s)))),
              if snd (strtod (libc_of P) s) then Some BAD_DATA else None)"
proof -
  have t: "load_byte (wire_string BINARY_FORMATTER_TYPE_DOUBLE (s @ [0]) @ rest) 0 = Inr 7"
    by (simp add: wire_string_def load_first)
  note r = double.read_back [of s "libc_of P" h 0 BINARY_FORMATTER_TYPE_DOUBLE rest]
  show ?thesis
    using r assms unfolding text_ok_def read_value.simps(3) t by simp
qed

lemma read_value_float:
  assumes "text_ok s"
  shows "read_value P h (Some v0)
           (Some (wire_string BINARY_FORMATTER_TYPE_FLOAT (s @ [0]) @ rest)) (of_nat (length s + 6)) =
         Inr (\<not> snd (strtof (libc_of P) s), Some (g_value_put v0 (VFloat (fst (strtof (libc_of P) s)))), None)"
proof -
  have t: "load_byte (wire_string BINARY_FORMATTER_TYPE_FLOAT (s @ [0]) @ rest) 0 = Inr 8"
    by (simp add: wire_string_def load_first)
  note r = float.read_back [of s "libc_of P" h 0 BINARY_FORMATTER_TYPE_FLOAT rest]
  show ?thesis
    using r assms unfolding text_ok_def read_value.simps(3) t by simp
qed

text \<open>One turn of the loop in \<^verbatim>\<open>read_object\<close> takes one chunk.\<close>

lemma read_props_step:
  assumes name: "name_ok name" "key c = name @ [0]" and c: "chunk_ok c"
  shows "read_props P h ob (wire_chunk c @ rest) =
    c_bind (read_value P h (Some VUnset) (Some (chunk_value c @ rest)) (value_length c)) (\<lambda>(ok, v, _).
    if \<not> ok then Inl Process_Abort
    else read_props P h (set_property P ob name (case v of None \<Rightarrow> VUnset | Some v \<Rightarrow> v)) rest)"
proof -
  let ?k = "ucast (key_length c) :: byte"
  have len: "unat (key_length c) = length name + 1" "length name + 1 < 2 ^ 8" and nul: "0 \<notin> set name"
    using name c by (simp_all add: chunk_ok_def name_ok_def)
  have k: "unat ?k = length name + 1" using len by (simp add: unsigned_ucast_eq take_bit_nat_eq_self)
  then have k0: "?k \<noteq> 0" by (metis Suc_eq_plus1 nat.distinct(1) unsigned_0)
  let ?cursor = "(name @ [0]) @ be_bytes (value_length c) @ chunk_value c @ rest"
  have w: "wire_chunk c @ rest = ?k # ?cursor" by (simp add: wire_chunk_def name(2))
  have 1: "load_bytes ?cursor 0 (unat ?k) = Inr (name @ [0])"
    by (rule load_bytes_append) (simp add: k)
  have 2: "load_bytes ?cursor (unat ?k) 4 = Inr (be_bytes (value_length c))"
    by (simp add: k load_bytes_def)
  have 3: "drop (unat ?k + 4) ?cursor = chunk_value c @ rest" by (simp add: k)
  have 4: "from_be h (mem_load h (be_bytes (value_length c))) = value_length c"
    by (simp add: from_be_mem_load of_be_bytes_be_bytes)
  have 5: "drop (unat (value_length c)) (chunk_value c @ rest) = rest"
    using c by (simp add: chunk_ok_def)
  have 6: "c_string (name @ [0]) = Inr name" using nul by (rule c_string_terminated)
  show ?thesis
    unfolding w read_props.simps(2) Let_def 1 2 3 4 5 6 c_bind.simps
    using k0 by simp
qed

lemma read_props_chunk:
  assumes "name_ok name" "key c = name @ [0]" "chunk_ok c"
    and "read_value P h (Some VUnset) (Some (chunk_value c @ rest)) (value_length c) = Inr (True, Some w, e)"
  shows "read_props P h ob (wire_chunk c @ rest) = read_props P h (set_property P ob name w) rest"
  by (simp add: read_props_step [OF assms(1-3)] assms(4))

text \<open>The writer has bytes for a value exactly when it is \<open>storable\<close>.\<close>

lemma scalar_writers_return:
  "write_boolean v Loc Loc = Inr r \<Longrightarrow> r \<noteq> None"
  "write_char c Loc Loc = Inr r \<Longrightarrow> r \<noteq> None"
  "write_uchar c Loc Loc = Inr r \<Longrightarrow> r \<noteq> None"
  "write_int h i Loc Loc = Inr r \<Longrightarrow> r \<noteq> None"
  "write_uint h i Loc Loc = Inr r \<Longrightarrow> r \<noteq> None"
  "write_long h l Loc Loc = Inr r \<Longrightarrow> r \<noteq> None"
  "write_ulong h l Loc Loc = Inr r \<Longrightarrow> r \<noteq> None"
  "write_int64 h l Loc Loc = Inr r \<Longrightarrow> r \<noteq> None"
  "write_uint64 h l Loc Loc = Inr r \<Longrightarrow> r \<noteq> None"
  "write_string h s n Loc Loc = Inr r \<Longrightarrow> r \<noteq> None"
  "write_double L h d Loc Loc = Inr r \<Longrightarrow> r \<noteq> None"
  "write_float L h f Loc Loc = Inr r \<Longrightarrow> r \<noteq> None"
  by (auto simp: scalar_writer_defs write_string_def write_double_def write_float_def Let_def
      c_bind_eq_Inr split: option.splits)

lemma write_object_returns:
  "write_object P h junk depth path (Some ob) Loc Loc = Inr r \<Longrightarrow> r \<noteq> None"
  by (cases depth) (auto simp: write_object.simps Let_def c_bind_eq_Inr)

lemma write_value_storable:
  assumes "write_value P h junk depth path v Loc Loc = Inr r"
  shows "r \<noteq> None \<longleftrightarrow> storable P v"
proof (cases "\<exists>t p. v = VObject t p")
  case True
  then obtain t p where v: "v = VObject t p" by blast
  show ?thesis
  proof (cases p)
    case None
    then show ?thesis using assms by (auto simp: v write_value.simps write_object.simps split: if_splits)
  next
    case (Some ob)
    then show ?thesis using assms write_object_returns [of P h junk depth path ob r]
      by (auto simp: v write_value.simps split: if_splits)
  qed
next
  case False
  then show ?thesis
    using assms scalar_writers_return by (cases v) (auto simp: write_value.simps)
qed

section \<open>The round trip\<close>

definition reads_back :: "('o, 'z) platform_scheme \<Rightarrow> bytes \<Rightarrow> guint \<Rightarrow> 'o gvalue \<Rightarrow> bool" where
  "reads_back P buf len w \<longleftrightarrow> unat len = length buf \<and>
     (\<forall>h rest. read_value P h (Some VUnset) (Some (buf @ rest)) len = Inr (True, Some w, None))"

lemma g_value_put_unset [simp]: "g_value_put VUnset v = v"
  by (simp add: g_value_put_def)

lemma unat_of_nat_text: "text_ok s \<Longrightarrow> unat (of_nat (length s + 6) :: guint) = length s + 6"
  unfolding text_ok_def by (subst unat_of_nat_guint) simp_all

lemma scalar_written_reads_back:
  assumes "write_value P h junk depth path v Loc Loc = Inr (Some (buf, len))"
    and "value_ok P f v" "\<And>t p. v \<noteq> VObject t p"
  shows "reads_back P buf len (rebuild_with P g v)"
proof (cases v)
  case (VString s)
  show ?thesis
  proof (cases s)
    case None
    then show ?thesis
      using assms(1) read_value_NULL_string [of P _ VUnset]
      by (auto simp: VString write_value.simps write_string_NULL reads_back_def rebuild_with_def)
  next
    case (Some s')
    then have ok: "text_ok s'" using assms(2) by (simp add: VString)
    then show ?thesis
      using assms(1) write_string_terminated [of s' h "[]"] read_value_string [OF ok, of P _ VUnset]
      by (auto simp: VString Some write_value.simps reads_back_def rebuild_with_def text_ok_def
          unat_of_nat_text [OF ok, simplified])
  qed
next
  case (VDouble d)
  let ?s = "printf_double (libc_of P) d"
  from VDouble assms(2) have ok: "text_ok ?s" and err: "\<not> snd (strtod (libc_of P) ?s)" by simp_all
  then show ?thesis
    using assms(1) double.written [of "libc_of P" d h] read_value_double [OF ok, of P _ VUnset]
    by (auto simp: VDouble write_value.simps reads_back_def rebuild_with_def text_ok_def
        unat_of_nat_text [OF ok, simplified])
next
  case (VFloat d)
  let ?s = "printf_float (libc_of P) d"
  from VFloat assms(2) have ok: "text_ok ?s" and err: "\<not> snd (strtof (libc_of P) ?s)" by simp_all
  then show ?thesis
    using assms(1) float.written [of "libc_of P" d h] read_value_float [OF ok, of P _ VUnset]
    by (auto simp: VFloat write_value.simps reads_back_def rebuild_with_def text_ok_def
        unat_of_nat_text [OF ok, simplified])
qed (use assms in \<open>auto simp: write_value.simps reads_back_def rebuild_with_def read_value_scalar
      g_value_get_boolean_def boolean.writer_eq int.writer_eq uint.writer_eq long.writer_eq
      ulong.writer_eq int64.writer_eq uint64.writer_eq char.writer_eq uchar.writer_eq\<close>)

text \<open>The header of an object, and \<^verbatim>\<open>write_object\<close> after it has built it.\<close>

definition object_header :: "bytes \<Rightarrow> bytes" where
  "object_header name = BINARY_FORMATTER_TYPE_OBJECT # of_nat (length name + 1) # name @ [0]"

definition header_size :: "bytes \<Rightarrow> guint" where
  "header_size name = 1 + 1 + ucast (of_nat (length name + 1) :: byte)"

lemma length_object_header: "length (object_header name) = Suc (Suc (length name + 1))"
  by (simp add: object_header_def)

lemma name_ok_length:
  assumes "name_ok name"
  shows "unat (of_nat (length name + 1) :: byte) = length name + 1"
    and "unat (header_size name) = length (object_header name)"
    and "(of_nat (length name + 1) :: byte) \<noteq> 0"
proof -
  let ?k = "of_nat (length name + 1) :: byte"
  have small: "length name + 1 < 2 ^ 8" using assms by (simp add: name_ok_def)
  then show k: "unat ?k = length name + 1" by (subst unat_of_nat) (simp add: take_bit_nat_eq_self)
  then show "?k \<noteq> 0" by (metis Suc_eq_plus1 nat.distinct(1) unsigned_0)
  have "unat (ucast ?k :: guint) = length name + 1"
    using k small by (simp add: unsigned_ucast_eq take_bit_nat_eq_self)
  then show "unat (header_size name) = length (object_header name)"
    using small unat_guint_add [of 2 "ucast ?k"] by (simp add: length_object_header header_size_def)
qed

lemma write_object_header:
  assumes "name_ok (g_type_name P (type_from_instance P ob))"
  shows "write_object P h junk (Suc n) path (Some ob) Loc Loc =
    c_bind (write_props P h junk n path ob (list_properties P (type_from_instance P ob)) []
             (junk path + header_size (g_type_name P (type_from_instance P ob)))) (\<lambda>(chunks, tot).
    c_bind (store_bytes (zeroed (unat (tot + 1))) 0 (object_header (g_type_name P (type_from_instance P ob)))) (\<lambda>buf.
    c_bind (emit_chunks h buf (header_size (g_type_name P (type_from_instance P ob))) chunks) (\<lambda>buf.
    Inr (Some (buf, tot + 1)))))"
proof -
  let ?name = "g_type_name P (type_from_instance P ob)"
  let ?k = "of_nat (length ?name + 1) :: byte"
  note k = name_ok_length [OF assms]
  have z: "zeroed (unat (header_size ?name)) = zeroed (Suc (Suc (length ?name + 1)))"
    unfolding k(2) by (simp add: length_object_header)
  have h1: "store_byte (zeroed (unat (header_size ?name))) 0 15 = Inr (15 # zeroed (Suc (length ?name + 1)))"
    unfolding z by (rule store_type_code)
  have h2: "store_byte (15 # zeroed (Suc (length ?name + 1))) 1 ?k = Inr ([15, ?k] @ zeroed (length ?name + 1))"
    using store_byte_append [of "[15]" 1 "length ?name + 1" ?k] by simp
  have h3: "store_bytes ([15, ?k] @ zeroed (length ?name + 1)) 2 (?name @ [0]) = Inr (object_header ?name)"
    using store_bytes_append [of "[15, ?k]" 2 "?name @ [0]" "length ?name + 1"] by (simp add: object_header_def)
  have ld: "load_bytes (?name @ [0]) 0 (unat ?k) = Inr (?name @ [0])"
    by (rule load_bytes_whole) (subst k(1), simp)
  show ?thesis
    unfolding write_object.simps Let_def nat.case type_code_values header_size_def [symmetric]
      h1 c_bind.simps h2 ld h3 by simp
qed

text \<open>
  One object, given what its property loop did: if the stores succeeded, \<^verbatim>\<open>total\<close> was large
  enough for the terminating NUL too, unless it started at \<^verbatim>\<open>0xFFFFFFFF\<close>.
\<close>

lemma written_object_bytes:
  assumes w: "write_object P h junk (Suc n) path (Some ob) Loc Loc = Inr (Some (buf, len))"
    and name: "name_ok (g_type_name P (type_from_instance P ob))" and junk: "junk path \<noteq> - 1"
    and props: "\<And>cs t j. write_props P h junk n path ob (list_properties P (type_from_instance P ob)) [] j = Inr (cs, t)
      \<Longrightarrow> list_all chunk_ok cs \<and> t = j + of_nat (length (wire_chunks cs)) \<and> Q cs"
  shows "\<exists>cs m. unat len = length buf \<and> junk path = of_nat m \<and> Q cs \<and>
    buf = object_header (g_type_name P (type_from_instance P ob)) @ wire_chunks cs @ zeroed (Suc m)"
proof -
  let ?T = "type_from_instance P ob"
  let ?hd = "object_header (g_type_name P ?T)"
  let ?hl = "header_size (g_type_name P ?T)"
  note hl = name_ok_length(2) [OF name]
  from w obtain cs tot b1 where
    ps: "write_props P h junk n path ob (list_properties P ?T) [] (junk path + ?hl) = Inr (cs, tot)"
    and len: "len = tot + 1" and st: "store_bytes (zeroed (unat len)) 0 ?hd = Inr b1"
    and em: "emit_chunks h b1 ?hl cs = Inr buf"
    unfolding write_object_header [OF name] by (auto simp: c_bind_eq_Inr)
  from props [OF ps] have ok: "list_all chunk_ok cs" "Q cs"
    and tot: "tot = junk path + ?hl + of_nat (length (wire_chunks cs))" by auto
  from store_bytes_Inr [OF st] have room: "length ?hd \<le> unat len" and b1: "length b1 = unat len" by simp_all
  have fit: "length ?hd + length (wire_chunks cs) \<le> unat len \<and> length buf = unat len"
    using emit_chunks_fits [OF em ok(1)] b1 room hl unat_guint_less [of len] by simp
  obtain k where k: "unat len = unat ?hl + (length (wire_chunks cs) + k)"
    using fit hl by (metis le_iff_add add.assoc)
  have "len = of_nat (unat len)" by simp
  then have "len = ?hl + (of_nat (length (wire_chunks cs)) + of_nat k)"
    unfolding k of_nat_add by simp
  then have jk: "junk path + 1 = of_nat k" by (simp add: len tot algebra_simps)
  with junk have "k \<noteq> 0" by (cases "k = 0") (auto simp: eq_neg_iff_add_eq_0)
  then obtain m where m: "k = Suc m" by (cases k) auto
  with jk have jm: "junk path = of_nat m" by simp
  from k m hl have m: "unat len = length ?hd + (length (wire_chunks cs) + Suc m)" by simp
  have "b1 = ?hd @ zeroed (length (wire_chunks cs) + Suc m)"
    using st store_bytes_append [of "[]" 0 ?hd "unat len"] m by simp
  with em have "buf = ?hd @ wire_chunks cs @ zeroed (Suc m)"
    using emit_chunks_ok [OF ok(1), of ?hd ?hl "length (wire_chunks cs) + Suc m" h] hl fit
      unat_guint_less [of len] by simp
  with fit ok(2) jm show ?thesis by auto
qed

text \<open>Reading such bytes: the header names the type, the chunks end at the first zero.\<close>

lemma read_object_header:
  assumes t: "type_ok P T"
  shows "read_object P h (Some ob0) (Some (object_header (g_type_name P T) @ cursor)) len =
    c_bind (read_props P h (object_new P T) cursor) (\<lambda>ob. Inr (True, Some (Some ob)))"
proof -
  let ?name = "g_type_name P T"
  let ?k = "of_nat (length ?name + 1) :: byte"
  let ?buf = "object_header ?name @ cursor"
  have nul: "0 \<notin> set ?name" and name: "name_ok ?name"
    and reg: "g_type_from_name P ?name = T" "T \<noteq> G_TYPE_INVALID" "g_type_is_a P T G_TYPE_OBJECT"
    using t by (simp_all add: type_ok_def name_ok_def)
  note k = name_ok_length [OF name]
  have buf: "?buf = 15 # ?k # (?name @ [0]) @ cursor"
    by (simp add: object_header_def)
  have l0: "load_byte ?buf 0 = Inr 15" and l1: "load_byte ?buf 1 = Inr ?k"
    unfolding buf by (simp_all add: load_byte_def)
  have l2: "load_bytes ?buf 2 (unat ?k) = Inr (?name @ [0])"
    unfolding buf numeral_2_eq_2 load_bytes_Suc by (rule load_bytes_append) (subst k(1), simp)
  have c: "c_string (?name @ [0]) = Inr ?name" using nul by (rule c_string_terminated)
  have d: "drop (1 + 1 + unat ?k) ?buf = cursor" unfolding buf k(1) by simp
  show ?thesis
    unfolding read_object.simps(3) l0 l1 l2 c d c_bind.simps if_not_P [OF k(3)] reg(1)
    using reg(2,3) by simp
qed

lemma read_object_bytes:
  assumes t: "type_ok P T"
    and rd: "\<And>ob0 rest. read_props P h ob0 (wire_chunks cs @ rest) = read_props P h (f ob0) rest"
  shows "read_object P h (Some ob0)
      (Some (object_header (g_type_name P T) @ wire_chunks cs @ zeroed (Suc m) @ rest)) len =
    Inr (True, Some (Some (f (object_new P T))))"
  by (simp add: read_object_header [OF t] rd zeroed_Suc read_props.simps(2))

text \<open>The property loop, given that each single value reads back.\<close>

definition set_stored :: "('o, 'z) platform_scheme \<Rightarrow> nat \<Rightarrow> 'o \<Rightarrow> (bytes \<times> gtype) list \<Rightarrow> 'o \<Rightarrow> 'o" where
  "set_stored P n ob params =
     foldr (\<lambda>(name, t) ob'. set_property P ob' name
              (rebuild_with P (rebuild_object P n) (get_property P ob name)))
       (filter (\<lambda>(name, t). can_serialize_type P t \<and> storable P (get_property P ob name)) params)"

definition params_ok :: "('o, 'z) platform_scheme \<Rightarrow> nat \<Rightarrow> 'o \<Rightarrow> (bytes \<times> gtype) list \<Rightarrow> bool" where
  "params_ok P n ob = list_all (\<lambda>(name, t). can_serialize_type P t \<longrightarrow>
     name_ok name \<and> value_ok P (object_ok P n) (get_property P ob name))"

lemma object_ok_Suc:
  "object_ok P (Suc n) ob \<longleftrightarrow> type_ok P (type_from_instance P ob) \<and>
     params_ok P n ob (list_properties P (type_from_instance P ob))"
  by (simp add: params_ok_def)

lemma rebuild_object_Suc:
  "rebuild_object P (Suc n) ob =
     set_stored P n ob (list_properties P (type_from_instance P ob))
       (object_new P (type_from_instance P ob))"
  by (simp add: set_stored_def stored_properties_def)

declare object_ok.simps(2) [simp del] rebuild_object.simps(2) [simp del]

lemma write_props_read_back:
  assumes V: "\<And>v path buf len. write_value P h junk n path v Loc Loc = Inr (Some (buf, len)) \<Longrightarrow>
      value_ok P (object_ok P n) v \<Longrightarrow> reads_back P buf len (rebuild_with P (rebuild_object P n) v)"
    and "params_ok P n ob params" "write_props P h junk n path ob params cs0 j = Inr (cs, t)"
  shows "\<exists>new. cs = new @ cs0 \<and> list_all chunk_ok new \<and> t = j + of_nat (length (wire_chunks new)) \<and>
    (\<forall>h ob0 rest. read_props P h ob0 (wire_chunks new @ rest) =
      read_props P h (set_stored P n ob params ob0) rest)"
  using assms(2,3)
proof (induction params arbitrary: cs0 j)
  case Nil
  then show ?case by (simp add: set_stored_def)
next
  case (Cons p params)
  obtain name pt where p: "p = (name, pt)" by (cases p)
  have ok: "params_ok P n ob params" using Cons.prems(1) by (simp add: params_ok_def)
  show ?case
  proof (cases "can_serialize_type P pt \<and> storable P (get_property P ob name)")
    case False
    have "write_props P h junk n path ob params cs0 j = Inr (cs, t)"
    proof (cases "can_serialize_type P pt")
      case True
      with False Cons.prems(2) show ?thesis
        by (auto simp: p Let_def c_bind_eq_Inr split: option.splits dest: write_value_storable)
    qed (use Cons.prems(2) in \<open>simp add: p\<close>)
    moreover have "set_stored P n ob (p # params) = set_stored P n ob params"
      using False by (auto simp: set_stored_def p fun_eq_iff)
    ultimately show ?thesis using Cons.IH [OF ok] by simp
  next
    case True
    let ?v = "get_property P ob name" and ?k = "of_nat (length name + 1) :: guint"
    have nm: "name_ok name" and vok: "value_ok P (object_ok P n) ?v"
      using True Cons.prems(1) by (simp_all add: params_ok_def p)
    from True Cons.prems(2) obtain r where
      wr: "write_value P h junk n (path @ [name]) ?v Loc Loc = Inr r" by (auto simp: p Let_def c_bind_eq_Inr)
    with True obtain buf len where r: "r = Some (buf, len)" using write_value_storable [OF wr] by auto
    let ?c = "\<lparr>key = name @ [0], key_length = ?k, chunk_value = buf, value_length = len\<rparr>"
    have rb: "reads_back P buf len (rebuild_with P (rebuild_object P n) ?v)"
      using V wr vok r by blast
    have k: "unat ?k = length name + 1" using nm unfolding name_ok_def by (subst unat_of_nat_guint) simp_all
    have c: "chunk_ok ?c" using rb k by (simp add: chunk_ok_def reads_back_def del: of_nat_add)
    have "write_props P h junk n path ob params (?c # cs0) (j + (1 + ?k + 4 + len)) = Inr (cs, t)"
      using Cons.prems(2) True wr r by (simp add: p)
    from Cons.IH [OF ok this] obtain new where
      cs: "cs = new @ ?c # cs0" and new: "list_all chunk_ok new"
      and t: "t = j + (1 + ?k + 4 + len) + of_nat (length (wire_chunks new))"
      and rd: "\<And>h ob0 rest. read_props P h ob0 (wire_chunks new @ rest) =
        read_props P h (set_stored P n ob params ob0) rest" by auto
    have "read_props P h' ob0 (wire_chunks (new @ [?c]) @ rest) =
        read_props P h' (set_stored P n ob (p # params) ob0) rest" for h' ob0 rest
    proof -
      have "read_props P h' ob0 (wire_chunks (new @ [?c]) @ rest) =
          read_props P h' (set_stored P n ob params ob0) (wire_chunk ?c @ rest)"
        by (simp add: rd)
      also have "\<dots> = read_props P h' (set_property P (set_stored P n ob params ob0) name
          (rebuild_with P (rebuild_object P n) ?v)) rest"
        using rb by (intro read_props_chunk [OF nm _ c]) (simp_all add: reads_back_def)
      also have "set_property P (set_stored P n ob params ob0) name (rebuild_with P (rebuild_object P n) ?v) =
          set_stored P n ob (p # params) ob0"
        using True by (simp add: set_stored_def p)
      finally show ?thesis .
    qed
    moreover have "t = j + of_nat (length (wire_chunks (new @ [?c])))"
    proof -
      have "len = of_nat (length buf)" using rb by (metis reads_back_def of_nat_unat ucast_id)
      then show ?thesis by (simp add: t length_wire_chunk)
    qed
    ultimately show ?thesis using cs new c by (intro exI [of _ "new @ [?c]"]) simp
  qed
qed

theorem written_reads_back:
  assumes "write_value P h junk n path v Loc Loc = Inr (Some (buf, len))"
    and "encodable P n v" "\<And>p. junk p \<noteq> - 1"
  shows "reads_back P buf len (rebuild P n v)"
  using assms(1,2) unfolding rebuild_def encodable_def
proof (induction n arbitrary: path v buf len)
  case 0
  show ?case
  proof (cases "\<exists>t p. v = VObject t p")
    case True
    then show ?thesis using 0
      by (auto simp: write_value.simps write_object.simps split: if_splits option.splits elim: value_ok.elims)
  next
    case False
    then show ?thesis using 0 by (intro scalar_written_reads_back) auto
  qed
next
  case (Suc n)
  show ?case
  proof (cases "\<exists>t p. v = VObject t p")
    case False
    then show ?thesis using Suc.prems by (intro scalar_written_reads_back) auto
  next
    case True
    then obtain t p where v: "v = VObject t p" by blast
    with Suc.prems(1) obtain ob where p: "p = Some ob"
      and w: "write_object P h junk (Suc n) path (Some ob) Loc Loc = Inr (Some (buf, len))"
      by (cases p) (auto simp: write_value.simps write_object.simps(1) split: if_splits)
    from Suc.prems(2) have ok: "type_ok P (type_from_instance P ob)"
        "params_ok P n ob (list_properties P (type_from_instance P ob))"
      by (simp_all add: v p object_ok_Suc)
    let ?T = "type_from_instance P ob" and ?f = "set_stored P n ob (list_properties P (type_from_instance P ob))"
    have "\<exists>cs m. unat len = length buf \<and> junk path = of_nat m \<and>
        (\<forall>h ob0 rest. read_props P h ob0 (wire_chunks cs @ rest) = read_props P h (?f ob0) rest) \<and>
        buf = object_header (g_type_name P ?T) @ wire_chunks cs @ zeroed (Suc m)"
      using write_props_read_back [OF Suc.IH ok(2)] ok(1) unfolding type_ok_def
      by (intro written_object_bytes [OF w _ assms(3)]) fastforce+
    then obtain cs m where len: "unat len = length buf"
      and rd: "\<And>h ob0 rest. read_props P h ob0 (wire_chunks cs @ rest) = read_props P h (?f ob0) rest"
      and buf: "buf = object_header (g_type_name P ?T) @ wire_chunks cs @ zeroed (Suc m)" by blast
    have "load_byte (buf @ rest) 0 = Inr 15" for rest
      by (simp add: buf object_header_def load_first)
    with len show ?thesis
      using read_object_bytes [OF ok(1) rd, of _ _ m]
      by (auto simp: reads_back_def rebuild_with_def v p rebuild_object_Suc read_value.simps(3)
          g_value_put_object_def buf)
  qed
qed

section \<open>The writer returns\<close>

text \<open>The number of bytes of a value, when \<^verbatim>\<open>total\<close> starts at zero.\<close>

fun value_size :: "('o, 'z) platform_scheme \<Rightarrow> ('o \<Rightarrow> nat) \<Rightarrow> 'o gvalue \<Rightarrow> nat" where
  "value_size P f VUnset = 0"
| "value_size P f (VString None) = 5"
| "value_size P f (VString (Some s)) = length s + 6"
| "value_size P f (VDouble d) = length (printf_double (libc_of P) d) + 6"
| "value_size P f (VFloat d) = length (printf_float (libc_of P) d) + 6"
| "value_size P f (VBoolean b) = 2"
| "value_size P f (VChar c) = 2"
| "value_size P f (VUChar c) = 2"
| "value_size P f (VInt i) = 5"
| "value_size P f (VUInt i) = 5"
| "value_size P f (VLong i) = 9"
| "value_size P f (VULong i) = 9"
| "value_size P f (VInt64 i) = 9"
| "value_size P f (VUInt64 i) = 9"
| "value_size P f (VObject t None) = 0"
| "value_size P f (VObject t (Some ob)) = f ob"

definition stored_size :: "('o, 'z) platform_scheme \<Rightarrow> ('o \<Rightarrow> nat) \<Rightarrow> 'o \<Rightarrow> (bytes \<times> gtype) list \<Rightarrow> nat" where
  "stored_size P f ob params =
     sum_list (map (\<lambda>(name, t). 6 + length name + value_size P f (get_property P ob name))
       (filter (\<lambda>(name, t). can_serialize_type P t \<and> storable P (get_property P ob name)) params))"

primrec object_size :: "('o, 'z) platform_scheme \<Rightarrow> nat \<Rightarrow> 'o \<Rightarrow> nat" where
  "object_size P 0 ob = 0"
| "object_size P (Suc n) ob =
     (let T = type_from_instance P ob in
      length (g_type_name P T) + 4 + stored_size P (object_size P n) ob (list_properties P T))"

definition serialized_size :: "('o, 'z) platform_scheme \<Rightarrow> nat \<Rightarrow> 'o gvalue \<Rightarrow> nat" where
  "serialized_size P n = value_size P (object_size P n)"

lemma not_storable_writes_nothing:
  "\<not> storable P v \<Longrightarrow> write_value P h junk n path v Loc Loc = Inr None"
  by (cases "(P, v)" rule: storable.cases) (auto simp: write_value.simps write_object.simps(1))

lemma scalar_writer_returns:
  assumes "value_ok P f v" "storable P v" "\<And>t p. v \<noteq> VObject t p"
  shows "\<exists>buf. write_value P h junk n path v Loc Loc = Inr (Some (buf, of_nat (length buf)))
    \<and> length buf = value_size P g v"
proof (cases v)
  case (VString s)
  then show ?thesis
    using assms(1) write_string_NULL [of h] write_string_terminated [of _ h "[]"]
    by (cases s) (auto simp: write_value.simps text_ok_def add.commute)
next
  case (VDouble d)
  then show ?thesis
    using assms(1) double.written [of "libc_of P" d h]
    by (auto simp: write_value.simps text_ok_def add.commute)
next
  case (VFloat d)
  then show ?thesis
    using assms(1) float.written [of "libc_of P" d h]
    by (auto simp: write_value.simps text_ok_def add.commute)
qed (use assms in \<open>auto simp: write_value.simps boolean.writer_eq int.writer_eq uint.writer_eq
      long.writer_eq ulong.writer_eq int64.writer_eq uint64.writer_eq char.writer_eq uchar.writer_eq\<close>)

lemma write_props_returns:
  assumes V: "\<And>v path. value_ok P (object_ok P n) v \<Longrightarrow> storable P v \<Longrightarrow> value_size P f v < 2 ^ 32 \<Longrightarrow>
      \<exists>buf. write_value P h junk n path v Loc Loc = Inr (Some (buf, of_nat (length buf)))
        \<and> length buf = value_size P f v"
    and "params_ok P n ob params" "stored_size P f ob params < 2 ^ 32"
  shows "\<exists>new t. write_props P h junk n path ob params cs0 j = Inr (new @ cs0, t) \<and>
    length (wire_chunks new) = stored_size P f ob params"
  using assms(2,3)
proof (induction params arbitrary: cs0 j)
  case Nil
  then show ?case by (simp add: stored_size_def)
next
  case (Cons p params)
  obtain name pt where p: "p = (name, pt)" by (cases p)
  let ?v = "get_property P ob name"
  have ok: "params_ok P n ob params" using Cons.prems(1) by (simp add: params_ok_def)
  show ?case
  proof (cases "can_serialize_type P pt \<and> storable P ?v")
    case False
    then have "write_props P h junk n path ob (p # params) cs0 j = write_props P h junk n path ob params cs0 j"
      using not_storable_writes_nothing [of P ?v h junk n "path @ [name]"] by (auto simp: p)
    moreover have "stored_size P f ob (p # params) = stored_size P f ob params"
      using False by (auto simp: stored_size_def p)
    ultimately show ?thesis using Cons.IH [OF ok] Cons.prems(2) by simp
  next
    case True
    then have size: "stored_size P f ob (p # params) =
        6 + length name + value_size P f ?v + stored_size P f ob params"
      by (simp add: stored_size_def p)
    have "value_ok P (object_ok P n) ?v" using True Cons.prems(1) by (simp add: params_ok_def p)
    then obtain buf where w: "write_value P h junk n (path @ [name]) ?v Loc Loc = Inr (Some (buf, of_nat (length buf)))"
      and l: "length buf = value_size P f ?v"
      using V True size Cons.prems(2) by (metis add_lessD1 add.commute)
    let ?c = "\<lparr>key = name @ [0], key_length = of_nat (length name + 1), chunk_value = buf,
      value_length = of_nat (length buf)\<rparr>"
    obtain new t where "write_props P h junk n path ob params (?c # cs0)
        (j + (1 + of_nat (length name + 1) + 4 + of_nat (length buf))) = Inr (new @ ?c # cs0, t)"
      and "length (wire_chunks new) = stored_size P f ob params"
      using Cons.IH [OF ok] Cons.prems(2) size by (metis add_lessD1 add.commute)
    then show ?thesis
      using True w l size by (intro exI [of _ "new @ [?c]"]) (simp add: p length_wire_chunk)
  qed
qed

lemma object_writer_returns:
  assumes ok: "object_ok P (Suc n) ob" and size: "object_size P (Suc n) ob < 2 ^ 32"
    and V: "\<And>v path. value_ok P (object_ok P n) v \<Longrightarrow> storable P v \<Longrightarrow> serialized_size P n v < 2 ^ 32 \<Longrightarrow>
      \<exists>buf. write_value P h (\<lambda>_. 0) n path v Loc Loc = Inr (Some (buf, of_nat (length buf)))
        \<and> length buf = serialized_size P n v"
  shows "\<exists>buf. write_object P h (\<lambda>_. 0) (Suc n) path (Some ob) Loc Loc =
    Inr (Some (buf, of_nat (length buf))) \<and> length buf = object_size P (Suc n) ob"
proof -
  let ?T = "type_from_instance P ob"
  let ?ps = "list_properties P ?T" and ?name = "g_type_name P ?T"
  let ?hd = "object_header ?name" and ?hl = "header_size ?name"
  have name: "name_ok ?name" and ps: "params_ok P n ob ?ps"
    using ok by (simp_all add: object_ok_Suc type_ok_def)
  have sz: "object_size P (Suc n) ob = length ?hd + (stored_size P (object_size P n) ob ?ps + 1)"
    by (simp add: Let_def length_object_header)
  obtain new t where w: "write_props P h (\<lambda>_. 0) n path ob ?ps [] ?hl = Inr (new, t)"
    and l: "length (wire_chunks new) = stored_size P (object_size P n) ob ?ps"
    using write_props_returns [OF V [unfolded serialized_size_def] ps, of path "[]" ?hl] size sz by auto
  have RB: "reads_back P buf len (rebuild_with P (rebuild_object P n) v)"
    if "write_value P h (\<lambda>_. 0) n path v Loc Loc = Inr (Some (buf, len))" "value_ok P (object_ok P n) v"
    for v path buf len
    using written_reads_back [OF that(1)] that(2) by (simp add: rebuild_def encodable_def)
  from write_props_read_back [OF RB ps w] have
    ck: "list_all chunk_ok new" and t: "t = ?hl + of_nat (length (wire_chunks new))" by auto
  let ?L = "length ?hd + (length (wire_chunks new) + 1)"
  have small: "?L < 2 ^ 32" using size sz l by simp
  have "t + 1 = of_nat (unat ?hl + (length (wire_chunks new) + 1))" by (simp add: t)
  then have T: "t + 1 = of_nat ?L" by (simp only: name_ok_length(2) [OF name])
  then have uT: "unat (t + 1) = ?L" using small by (simp only: unat_of_nat_guint)
  have st: "store_bytes (zeroed (unat (t + 1))) 0 ?hd = Inr (?hd @ zeroed (length (wire_chunks new) + 1))"
    using store_bytes_append [of "[]" 0 ?hd ?L] by (simp add: uT)
  have em: "emit_chunks h (?hd @ zeroed (length (wire_chunks new) + 1)) ?hl new =
      Inr (?hd @ wire_chunks new @ zeroed 1)"
    using emit_chunks_ok [OF ck, of ?hd ?hl "length (wire_chunks new) + 1" h] small
    by (simp add: name_ok_length(2) [OF name])
  have "write_object P h (\<lambda>_. 0) (Suc n) path (Some ob) Loc Loc =
      Inr (Some (?hd @ wire_chunks new @ zeroed 1, of_nat ?L))"
    unfolding write_object_header [OF name] add_0 w c_bind.simps prod.case st em unfolding T ..
  then show ?thesis using l sz by simp
qed

theorem writer_returns:
  assumes "encodable P n v" "storable P v" "serialized_size P n v < 2 ^ 32"
  shows "\<exists>buf. write_value P h (\<lambda>_. 0) n path v Loc Loc = Inr (Some (buf, of_nat (length buf)))
    \<and> length buf = serialized_size P n v"
  using assms unfolding encodable_def
proof (induction n arbitrary: path v)
  case 0
  show ?case
  proof (cases "\<exists>t p. v = VObject t p")
    case True
    then obtain t p where "v = VObject t p" by blast
    with 0 show ?thesis by (cases p) auto
  next
    case False
    then show ?thesis using 0 unfolding serialized_size_def by (intro scalar_writer_returns) auto
  qed
next
  case (Suc n)
  show ?case
  proof (cases "\<exists>t p. v = VObject t p")
    case True
    then obtain t p where "v = VObject t p" by blast
    with Suc.prems(2) obtain ob where v: "v = VObject t (Some ob)" by (cases p) auto
    then have "write_value P h (\<lambda>_. 0) (Suc n) path v Loc Loc =
        write_object P h (\<lambda>_. 0) (Suc n) path (Some ob) Loc Loc"
      using Suc.prems(2) by (simp add: write_value.simps)
    then show ?thesis
      using object_writer_returns [of P n ob h path] Suc v by (simp add: serialized_size_def)
  next
    case False
    then show ?thesis using Suc.prems unfolding serialized_size_def by (intro scalar_writer_returns) auto
  qed
qed

end
