(* ===== verification/Formatter_Properties.thy ===== *)
theory Formatter_Properties
  imports Formatter_Roundtrip "HOL-Library.AList"
begin

text \<open>
  What the binary formatter promises, property by property: the scalar pairs through their
  interpretations of \<open>wire_codec\<close>, strings, numbers, whole values and objects, the
  \<^verbatim>\<open>serialize\<close>/\<^verbatim>\<open>deserialize\<close> methods, and the inputs on which the code faults.

  The witnesses use \<open>mock_platform\<close>, an object system with one class, \<^verbatim>\<open>MockPerson\<close>, that
  has an \<^verbatim>\<open>age\<close>, a \<^verbatim>\<open>name\<close> and a \<^verbatim>\<open>friend\<close>, and keeps its properties in a list.
\<close>

section \<open>Serialize and deserialize\<close>

lemma real_serialize_storable:
  assumes "write_value P h junk n [] v Loc Loc = Inr (Some (b, l))" "unat l = length b" "unat l + 2 < 2 ^ 32"
  shows "real_serialize P h junk n v = Inr (True, 1 # 0 # b, ucast (l + 2))"
proof -
  have u: "unat (2 + l) = Suc (Suc (unat l))"
    using assms(3) unat_guint_add [of 2 l] by simp
  have h1: "store_byte (zeroed (unat (2 + l))) 0 1 = Inr (1 # zeroed (Suc (unat l)))"
    unfolding u by (rule store_type_code)
  have h2: "store_byte (1 # zeroed (Suc (unat l))) 1 0 = Inr ([1, 0] @ zeroed (unat l))"
    using store_byte_append [of "[1]" 1 "unat l" 0] by simp
  have h3: "store_bytes ([1, 0] @ zeroed (unat l)) 2 b = Inr (1 # 0 # b)"
    using store_bytes_append [of "[1, 0]" 2 b "unat l"] assms(2) by simp
  have ld: "load_bytes b 0 (unat l) = Inr b" by (rule load_bytes_whole) (simp add: assms(2))
  show ?thesis
    unfolding real_serialize_def assms(1) c_bind.simps Let_def option.case prod.case h1 h2 ld h3 ..
qed

lemma ucast_minus_2:
  fixes l :: guint
  assumes "unat l + 2 < 2 ^ 32"
  shows "ucast (ucast (l + 2) - 2 :: 64 word) = l"
proof -
  have u: "unat (l + 2) = unat l + 2" using assms by (subst unat_guint_add) simp_all
  have "ucast (l + 2) = (of_nat (unat (l + 2)) :: 64 word)" by simp
  then have "ucast (l + 2) - 2 = (ucast l :: 64 word)" unfolding u by simp
  moreover have "ucast (ucast l :: 64 word) = l" by (rule bit_word_eqI) (simp add: bit_ucast_iff)
  ultimately show ?thesis by simp
qed

lemma deserialize_serialized:
  assumes "reads_back P b l w" "unat l + 2 < 2 ^ 32"
  shows "real_deserialize P h (Some VUnset) (1 # 0 # b @ rest) (ucast (l + 2)) = Inr (True, Some w, None)"
  using assms by (simp add: real_deserialize_def load_first ucast_minus_2 reads_back_def)

section \<open>The mock object system\<close>

datatype mock = Mock gtype "(bytes \<times> mock gvalue) list"

fun mock_type :: "mock \<Rightarrow> gtype" where
  "mock_type (Mock t ps) = t"

fun mock_get :: "mock \<Rightarrow> bytes \<Rightarrow> mock gvalue" where
  "mock_get (Mock t ps) n = (case map_of ps n of None \<Rightarrow> VUnset | Some v \<Rightarrow> v)"

fun mock_set :: "mock \<Rightarrow> bytes \<Rightarrow> mock gvalue \<Rightarrow> mock" where
  "mock_set (Mock t ps) n v = Mock t (AList.update n v ps)"

definition mock_libc :: libc where
  "mock_libc = \<lparr>printf_double = \<lambda>d. [48], printf_float = \<lambda>d. [48],
     strtod = \<lambda>s. (0, False), strtof = \<lambda>s. (0, False)\<rparr>"

definition person_type :: gtype where
  "person_type = G_TYPE_USER 1"

definition mock_platform :: "mock platform" where
  "mock_platform = \<lparr>libc_of = mock_libc,
     g_type_is_a = (\<lambda>t u. t = person_type \<and> (u = person_type \<or> u = G_TYPE_OBJECT)),
     g_type_name = (\<lambda>t. if t = person_type then [77, 80] else [63]),
     g_type_from_name = (\<lambda>s. if s = [77, 80] then person_type else G_TYPE_INVALID),
     type_from_instance = mock_type,
     list_properties = (\<lambda>t. [([97], G_TYPE_INT), ([110], G_TYPE_STRING), ([102], person_type)]),
     get_property = mock_get,
     object_new = (\<lambda>t. Mock t []),
     set_property = mock_set\<rparr>"

definition mock_person :: mock where
  "mock_person = Mock person_type
     [([97], VInt 7), ([110], VString (Some [65, 66])),
      ([102], VObject person_type (Some (Mock person_type [([97], VInt 8), ([110], VString None)])))]"

definition mock_value :: "mock gvalue" where
  "mock_value = VObject person_type (Some mock_person)"

lemmas mock_defs = mock_platform_def mock_libc_def mock_person_def mock_value_def person_type_def

lemma mock_encodable: "encodable mock_platform (Suc (Suc 0)) mock_value"
  by (simp add: encodable_def mock_defs object_ok_Suc params_ok_def type_ok_def
      name_ok_def text_ok_def)

lemma mock_storable: "storable mock_platform mock_value"
  by (simp add: mock_defs)

lemma mock_size: "serialized_size mock_platform (Suc (Suc 0)) mock_value = 70"
  by (simp add: serialized_size_def mock_defs stored_size_def can_serialize_type_def)

section \<open>Lemmas towards the properties\<close>

lemma emit_chunks_host: "emit_chunks h buf offset cs = emit_chunks h' buf offset cs"
  by (induction cs arbitrary: buf offset) (simp_all add: Let_def mem_repr_to_be)

lemma write_string_host: "write_string h v n b l = write_string h' v n b l"
  by (simp add: write_string_def mem_repr_to_be)

lemma write_scalar_host:
  "write_int h i b l = write_int h' i b l"
  "write_uint h i b l = write_uint h' i b l"
  "write_long h g b l = write_long h' g b l"
  "write_ulong h g b l = write_ulong h' g b l"
  "write_int64 h g b l = write_int64 h' g b l"
  "write_uint64 h g b l = write_uint64 h' g b l"
  by (rule int.host_independent uint.host_independent long.host_independent ulong.host_independent
      int64.host_independent uint64.host_independent)+

lemma write_number_host:
  "write_double L h d b l = write_double L h' d b l"
  "write_float L h f b l = write_float L h' f b l"
  by (simp_all add: write_double_def write_float_def write_string_host [of h _ _ _ _ h'])

lemma write_props_host:
  assumes "\<And>path v. write_value P h junk n path v Loc Loc = write_value P h' junk n path v Loc Loc"
  shows "write_props P h junk n path ob params chunks tot = write_props P h' junk n path ob params chunks tot"
proof (induction params arbitrary: chunks tot)
  case (Cons p params)
  then show ?case by (cases p) (auto simp: assms Let_def intro!: arg_cong2 [where f = c_bind] ext split: option.split)
qed simp

lemma write_value_host_step:
  assumes "\<And>path ob. write_object P h junk n path (Some ob) b l = write_object P h' junk n path (Some ob) b l"
  shows "write_value P h junk n path v b l = write_value P h' junk n path v b l"
proof (cases v)
  case (VObject t p)
  then show ?thesis using assms by (cases p) (simp_all add: write_value.simps write_object.simps(1))
qed (simp_all add: write_value.simps write_scalar_host [of h _ _ _ h']
    write_number_host [of _ h _ _ _ h'] write_string_host [of h _ _ _ _ h'])

lemma write_object_host:
  "write_object P h junk n path (Some ob) b l = write_object P h' junk n path (Some ob) b l"
proof (induction n arbitrary: path ob b l)
  case (Suc n)
  have "write_props P h junk n path ob params chunks tot = write_props P h' junk n path ob params chunks tot"
    for path ob params chunks tot
    by (intro write_props_host write_value_host_step) (rule Suc.IH)
  then show ?case by (simp add: write_object.simps Let_def emit_chunks_host [of h _ _ _ h'])
qed (simp add: write_object.simps)

lemma write_value_host: "write_value P h junk n path v b l = write_value P h' junk n path v b l"
  by (rule write_value_host_step) (rule write_object_host)

text \<open>What the property loop does on a chunk whose key is as long as the type of its length field.\<close>

lemma read_props_end: "read_props P h ob (0 # rest) = Inr ob"
  by (simp add: read_props.simps(2))

lemma storable_written:
  assumes "encodable P n v" "storable P v" "serialized_size P n v + 2 < 2 ^ 32"
  obtains b where "write_value P h (\<lambda>_. 0) n [] v Loc Loc = Inr (Some (b, of_nat (length b)))"
    "length b = serialized_size P n v" "unat (of_nat (length b) :: guint) = length b"
    "reads_back P b (of_nat (length b)) (rebuild P n v)"
proof -
  obtain b where w: "write_value P h (\<lambda>_. 0) n [] v Loc Loc = Inr (Some (b, of_nat (length b)))"
    and l: "length b = serialized_size P n v"
    using writer_returns [OF assms(1,2), of h "[]"] assms(3) by auto
  have "unat (of_nat (length b) :: guint) = length b" using l assms(3) by (subst unat_of_nat_guint) simp_all
  moreover have "reads_back P b (of_nat (length b)) (rebuild P n v)"
    by (rule written_reads_back [OF w assms(1)]) simp
  ultimately show ?thesis using that w l by blast
qed

lemma get_rebuilt:
  assumes "\<And>x n v m. get_property P (set_property P x n v) m = (if m = n then v else get_property P x m)"
    and "(name, t) \<in> set params" "can_serialize_type P t" "storable P (get_property P ob name)"
  shows "get_property P (set_stored P n ob params ob0) name = rebuild P n (get_property P ob name)"
  using assms(2)
proof (induction params)
  case (Cons p params)
  obtain name' t' where p: "p = (name', t')" by (cases p)
  show ?case
  proof (cases "(name, t) \<in> set params")
    case True
    then show ?thesis using Cons.IH by (auto simp: set_stored_def p assms(1) rebuild_def)
  next
    case False
    with Cons.prems have "name' = name" "t' = t" by (auto simp: p)
    then show ?thesis using assms(3,4) by (simp add: set_stored_def p assms(1) rebuild_def)
  qed
qed simp

lemma mock_get_set: "mock_get (mock_set ob n v) m = (if m = n then v else mock_get ob m)"
  by (cases ob) (simp add: update_conv)

lemma big_junk_faults:
  assumes "type_ok P (type_from_instance P ob)" "params_ok P n ob (list_properties P (type_from_instance P ob))"
    and "\<And>p. junk p \<noteq> - 1"
    and big: "2 ^ 32 \<le> unat (junk path) + (length (g_type_name P (type_from_instance P ob)) + 4)"
  shows "\<exists>e. write_object P h junk (Suc n) path (Some ob) Loc Loc = Inl e"
proof (rule ccontr)
  let ?T = "type_from_instance P ob"
  assume "\<nexists>e. write_object P h junk (Suc n) path (Some ob) Loc Loc = Inl e"
  then obtain r where r: "write_object P h junk (Suc n) path (Some ob) Loc Loc = Inr r"
    by (metis sum.exhaust)
  then obtain buf len where w: "write_object P h junk (Suc n) path (Some ob) Loc Loc = Inr (Some (buf, len))"
    using write_object_returns [OF r] by auto
  have RB: "reads_back P buf len (rebuild_with P (rebuild_object P n) v)"
    if "write_value P h junk n path v Loc Loc = Inr (Some (buf, len))" "value_ok P (object_ok P n) v"
    for v path buf len
    using written_reads_back [OF that(1) _ assms(3)] that(2) by (simp add: rebuild_def encodable_def)
  obtain cs m where "unat len = length buf" "junk path = of_nat m"
    "buf = object_header (g_type_name P ?T) @ wire_chunks cs @ zeroed (Suc m)"
    using written_object_bytes [OF w, where Q = "\<lambda>_. True"] write_props_read_back [OF RB assms(2)]
      assms(1,3) unfolding type_ok_def by fastforce
  then have "length (g_type_name P ?T) + 4 + m \<le> unat len" "unat (junk path) \<le> m"
    by (simp_all add: length_object_header unat_of_nat take_bit_eq_mod)
  then show False using big unat_guint_less [of len] by simp
qed

section \<open>Properties of values and objects\<close>

lemma serialized_reads_back:
  assumes "encodable P n v" "storable P v" "serialized_size P n v + 2 < 2 ^ 32"
  shows "\<exists>buf len. real_serialize P h (\<lambda>_. 0) n v = Inr (True, buf, len)
    \<and> length buf = serialized_size P n v + 2
    \<and> (\<forall>h' rest. real_deserialize P h' (Some VUnset) (buf @ rest) len =
          Inr (True, Some (rebuild P n v), None))"
proof -
  obtain b where w: "write_value P h (\<lambda>_. 0) n [] v Loc Loc = Inr (Some (b, of_nat (length b)))"
    and l: "length b = serialized_size P n v" and u: "unat (of_nat (length b) :: guint) = length b"
    and rb: "reads_back P b (of_nat (length b)) (rebuild P n v)"
    using storable_written [OF assms] by blast
  show ?thesis
    using real_serialize_storable [OF w u] deserialize_serialized [OF rb] assms(3) l u by auto
qed



text \<open>
  C28: \<^verbatim>\<open>write_object\<close> adds to \<^verbatim>\<open>total\<close> without having set it. Whatever value but
  \<^verbatim>\<open>0xFFFFFFFF\<close> it starts with in each nested call, if the writer returns at all then every
  reader recovers the value from the bytes it returned: the surplus only pads.
\<close>

theorem any_initial_total_reads_back:
  assumes "write_value P h junk n path v Loc Loc = Inr (Some (buf, len))"
    and "encodable P n v" "\<And>p. junk p \<noteq> - 1"
  shows "unat len = length buf \<and>
    read_value P h' (Some VUnset) (Some (buf @ rest)) len = Inr (True, Some (rebuild P n v), None)"
  using written_reads_back [OF assms] by (simp_all add: reads_back_def)

theorem any_initial_total_reads_back_witness:
  "read_value mock_platform Big (Some VUnset)
     (Some ([15, 3, 77, 80, 0, 2, 97, 0, 0, 0, 0, 5, 4, 0, 0, 0, 7, 0, 0, 0] @ [1])) 20 =
   Inr (True, Some (rebuild mock_platform (Suc 0) (VObject person_type (Some (Mock person_type [([97], VInt 7)])))), None)"
proof -
  let ?v = "VObject person_type (Some (Mock person_type [([97], VInt 7)]))"
  have w: "write_value mock_platform Little (\<lambda>_. 2) (Suc 0) [] ?v Loc Loc =
    Inr (Some ([15, 3, 77, 80, 0, 2, 97, 0, 0, 0, 0, 5, 4, 0, 0, 0, 7, 0, 0, 0], 20))"
    by code_simp
  have e: "encodable mock_platform (Suc 0) ?v"
    by (simp add: encodable_def mock_defs object_ok_Suc params_ok_def type_ok_def name_ok_def)
  have j: "(2 :: guint) \<noteq> - 1" by code_simp
  show ?thesis using any_initial_total_reads_back [OF w e j] by (rule conjunct2)
qed



lemma rebuilt_properties:
  assumes "\<And>x n v m. get_property P (set_property P x n v) m = (if m = n then v else get_property P x m)"
    and "(name, t) \<in> set (stored_properties P ob)"
  shows "get_property P (rebuild_object P (Suc n) ob) name = rebuild P n (get_property P ob name)"
  using assms by (auto simp: rebuild_object_Suc stored_properties_def intro!: get_rebuilt)



text \<open>
  C34: the bytes do not depend on the byte order of the host that writes them.
\<close>

theorem write_value_host_independent:
  "write_value P h junk n path v b l = write_value P h' junk n path v b l"
  by (rule write_value_host)

text \<open>
  C38: \<^verbatim>\<open>serialize\<close> returns \<^verbatim>\<open>TRUE\<close> for a value it has no bytes for (an unset value, a \<^verbatim>\<open>NULL\<close>
  object, an unsupported type) with a bare version header, and deserialising that header
  reads beyond its end.
\<close>

theorem unserialisable_value_accepted:
  assumes "\<not> storable P v"
  shows "real_serialize P h junk n v = Inr (True, [1, 0], 2) \<and>
    real_deserialize P h' (Some v0) [1, 0] 2 = Inl Out_Of_Bounds"
proof
  have h1: "store_byte (zeroed 2) 0 1 = Inr (1 # zeroed (Suc 0))"
    using store_type_code [of "Suc 0" 1] by (simp only: numeral_2_eq_2)
  show "real_serialize P h junk n v = Inr (True, [1, 0], 2)"
    using not_storable_writes_nothing [OF assms, of h junk n "[]"]
    by (simp add: real_serialize_def h1 store_one_byte load_bytes_def store_bytes_def)
  show "real_deserialize P h' (Some v0) [1, 0] 2 = Inl Out_Of_Bounds"
    by (simp add: real_deserialize_def load_byte_def read_value.simps(3))
qed

theorem unserialisable_value_accepted_witness:
  "real_serialize mock_platform Little (\<lambda>_. 0) 0 (VObject person_type None) = Inr (True, [1, 0], 2)
   \<and> real_deserialize mock_platform Little (Some VUnset) [1, 0] 2 = Inl Out_Of_Bounds"
  by (rule unserialisable_value_accepted) simp

section \<open>Properties of the readers on foreign input\<close>

text \<open>
  C39: a stored property whose value has an unknown type code makes \<^verbatim>\<open>read_object\<close> abort the
  process (\<^verbatim>\<open>g_error\<close>), where its documentation promises \<^verbatim>\<open>FALSE\<close> and an error.
\<close>

theorem unknown_property_type_aborts:
  assumes "type_ok P T" "name_ok name" "code \<notin> {1, 2, 3, 4, 5, 6, 7, 8, 14, 15, 130, 131, 132, 133, 134}"
  shows "read_object P h (Some ob0)
    (Some (object_header (g_type_name P T) @ of_nat (length name + 1) # name @ 0 #
       be_bytes (1 :: guint) @ code # rest)) len = Inl Process_Abort"
proof -
  let ?c = "\<lparr>key = name @ [0], key_length = of_nat (length name + 1), chunk_value = [code], value_length = 1\<rparr>"
  have k: "unat (of_nat (length name + 1) :: guint) = length name + 1"
    using assms(2) unfolding name_ok_def by (subst unat_of_nat_guint) simp_all
  have c: "chunk_ok ?c" using k by (simp add: chunk_ok_def del: of_nat_add)
  have "ucast (of_nat (length name + 1) :: guint) = (of_nat (length name + 1) :: byte)"
    by (rule unsigned_word_eqI [where ?'a = nat])
       (simp add: unsigned_ucast_eq unsigned_of_nat del: of_nat_add of_nat_Suc)
  then have w: "of_nat (length name + 1) # name @ 0 # be_bytes (1 :: guint) @ code # rest = wire_chunk ?c @ rest"
    by (simp add: wire_chunk_def)
  have "read_value P h (Some VUnset) (Some (chunk_value ?c @ rest)) (value_length ?c) =
      Inr (False, Some VUnset, None)"
    using assms(3) by (simp add: read_value.simps(3) load_first)
  then show ?thesis
    unfolding w read_object_header [OF assms(1)]
    by (subst read_props_step [OF assms(2) _ c]) simp_all
qed

theorem unknown_property_type_aborts_witness:
  "read_object mock_platform Little (Some None)
    (Some (object_header [77, 80] @ 2 # 97 # 0 # [0, 0, 0, 1] @ [99])) 20 = Inl Process_Abort"
proof -
  have t: "type_ok mock_platform person_type" and n: "name_ok [97]"
    by (simp_all add: type_ok_def name_ok_def mock_defs)
  have "be_bytes (1 :: guint) = [0, 0, 0, 1]" by code_simp
  then show ?thesis
    using unknown_property_type_aborts [OF t n, of 99 Little None "[]" 20] by (simp add: mock_defs)
qed



text \<open>
  \<^verbatim>\<open>read_value\<close> on a number whose buffer has the wrong length returns \<^verbatim>\<open>FALSE\<close> with no error
  set, and leaves a zero of that type in the value.
\<close>

theorem wrong_length_fails_silently:
  assumes "n \<noteq> 5"
  shows "read_value P h (Some VUnset) (Some (BINARY_FORMATTER_TYPE_INT # bs)) n = Inr (False, Some (VInt 0), None)"
  using assms by (simp add: read_value.simps(3) load_first read_int_def)

theorem wrong_length_fails_silently_witness:
  "read_value mock_platform Little (Some VUnset) (Some [BINARY_FORMATTER_TYPE_INT, 1, 2, 3]) 4 = Inr (False, Some (VInt 0), None)"
  by (rule wrong_length_fails_silently) simp

text \<open>
  A stream of an unknown version is refused with \<^verbatim>\<open>BAD_DATA\<close>, and the value is left alone.
\<close>

theorem unknown_version_refused:
  assumes "version \<noteq> 1"
  shows "real_deserialize P h v0 (version # bs) len = Inr (False, v0, Some BAD_DATA)"
  using assms by (simp add: real_deserialize_def load_first)

theorem unknown_version_refused_witness:
  "real_deserialize mock_platform Little (Some VUnset) [2, 0] 2 = Inr (False, Some VUnset, Some BAD_DATA)"
  by (rule unknown_version_refused) simp

end
