(* ===== verification/Interfaces.thy ===== *)
theory Interfaces
  imports Formatter_Types
begin

text \<open>
  The two interfaces a storage is configured with, from \<^verbatim>\<open>catalina/catalina-formatter.c\<close> and
  \<^verbatim>\<open>catalina/catalina-transform.c\<close>: a formatter turns \<^verbatim>\<open>GValue\<close>s into buffers and back, a
  transform turns buffers into buffers and back. An instance is its table of methods; the
  public functions dispatch through it.

  The locales state what a client of an instance may rely on, and the lemmas a client needs
  are proved from them once.
\<close>

type_synonym gsize = "64 word"

section \<open>Errors\<close>

text \<open>The \<^verbatim>\<open>GError\<close>s of the library, by domain and code.\<close>

datatype gerror =
    STORAGE_ERROR_STATE | STORAGE_ERROR_DB | STORAGE_ERROR_NO_SUCH_KEY | STORAGE_ERROR_NO_SUCH_TXN
  | FORMATTER_ERROR formatter_error
  | ZLIB_TRANSFORM_ERROR_ZLIB

section \<open>Transforms\<close>

text \<open>
  A method of a transform returns \<^verbatim>\<open>TRUE\<close> with a buffer and a length, or \<^verbatim>\<open>FALSE\<close> with an error,
  its out-locations untouched.
\<close>

datatype transform_out = Transformed "bytes option" gsize | Transform_Failed gerror

record transform_iface =
  transform_iface_read :: "bytes option \<Rightarrow> gsize \<Rightarrow> transform_out result"
  transform_iface_write :: "bytes option \<Rightarrow> gsize \<Rightarrow> transform_out result"

definition catalina_transform_read :: "transform_iface \<Rightarrow> bytes option \<Rightarrow> gsize \<Rightarrow> transform_out result" where
  "catalina_transform_read transform input input_length =
     transform_iface_read transform input input_length"

definition catalina_transform_write :: "transform_iface \<Rightarrow> bytes option \<Rightarrow> gsize \<Rightarrow> transform_out result" where
  "catalina_transform_write transform input input_length =
     transform_iface_write transform input input_length"

text \<open>
  What a storage relies on: a buffer in the domain of the transform is written to some
  non-empty block, and that block is read back as the buffer; an empty one as nothing.
\<close>

locale transform_contract =
  fixes transform :: transform_iface
    and domain :: "bytes \<Rightarrow> bool"
  assumes written: "domain bs \<Longrightarrow> \<exists>out p.
      catalina_transform_write transform (Some bs) (of_nat (length bs)) =
        Inr (Transformed (Some out) (of_nat (length out))) \<and>
      out \<noteq> [] \<and> length out < 2 ^ 64 \<and>
      catalina_transform_read transform (Some out) (of_nat (length out)) =
        Inr (Transformed p (of_nat (length bs))) \<and> (bs \<noteq> [] \<longrightarrow> p = Some bs)"
    and domain_length: "domain bs \<Longrightarrow> length bs < 2 ^ 64"
begin

definition written_form :: "bytes \<Rightarrow> bytes" where
  "written_form bs = (THE out. catalina_transform_write transform (Some bs) (of_nat (length bs)) =
     Inr (Transformed (Some out) (of_nat (length out))))"

lemma written_form:
  assumes "domain bs"
  shows "catalina_transform_write transform (Some bs) (of_nat (length bs)) =
      Inr (Transformed (Some (written_form bs)) (of_nat (length (written_form bs)))) \<and>
    written_form bs \<noteq> [] \<and> length (written_form bs) < 2 ^ 64 \<and>
    (\<exists>p. catalina_transform_read transform (Some (written_form bs)) (of_nat (length (written_form bs))) =
      Inr (Transformed p (of_nat (length bs))) \<and> (bs \<noteq> [] \<longrightarrow> p = Some bs))"
proof -
  obtain out p where o: "catalina_transform_write transform (Some bs) (of_nat (length bs)) =
      Inr (Transformed (Some out) (of_nat (length out)))" "out \<noteq> []" "length out < 2 ^ 64"
      "catalina_transform_read transform (Some out) (of_nat (length out)) =
        Inr (Transformed p (of_nat (length bs)))" "bs \<noteq> [] \<longrightarrow> p = Some bs"
    using written [OF assms] by blast
  then have "written_form bs = out" unfolding written_form_def by (intro the_equality) auto
  with o show ?thesis by blast
qed

lemma written_inj:
  assumes "domain a" "domain b" "a \<noteq> []" "b \<noteq> []" "written_form a = written_form b"
  shows "a = b"
  using written_form [OF assms(1)] written_form [OF assms(2)] assms(3-5) by auto

end

section \<open>Formatters\<close>

record 'o formatter_iface =
  formatter_iface_serialize :: "'o gvalue \<Rightarrow> (bool \<times> bytes \<times> gsize) result"
  formatter_iface_deserialize :: "'o gvalue option \<Rightarrow> bytes \<Rightarrow> gsize
    \<Rightarrow> (bool \<times> 'o gvalue option \<times> formatter_error option) result"

definition catalina_formatter_serialize :: "'o formatter_iface \<Rightarrow> 'o gvalue \<Rightarrow> (bool \<times> bytes \<times> gsize) result" where
  "catalina_formatter_serialize formatter v = formatter_iface_serialize formatter v"

definition catalina_formatter_deserialize :: "'o formatter_iface \<Rightarrow> 'o gvalue option \<Rightarrow> bytes \<Rightarrow> gsize
    \<Rightarrow> (bool \<times> 'o gvalue option \<times> formatter_error option) result" where
  "catalina_formatter_deserialize formatter v buffer buffer_length =
     formatter_iface_deserialize formatter v buffer buffer_length"

text \<open>
  What a storage relies on: a value in the domain of the formatter is serialised to a buffer
  of the length that is reported, from which an unset \<^verbatim>\<open>GValue\<close> is filled with \<open>image v\<close>.
\<close>

locale formatter_contract =
  fixes formatter :: "'o formatter_iface"
    and domain :: "'o gvalue \<Rightarrow> bool"
    and image :: "'o gvalue \<Rightarrow> 'o gvalue"
  assumes serialized: "domain v \<Longrightarrow> \<exists>buf.
      catalina_formatter_serialize formatter v = Inr (True, buf, of_nat (length buf)) \<and>
      buf \<noteq> [] \<and> length buf < 2 ^ 32 \<and>
      catalina_formatter_deserialize formatter (Some VUnset) buf (of_nat (length buf)) =
        Inr (True, Some (image v), None)"
begin

lemma distinct_images_distinct_buffers:
  assumes "domain u" "domain v"
    and "catalina_formatter_serialize formatter u = catalina_formatter_serialize formatter v"
  shows "image u = image v"
  using serialized [OF assms(1)] serialized [OF assms(2)] assms(3) by auto

end

end
