(* ===== verification/Formatter_Interface.thy ===== *)
theory Formatter_Interface
  imports Formatter_Properties Interfaces
begin

text \<open>
  The binary formatter as an instance of the formatter interface
  (\<^verbatim>\<open>catalina_binary_formatter_base_init\<close>), and the contract it satisfies.
\<close>

definition binary_formatter_base_init :: "('o, 'z) platform_scheme \<Rightarrow> endian \<Rightarrow> (bytes list \<Rightarrow> guint) \<Rightarrow> nat
    \<Rightarrow> 'o formatter_iface" where
  "binary_formatter_base_init P h junk depth =
     \<lparr>formatter_iface_serialize = real_serialize P h junk depth,
      formatter_iface_deserialize = real_deserialize P h\<rparr>"

definition formatter_domain :: "('o, 'z) platform_scheme \<Rightarrow> nat \<Rightarrow> 'o gvalue \<Rightarrow> bool" where
  "formatter_domain P depth v \<longleftrightarrow>
     encodable P depth v \<and> storable P v \<and> serialized_size P depth v + 2 < 2 ^ 32"

lemma serialize_in_domain:
  assumes "formatter_domain P n v"
  shows "\<exists>buf. real_serialize P h (\<lambda>_. 0) n v = Inr (True, buf, of_nat (length buf)) \<and>
    buf \<noteq> [] \<and> length buf < 2 ^ 32 \<and> length buf = serialized_size P n v + 2 \<and>
    real_deserialize P h' (Some VUnset) buf (of_nat (length buf)) = Inr (True, Some (rebuild P n v), None)"
proof -
  obtain b where w: "write_value P h (\<lambda>_. 0) n [] v Loc Loc = Inr (Some (b, of_nat (length b)))"
    and l: "length b = serialized_size P n v" and u: "unat (of_nat (length b) :: guint) = length b"
    and rb: "reads_back P b (of_nat (length b)) (rebuild P n v)"
    using storable_written assms unfolding formatter_domain_def by blast
  have small: "length b + 2 < 2 ^ 32" using l assms by (simp add: formatter_domain_def)
  then have "unat (of_nat (length b) + 2 :: guint) = length b + 2"
    using unat_of_nat_guint [of "length b + 2"] by (simp add: add.commute [of _ 2])
  then have "unat (ucast (of_nat (length b) + 2 :: guint) :: gsize) = length b + 2"
    using small by (simp add: unsigned_ucast_eq take_bit_nat_eq_self)
  then have len: "ucast (of_nat (length b) + 2 :: guint) = (of_nat (length (1 # 0 # b)) :: gsize)"
    by (metis add_2_eq_Suc' length_Cons of_nat_unat ucast_id)
  show ?thesis
    using real_serialize_storable [OF w] deserialize_serialized [OF rb, of h' "[]"] u small
    unfolding len by (intro exI [of _ "1 # 0 # b"]) (simp add: l)
qed

interpretation binary_formatter: formatter_contract "binary_formatter_base_init P h (\<lambda>_. 0) depth"
  "formatter_domain P depth" "rebuild P depth" for P h depth
  by unfold_locales
    (use serialize_in_domain in
      \<open>fastforce simp: catalina_formatter_serialize_def catalina_formatter_deserialize_def
        binary_formatter_base_init_def\<close>)

text \<open>
  The format keeps values apart: two values that are rebuilt differently are serialised
  to different buffers.
\<close>

theorem distinct_values_distinct_buffers:
  assumes "formatter_domain P depth u" "formatter_domain P depth v" "rebuild P depth u \<noteq> rebuild P depth v"
  shows "catalina_formatter_serialize (binary_formatter_base_init P h (\<lambda>_. 0) depth) u \<noteq>
    catalina_formatter_serialize (binary_formatter_base_init P h (\<lambda>_. 0) depth) v"
  using assms binary_formatter.distinct_images_distinct_buffers by metis

theorem distinct_values_distinct_buffers_witness:
  "catalina_formatter_serialize (binary_formatter_base_init mock_platform Little (\<lambda>_. 0) 0) (VInt 1) \<noteq>
   catalina_formatter_serialize (binary_formatter_base_init mock_platform Little (\<lambda>_. 0) 0) (VUInt 1)"
  by (rule distinct_values_distinct_buffers)
    (simp_all add: formatter_domain_def encodable_def serialized_size_def rebuild_def rebuild_with_def)

end
