(* ===== verification/Formatter_Typing.thy ===== *)
theory Formatter_Typing
  imports Formatter_Interface
begin

text \<open>
  The types of what the reader stores. A \<^verbatim>\<open>GValue\<close> that is initialised has a type for good: the
  setters refuse content of another type, and an object only goes into a value whose type it
  is an instance of. The lemmas below show that the reader keeps to this on every block of
  bytes, whoever wrote it, and that a value it initialises itself has the type that its code
  names.
\<close>

section \<open>Well-typed values\<close>

definition fundamental_type :: "gtype \<Rightarrow> bool" where
  "fundamental_type t \<longleftrightarrow> t \<in> {G_TYPE_STRING, G_TYPE_INT, G_TYPE_UINT, G_TYPE_INT64, G_TYPE_UINT64, G_TYPE_LONG,
     G_TYPE_ULONG, G_TYPE_DOUBLE, G_TYPE_FLOAT, G_TYPE_CHAR, G_TYPE_UCHAR, G_TYPE_BOOLEAN}"

text \<open>
  What GObject promises: an object type is an instance of itself, \<^verbatim>\<open>g_object_newv\<close> makes an
  object of the type it is given, setting a property does not change the type of the object,
  and the fundamental types are no object types.
\<close>

definition object_system :: "('o, 'z) platform_scheme \<Rightarrow> bool" where
  "object_system P \<longleftrightarrow>
     (\<forall>t. g_type_is_a P t G_TYPE_OBJECT \<longrightarrow> g_type_is_a P t t \<and> type_from_instance P (object_new P t) = t) \<and>
     (\<forall>ob n v. type_from_instance P (set_property P ob n v) = type_from_instance P ob) \<and>
     (\<forall>t. fundamental_type t \<or> t = G_TYPE_INVALID \<longrightarrow> \<not> g_type_is_a P t G_TYPE_OBJECT)"

lemma object_systemD:
  assumes "object_system P"
  shows "g_type_is_a P t G_TYPE_OBJECT \<Longrightarrow> g_type_is_a P t t"
    and "g_type_is_a P t G_TYPE_OBJECT \<Longrightarrow> type_from_instance P (object_new P t) = t"
    and "type_from_instance P (set_property P ob n v) = type_from_instance P ob"
    and "g_type_is_a P t G_TYPE_OBJECT \<Longrightarrow> \<not> fundamental_type t \<and> t \<noteq> G_TYPE_INVALID"
  using assms by (auto simp: object_system_def)

text \<open>A value of an object type points to nothing or to an instance of its type.\<close>

fun value_typed :: "('o, 'z) platform_scheme \<Rightarrow> 'o gvalue \<Rightarrow> bool" where
  "value_typed P (VObject t p) = (\<not> fundamental_type t \<and> t \<noteq> G_TYPE_INVALID \<and>
     (case p of None \<Rightarrow> True | Some ob \<Rightarrow> g_type_is_a P (type_from_instance P ob) t))"
| "value_typed P v = True"

text \<open>The type a code makes a value of, for the codes other than the one for objects.\<close>

definition type_of_code :: "byte \<Rightarrow> gtype option" where
  "type_of_code = map_of
     [(BINARY_FORMATTER_TYPE_BOOLEAN, G_TYPE_BOOLEAN),
      (BINARY_FORMATTER_TYPE_INT64, G_TYPE_INT64), (BINARY_FORMATTER_TYPE_UINT64, G_TYPE_UINT64),
      (BINARY_FORMATTER_TYPE_LONG, G_TYPE_LONG), (BINARY_FORMATTER_TYPE_ULONG, G_TYPE_ULONG),
      (BINARY_FORMATTER_TYPE_INT, G_TYPE_INT), (BINARY_FORMATTER_TYPE_UINT, G_TYPE_UINT),
      (BINARY_FORMATTER_TYPE_SHORT, G_TYPE_INT), (BINARY_FORMATTER_TYPE_USHORT, G_TYPE_INT),
      (BINARY_FORMATTER_TYPE_CHAR, G_TYPE_CHAR), (BINARY_FORMATTER_TYPE_UCHAR, G_TYPE_UCHAR),
      (BINARY_FORMATTER_TYPE_DOUBLE, G_TYPE_DOUBLE), (BINARY_FORMATTER_TYPE_FLOAT, G_TYPE_FLOAT),
      (BINARY_FORMATTER_TYPE_STRING, G_TYPE_STRING)]"

definition has_type_of_code :: "('o, 'z) platform_scheme \<Rightarrow> byte \<Rightarrow> 'o gvalue \<Rightarrow> bool" where
  "has_type_of_code P c v = (case type_of_code c of
       Some t \<Rightarrow> G_VALUE_TYPE v = t
     | None \<Rightarrow> c = BINARY_FORMATTER_TYPE_OBJECT \<and> g_type_is_a P (G_VALUE_TYPE v) G_TYPE_OBJECT)"

text \<open>
  What the reader does to its location: an initialised one keeps its type, a value it
  initialises has the type of the code. The exception is a string with a NUL inside, for which
  it reports success and leaves the location as it was.
\<close>

definition typed_update :: "('o, 'z) platform_scheme \<Rightarrow> byte \<Rightarrow> bool \<Rightarrow> 'o gvalue \<Rightarrow> 'o gvalue \<Rightarrow> bool" where
  "typed_update P c success v v' \<longleftrightarrow>
     (value_typed P v \<longrightarrow> value_typed P v') \<and>
     (G_VALUE_TYPE v \<noteq> G_TYPE_INVALID \<longrightarrow> G_VALUE_TYPE v' = G_VALUE_TYPE v) \<and>
     (v = VUnset \<and> success \<longrightarrow>
        has_type_of_code P c v' \<or> c = BINARY_FORMATTER_TYPE_STRING \<and> v' = VUnset)"

lemma typed_update_put:
  assumes "value_typed P v" "type_of_code c = Some (G_VALUE_TYPE v)"
  shows "typed_update P c success v0 (g_value_put v0 v)"
  using assms by (auto simp: typed_update_def g_value_put_def has_type_of_code_def)

lemma typed_update_same: "\<not> success \<or> c = BINARY_FORMATTER_TYPE_STRING \<Longrightarrow> typed_update P c success v v"
  by (simp add: typed_update_def)

section \<open>Objects\<close>

text \<open>The property loop changes the object, never its type.\<close>

lemma read_props_keeps_type:
  assumes "object_system P" "read_props P h ob bs = Inr ob'"
  shows "type_from_instance P ob' = type_from_instance P ob"
  using assms(2)
proof (induction bs arbitrary: ob rule: measure_induct_rule [of length])
  case (less bs)
  then show ?case
  proof (cases bs)
    case (Cons b cursor)
    show ?thesis
    proof (cases "b = 0")
      case False
      then obtain cur name v where
        "read_props P h (set_property P ob name v) cur = Inr ob'" "length cur < length bs"
        using less.prems Cons
        by (auto simp: read_props.simps(2) Let_def c_bind_eq_Inr split: prod.splits if_splits)
      then show ?thesis using less.IH object_systemD(3) [OF assms(1)] by metis
    qed (use less.prems Cons in \<open>simp add: read_props.simps(2)\<close>)
  qed simp
qed

lemma read_object_typed:
  assumes "object_system P" "read_object P h (Some None) (Some buf) n = Inr (ok, v)"
  shows "case v of Some (Some ob) \<Rightarrow> g_type_is_a P (type_from_instance P ob) G_TYPE_OBJECT | _ \<Rightarrow> \<not> ok"
  using assms
  by (auto simp: read_object.simps(3) Let_def c_bind_eq_Inr object_systemD(2) [OF assms(1)]
      split: if_splits dest!: read_props_keeps_type [OF assms(1)])

lemma typed_update_object:
  assumes "object_system P" "g_type_is_a P (type_from_instance P ob) G_TYPE_OBJECT"
  shows "typed_update P BINARY_FORMATTER_TYPE_OBJECT success v0 (g_value_put_object P v0 ob)"
  using object_systemD [OF assms(1)] assms(2)
  by (auto simp: typed_update_def g_value_put_object_def has_type_of_code_def type_of_code_def)

section \<open>The reader\<close>

lemma read_value_typed:
  assumes P: "object_system P" and r: "read_value P h (Some v0) (Some buf) n = Inr (ok, v, err)"
  shows "\<exists>v'. v = Some v' \<and> typed_update P (buf ! 0) ok v0 v'"
proof -
  obtain c where c: "load_byte buf 0 = Inr c" "buf ! 0 = c"
    using r by (auto simp: read_value.simps(3) c_bind_eq_Inr load_byte_def split: if_splits)
  consider (object) "c = BINARY_FORMATTER_TYPE_OBJECT" | (string) "c = BINARY_FORMATTER_TYPE_STRING"
    | (scalar) "c \<noteq> BINARY_FORMATTER_TYPE_OBJECT" "c \<noteq> BINARY_FORMATTER_TYPE_STRING" by blast
  then show ?thesis
  proof cases
    case object
    then obtain ob where "read_object P h (Some None) (Some buf) n = Inr (ok, ob)"
      "v = Some (case ob of Some (Some ob) \<Rightarrow> g_value_put_object P v0 ob | _ \<Rightarrow> v0)"
      using r c by (auto simp: read_value.simps(3) c_bind_eq_Inr split: option.splits)
    with read_object_typed [OF P this(1)] show ?thesis
      unfolding c(2) object by (auto split: option.splits intro: typed_update_object [OF P, simplified] typed_update_same)
  next
    case string
    then obtain ok' m l where m: "read_string h (Some None) (Some 0) (Some buf) n = Inr (ok', m, l)"
      using r c by (auto simp: read_value.simps(3) c_bind_eq_Inr)
    consider "v = Some v0" | w where "v = Some (g_value_put v0 (VString w))"
    proof (cases "\<exists>mem. m = Some (Some mem)")
      case True
      then show thesis
        using that r c string m by (auto simp: read_value.simps(3) c_bind_eq_Inr split: if_splits)
    next
      case False
      then show thesis
        using that r c string m by (auto simp: read_value.simps(3) split: option.splits)
    qed
    then show ?thesis
      unfolding c(2) string by cases (auto simp: type_of_code_def intro!: typed_update_put typed_update_same)
  next
    case scalar
    then show ?thesis
      using r c by (auto simp: read_value.simps(3) c_bind_eq_Inr type_of_code_def split: if_splits
          intro!: typed_update_put typed_update_same)
  qed
qed

section \<open>What holds of every block\<close>

lemma load_byte_drop: "load_byte (drop k bs) i = load_byte bs (k + i)"
  by (auto simp: load_byte_def add.commute)

text \<open>
  C15: Whatever bytes are given to it, the formatter leaves an initialised value with its type and
  well-typed (an object in it is an instance of that type), and a value it initialises itself
  gets the type that the code in the buffer names, unless the code is that of a string, which
  it may report read without setting the value.
\<close>

theorem deserialized_value_typed:
  assumes "object_system P" "value_typed P v0"
    and "catalina_formatter_deserialize (binary_formatter_base_init P h junk depth) (Some v0) buffer n = Inr (ok, v, err)"
  shows "\<exists>v'. v = Some v' \<and> value_typed P v' \<and>
    (G_VALUE_TYPE v0 \<noteq> G_TYPE_INVALID \<longrightarrow> G_VALUE_TYPE v' = G_VALUE_TYPE v0) \<and>
    (v0 = VUnset \<and> ok \<longrightarrow>
       has_type_of_code P (buffer ! 2) v' \<or> buffer ! 2 = BINARY_FORMATTER_TYPE_STRING \<and> v' = VUnset)"
proof (cases "v = Some v0 \<and> \<not> ok")
  case False
  then have "read_value P h (Some v0) (Some (drop 2 buffer)) (ucast (n - 2)) = Inr (ok, v, err)"
    using assms(3) by (auto simp: catalina_formatter_deserialize_def binary_formatter_base_init_def
        real_deserialize_def c_bind_eq_Inr split: if_splits)
  moreover from this have "drop 2 buffer ! 0 = buffer ! 2"
    by (auto simp: read_value.simps(3) c_bind_eq_Inr load_byte_def split: if_splits)
  ultimately show ?thesis
    using read_value_typed [OF assms(1)] assms(2) by (fastforce simp: typed_update_def)
qed (use assms(2) in auto)

lemma mock_type_set: "mock_type (mock_set ob n v) = mock_type ob"
  by (cases ob) simp

lemma mock_object_system: "object_system mock_platform"
  by (auto simp: object_system_def mock_platform_def person_type_def fundamental_type_def mock_type_set)

theorem deserialized_value_typed_witness:
  "\<exists>v'. catalina_formatter_deserialize (binary_formatter_base_init mock_platform Little (\<lambda>_. 0) 0)
     (Some (VInt 7)) [1, 0, 1, 1] 4 = Inr (True, Some v', None) \<and> G_VALUE_TYPE v' = G_TYPE_INT"
proof -
  have r: "catalina_formatter_deserialize (binary_formatter_base_init mock_platform Little (\<lambda>_. 0) 0) (Some (VInt 7))
      [1, 0, 1, 1] 4 = Inr (True, Some (VInt 7), None)"
    by (simp add: catalina_formatter_deserialize_def binary_formatter_base_init_def real_deserialize_def
        read_value.simps(3) load_byte_def read_boolean_def g_value_put_def)
  from deserialized_value_typed [OF mock_object_system _ this] show ?thesis
    unfolding r by simp
qed

end
