(* ===== verification/Zlib_Transform.thy ===== *)
theory Zlib_Transform
  imports Interfaces
begin

text \<open>
  The compressing transform, \<^verbatim>\<open>catalina/catalina-zlib-transform.c\<close>: a buffer above the
  watermark is deflated into a list of parts of 16 KiB, which are then copied into one block
  with a tail of five bytes, the length of the input in big-endian order and the flag 1; a
  buffer up to the watermark is copied as it is with the flag 0 behind it.

  zlib is a parameter, the record \<open>zlib\<close> of the four functions that are called, over an
  abstract type of stream states. A call of \<open>deflate\<close> with \<^verbatim>\<open>Z_FINISH\<close> is given the unread
  input and the room for output, and returns its code, the next state, the input it leaves
  unread and the output it produced; the fields \<^verbatim>\<open>avail_in\<close> and \<^verbatim>\<open>avail_out\<close> of the stream are
  the lengths of those. The bytes of a fresh block of \<^verbatim>\<open>g_malloc\<close> are the parameter \<open>junk\<close>, by
  the number of the block and the index.
\<close>

section \<open>The parameter\<close>

datatype zlib_code = Z_OK | Z_STREAM_END | Z_STREAM_ERROR | Z_OTHER

record 's zlib =
  deflateInit :: "gint \<Rightarrow> 's option" \<comment> \<open>\<open>None\<close>: not \<^verbatim>\<open>Z_OK\<close>\<close>
  deflate :: "'s \<Rightarrow> bytes \<Rightarrow> nat \<Rightarrow> zlib_code \<times> 's \<times> bytes \<times> bytes"
  inflateInit :: "'s option"
  inflate :: "'s \<Rightarrow> bytes \<Rightarrow> nat \<Rightarrow> zlib_code \<times> bytes"

definition CHUNK :: nat where
  "CHUNK = 16384"

section \<open>The instance and its properties\<close>

record zlib_transform =
  zlib_watermark :: gsize
  zlib_level :: guint

datatype zlib_property = PROP_LEVEL | PROP_WATERMARK | PROP_UNKNOWN

text \<open>The fields of a new instance are zero but for the level.\<close>

definition zlib_transform_init :: zlib_transform where
  "zlib_transform_init = \<lparr>zlib_watermark = 0, zlib_level = 6\<rparr>"

definition zlib_transform_set_level :: "zlib_transform \<Rightarrow> gint \<Rightarrow> zlib_transform" where
  "zlib_transform_set_level transform level = transform\<lparr>zlib_level := level\<rparr>"

definition zlib_transform_set_watermark :: "zlib_transform \<Rightarrow> gint \<Rightarrow> zlib_transform" where
  "zlib_transform_set_watermark transform watermark = transform\<lparr>zlib_watermark := scast watermark\<rparr>"

definition zlib_transform_get_level :: "zlib_transform \<Rightarrow> gint" where
  "zlib_transform_get_level transform = zlib_level transform"

definition zlib_transform_get_watermark :: "zlib_transform \<Rightarrow> gint" where
  "zlib_transform_get_watermark transform = ucast (zlib_watermark transform)"

definition zlib_transform_get_property :: "zlib_transform \<Rightarrow> zlib_property \<Rightarrow> gint option" where
  "zlib_transform_get_property transform property_id =
     (case property_id of
        PROP_LEVEL \<Rightarrow> Some (zlib_transform_get_level transform)
      | PROP_WATERMARK \<Rightarrow> Some (zlib_transform_get_watermark transform)
      | PROP_UNKNOWN \<Rightarrow> None)"

definition zlib_transform_set_property :: "zlib_transform \<Rightarrow> zlib_property \<Rightarrow> gint \<Rightarrow> zlib_transform" where
  "zlib_transform_set_property transform property_id value =
     (case property_id of
        PROP_LEVEL \<Rightarrow> zlib_transform_set_level transform value
      | PROP_WATERMARK \<Rightarrow> zlib_transform_set_watermark transform value
      | PROP_UNKNOWN \<Rightarrow> transform)"

section \<open>Writing\<close>

text \<open>
  The deflating loop: it ends with the parts (last first), their length as a \<^verbatim>\<open>guint\<close> and the
  input left over, with \<open>Inr None\<close> when \<open>deflate\<close> fails, or not at all (\<open>None\<close>) when every
  call fills its part.
\<close>

partial_function (option) deflate_loop :: "'s zlib \<Rightarrow> (nat \<Rightarrow> nat \<Rightarrow> byte) \<Rightarrow> 's \<Rightarrow> bytes \<Rightarrow> bytes list
    \<Rightarrow> guint \<Rightarrow> (bytes list \<times> guint \<times> bytes) option result option" where
  "deflate_loop Z junk strm input parts len =
     (case deflate Z strm input CHUNK of (ret, strm, input, out) \<Rightarrow>
      if ret = Z_STREAM_ERROR then Some (Inr None)
      else (case store_bytes (block (g_malloc (junk (Suc (length parts))) CHUNK)) 0 out of
        Inl e \<Rightarrow> Some (Inl e)
      | Inr part \<Rightarrow>
          (let avail_out = CHUNK - length out;
               filled_length = CHUNK - avail_out in
           if avail_out = 0 then deflate_loop Z junk strm input (part # parts) (len + of_nat filled_length)
           else Some (Inr (Some (part # parts, len + of_nat filled_length, input))))))"

text \<open>The copying loop. A stream that fits one part is copied at once.\<close>

fun copy_parts :: "bytes \<Rightarrow> guint \<Rightarrow> guint \<Rightarrow> bytes list \<Rightarrow> bytes result" where
  "copy_parts output len offset [] = Inr output"
| "copy_parts output len offset (part # parts) =
     (if unat len \<le> CHUNK
      then c_bind (load_bytes part 0 (unat len)) (store_bytes output 0)
      else let filled_length = unat (len - offset);
               filled_length = (if filled_length > CHUNK then CHUNK else filled_length) in
           c_bind (c_bind (load_bytes part 0 filled_length) (store_bytes output (unat offset))) (\<lambda>output.
           copy_parts output len (offset + of_nat filled_length) parts))"

definition zlib_real_write :: "'s zlib \<Rightarrow> endian \<Rightarrow> (nat \<Rightarrow> nat \<Rightarrow> byte) \<Rightarrow> zlib_transform
    \<Rightarrow> bytes option \<Rightarrow> gsize \<Rightarrow> transform_out result option" where
  "zlib_real_write Z h junk transform input input_length =
     (let watermark = ucast (zlib_watermark transform) :: guint in
      if input_length \<le> ucast watermark
      then Some (
        c_bind (read_mem input (unat input_length)) (\<lambda>data.
        c_bind (store_bytes (zeroed (unat (input_length + 1))) 0 data) (\<lambda>output.
        c_bind (store_byte output (unat input_length) 0) (\<lambda>output.
        Inr (Transformed (Some output) (input_length + 1))))))
      else case deflateInit Z (zlib_level transform) of
        None \<Rightarrow> Some (Inr (Transform_Failed ZLIB_TRANSFORM_ERROR_ZLIB))
      | Some strm \<Rightarrow>
          (let avail_in = ucast input_length :: guint in
           case read_mem input (unat avail_in) of Inl e \<Rightarrow> Some (Inl e)
           | Inr data \<Rightarrow>
             (case deflate_loop Z junk strm data [] 0 of
                None \<Rightarrow> None
              | Some (Inl e) \<Rightarrow> Some (Inl e)
              | Some (Inr None) \<Rightarrow> Some (Inr (Transform_Failed ZLIB_TRANSFORM_ERROR_ZLIB))
              | Some (Inr (Some (parts, len, unread))) \<Rightarrow> Some (
                  if unread \<noteq> [] then Inl Process_Abort
                  else
                    let belength = to_be h (ucast input_length :: guint);
                        output_length = ucast (len + 5) :: gsize;
                        output = block (g_malloc (junk 0) (unat output_length)) in
                    c_bind (store_bytes output (unat (output_length - 5)) (mem_repr h belength)) (\<lambda>output.
                    c_bind (store_bytes output (unat (output_length - 1)) [1]) (\<lambda>output.
                    c_bind (copy_parts output len 0 (rev parts)) (\<lambda>output.
                    Inr (Transformed (Some output) output_length))))))))"

section \<open>Reading\<close>

definition zlib_real_read :: "'s zlib \<Rightarrow> endian \<Rightarrow> (nat \<Rightarrow> nat \<Rightarrow> byte) \<Rightarrow> bytes option \<Rightarrow> gsize
    \<Rightarrow> transform_out result" where
  "zlib_real_read Z h junk input input_length =
     (case input of None \<Rightarrow> Inl Null_Pointer
      | Some buf \<Rightarrow>
          c_bind (load_byte buf (unat (input_length - 1))) (\<lambda>compressed.
          if compressed = 0
          then let output_length = input_length - 1 in
               c_bind (load_bytes buf 0 (unat output_length)) (\<lambda>data.
               Inr (Transformed (map_option (\<lambda>_. data) (g_malloc (junk 0) (unat output_length))) output_length))
          else case inflateInit Z of
            None \<Rightarrow> Inr (Transform_Failed ZLIB_TRANSFORM_ERROR_ZLIB)
          | Some strm \<Rightarrow>
              c_bind (load_bytes buf (unat (input_length - 5)) 4) (\<lambda>be_length.
              let len = from_be h (mem_load h be_length) :: guint;
                  output = g_malloc (junk 0) (unat len);
                  avail_in = ucast (input_length - 5) :: guint in
              c_bind (load_bytes buf 0 (unat avail_in)) (\<lambda>data.
              case inflate Z strm data (unat len) of (ret, out) \<Rightarrow>
              c_bind (store_bytes (block output) 0 out) (\<lambda>filled.
              if ret \<noteq> Z_STREAM_END then Inl Process_Abort
              else Inr (Transformed (map_option (\<lambda>_. filled) output) (ucast len)))))))"

text \<open>The method table of an instance; a call that does not return is the fault \<open>Divergence\<close>.\<close>

definition zlib_transform_base_init :: "'s zlib \<Rightarrow> endian \<Rightarrow> (nat \<Rightarrow> nat \<Rightarrow> byte) \<Rightarrow> zlib_transform \<Rightarrow> transform_iface" where
  "zlib_transform_base_init Z h junk transform =
     \<lparr>transform_iface_read = zlib_real_read Z h junk,
      transform_iface_write = (\<lambda>input input_length.
        case zlib_real_write Z h junk transform input input_length of
          None \<Rightarrow> Inl Divergence | Some r \<Rightarrow> r)\<rparr>"

end
