(* ===== verification/Zlib_Properties.thy ===== *)
theory Zlib_Properties
  imports Zlib_Transform
begin

text \<open>
  What the compressing transform promises: the deflating loop collects the whole stream, the
  copying loop puts it together again, the two tails tell the reader what it has, and a
  buffer written is read back. \<open>zlib_behaves\<close> is what the code relies on of zlib.
\<close>

section \<open>What is relied on\<close>

text \<open>
  \<open>pending strm input\<close> is the compressed output a stream state has still to deliver, given
  its unread input. A call with \<^verbatim>\<open>Z_FINISH\<close> delivers as much of it as there is room for, and
  has read all its input when it leaves room; \<^verbatim>\<open>Z_STREAM_ERROR\<close> is for inconsistent states.
  Inflating all of a fresh stream's output with room for exactly the original data reaches
  the end of the stream and restores the data.
\<close>

definition zlib_behaves :: "'s zlib \<Rightarrow> ('s \<Rightarrow> bytes \<Rightarrow> bytes) \<Rightarrow> bool" where
  "zlib_behaves Z pending \<longleftrightarrow>
     (\<forall>strm input n ret strm' input' out. deflate Z strm input n = (ret, strm', input', out) \<longrightarrow>
        ret \<noteq> Z_STREAM_ERROR \<and> out = take n (pending strm input) \<and>
        pending strm' input' = drop n (pending strm input) \<and> (length out < n \<longrightarrow> input' = [])) \<and>
     (\<forall>level. 0 \<le> sint level \<and> sint level \<le> 9 \<longrightarrow>
        (\<exists>strm i. deflateInit Z level = Some strm \<and> inflateInit Z = Some i \<and>
           (\<forall>data. data \<noteq> [] \<longrightarrow> inflate Z i (pending strm data) (length data) = (Z_STREAM_END, data))))"

definition compressed :: "'s zlib \<Rightarrow> ('s \<Rightarrow> bytes \<Rightarrow> bytes) \<Rightarrow> zlib_transform \<Rightarrow> bytes \<Rightarrow> bytes" where
  "compressed Z pending transform data = pending (the (deflateInit Z (zlib_level transform))) data"

text \<open>The buffers up to the watermark, which are stored as they are.\<close>

definition stored_plain :: "zlib_transform \<Rightarrow> bytes \<Rightarrow> bool" where
  "stored_plain transform data \<longleftrightarrow> length data \<le> unat (ucast (zlib_watermark transform) :: guint)"

definition zlib_domain :: "'s zlib \<Rightarrow> ('s \<Rightarrow> bytes \<Rightarrow> bytes) \<Rightarrow> zlib_transform \<Rightarrow> bytes \<Rightarrow> bool" where
  "zlib_domain Z pending transform data \<longleftrightarrow>
     zlib_behaves Z pending \<and> 0 \<le> sint (zlib_level transform) \<and> sint (zlib_level transform) \<le> 9 \<and>
     length data < 2 ^ 32 \<and>
     (stored_plain transform data \<or> length (compressed Z pending transform data) + 5 < 2 ^ 32)"

section \<open>The two loops\<close>

text \<open>A list of parts that holds a stream: full parts, and a last one that has room left.\<close>

fun holds_stream :: "bytes list \<Rightarrow> bytes \<Rightarrow> bool" where
  "holds_stream [] bs \<longleftrightarrow> False"
| "holds_stream (part # parts) bs \<longleftrightarrow>
     length part = CHUNK \<and> take (length (take CHUNK bs)) part = take CHUNK bs \<and>
     (if length bs < CHUNK then parts = [] else holds_stream parts (drop CHUNK bs))"

lemma CHUNK_pos: "0 < CHUNK" and CHUNK_small: "CHUNK < 2 ^ 32"
  by (simp_all add: CHUNK_def)

lemma store_fresh_part:
  assumes "length out \<le> CHUNK"
  obtains part where "store_bytes (block (g_malloc j CHUNK)) 0 out = Inr part"
    "length part = CHUNK" "take (length out) part = out"
  using assms by (simp add: store_bytes_def)

lemma deflate_loop_collects:
  assumes "zlib_behaves Z pending"
  shows "\<exists>ps. deflate_loop Z junk strm input parts len =
      Some (Inr (Some (rev ps @ parts, len + of_nat (length (pending strm input)), []))) \<and>
    holds_stream ps (pending strm input)"
proof (induction "length (pending strm input)" arbitrary: strm input parts len rule: less_induct)
  case less
  let ?P = "pending strm input"
  obtain ret strm' input' out where d: "deflate Z strm input CHUNK = (ret, strm', input', out)"
    by (metis prod_cases4)
  then have ret: "ret \<noteq> Z_STREAM_ERROR" and out: "out = take CHUNK ?P"
    and rest: "pending strm' input' = drop CHUNK ?P" and fin: "length out < CHUNK \<Longrightarrow> input' = []"
    using assms unfolding zlib_behaves_def by blast+
  obtain part where part: "store_bytes (block (g_malloc (junk (Suc (length parts))) CHUNK)) 0 out = Inr part"
    "length part = CHUNK" "take (length out) part = out"
    by (rule store_fresh_part [of out "junk (Suc (length parts))"]) (simp add: out)
  show ?case
  proof (cases "length ?P < CHUNK")
    case True
    then have "deflate_loop Z junk strm input parts len =
        Some (Inr (Some (part # parts, len + of_nat (length ?P), [])))"
      using ret part(1) fin by (subst deflate_loop.simps) (simp add: d out Let_def)
    moreover have "holds_stream [part] ?P" using True part by (simp add: out)
    ultimately show ?thesis using True by (intro exI [of _ "[part]"]) simp
  next
    case False
    then have n: "length out = CHUNK" by (simp add: out)
    have step: "deflate_loop Z junk strm input parts len =
        deflate_loop Z junk strm' input' (part # parts) (len + of_nat CHUNK)"
      using ret part(1) n by (subst deflate_loop.simps) (simp add: d Let_def)
    have "length (pending strm' input') < length ?P" using False CHUNK_pos by (simp add: rest)
    from less [OF this, of "part # parts" "len + of_nat CHUNK"] obtain ps where
      IH: "deflate_loop Z junk strm' input' (part # parts) (len + of_nat CHUNK) =
        Some (Inr (Some (rev ps @ part # parts, len + of_nat CHUNK + of_nat (length ?P - CHUNK), [])))"
        "holds_stream ps (drop CHUNK ?P)"
      by (auto simp: rest)
    have "len + of_nat CHUNK + of_nat (length ?P - CHUNK) = len + of_nat (length ?P)"
      using False by (simp add: of_nat_diff)
    moreover have "holds_stream (part # ps) ?P" using False part IH(2) by (simp add: out)
    ultimately show ?thesis
      using IH(1) step by (intro exI [of _ "part # ps"]) simp
  qed
qed

lemma copy_parts_long:
  assumes "holds_stream parts (drop off P)" "CHUNK < length P" "length P < 2 ^ 32" "off \<le> length P"
    and "take off dst = take off P" "length P \<le> length dst"
  shows "copy_parts dst (of_nat (length P)) (of_nat off) parts = Inr (P @ drop (length P) dst)"
  using assms(1,4-)
proof (induction parts arbitrary: off dst)
  case (Cons part parts)
  have L: "unat (of_nat (length P) :: guint) = length P" using assms(3) by (rule unat_of_nat_guint)
  have O: "unat (of_nat off :: guint) = off" using assms(3) Cons.prems(2) by (simp add: unat_of_nat_guint)
  have "(of_nat (length P) - of_nat off :: guint) = of_nat (length P - off)"
    using Cons.prems(2) by (simp add: of_nat_diff)
  then have D: "unat (of_nat (length P) - of_nat off :: guint) = length P - off"
    using assms(3) by (simp add: unat_of_nat_guint)
  let ?n = "min (length P - off) CHUNK"
  have n: "(if length P - off > CHUNK then CHUNK else length P - off) = ?n" by simp
  from Cons.prems(1) have part: "length part = CHUNK" "take ?n part = take ?n (drop off P)"
    and rest: "if length P - off < CHUNK then parts = [] else holds_stream parts (drop CHUNK (drop off P))"
    by (auto simp: min.commute split: if_splits)
  define dst' where "dst' = take off dst @ take ?n (drop off P) @ drop (off + ?n) dst"
  have st: "c_bind (load_bytes part 0 ?n) (store_bytes dst off) = Inr dst'"
    using part Cons.prems(2,4) by (simp add: load_bytes_def store_bytes_def dst'_def)
  have t: "take (off + ?n) dst' = take (off + ?n) P"
    unfolding dst'_def Cons.prems(3) using Cons.prems(2) by (simp add: take_add)
  have step: "copy_parts dst (of_nat (length P)) (of_nat off) (part # parts) =
      copy_parts dst' (of_nat (length P)) (of_nat (off + ?n)) parts"
    using assms(2) st by (simp add: L O D n Let_def del: of_nat_min)
  have len': "length dst' = length dst" using Cons.prems(2,4) by (simp add: dst'_def)
  have drop': "drop (length P) dst' = drop (length P) dst"
    using Cons.prems(2,4) by (simp add: dst'_def)
  show ?case
  proof (cases "length P - off < CHUNK")
    case True
    then have "?n = length P - off" "parts = []" using rest by simp_all
    then have "take (length P) dst' = P" using t Cons.prems(2) by simp
    then have "dst' = P @ drop (length P) dst"
      by (metis append_take_drop_id drop')
    then show ?thesis using step \<open>parts = []\<close> by simp
  next
    case False
    then have n: "?n = CHUNK" by simp
    have "copy_parts dst' (of_nat (length P)) (of_nat (off + ?n)) parts = Inr (P @ drop (length P) dst')"
      using rest False t Cons.prems(2,4) len' unfolding n
      by (intro Cons.IH) (simp_all add: add.commute)
    then show ?thesis using step drop' by simp
  qed
qed simp

lemma copy_parts_joins:
  assumes "holds_stream parts P" "length P < 2 ^ 32" "length P \<le> length dst"
  shows "copy_parts dst (of_nat (length P)) 0 parts = Inr (P @ drop (length P) dst)"
proof (cases "CHUNK < length P")
  case True
  then show ?thesis using copy_parts_long [of parts 0 P dst] assms by simp
next
  case False
  obtain part ps where p: "parts = part # ps" using assms(1) by (cases parts) auto
  have L: "unat (of_nat (length P) :: guint) = length P" using assms(2) by (rule unat_of_nat_guint)
  have "load_bytes part 0 (length P) = Inr P"
    using assms(1) False by (simp add: p load_bytes_def)
  then show ?thesis using False assms(3) by (simp add: p L store_bytes_def)
qed


section \<open>What is written, and what is read of it\<close>

lemma unat_of_nat_gsize: "n < 2 ^ 64 \<Longrightarrow> unat (of_nat n :: gsize) = n"
  by (simp add: unat_of_nat take_bit_nat_eq_self)

lemma gsize_of_guint: "unat (ucast (w :: guint) :: gsize) = unat w"
  using unsigned_less [of w, where ?'a = nat] by (simp add: unsigned_ucast_eq take_bit_nat_eq_self)

lemma of_nat_gsize_le:
  "n < 2 ^ 32 \<Longrightarrow> of_nat n \<le> (ucast (w :: guint) :: gsize) \<longleftrightarrow> n \<le> unat w"
  by (simp add: word_le_nat_alt unat_of_nat_gsize gsize_of_guint)

lemma ucast_of_nat_guint: "n < 2 ^ 32 \<Longrightarrow> ucast (of_nat n :: gsize) = (of_nat n :: guint)"
  by (rule unsigned_word_eqI [where ?'a = nat]) (simp add: unsigned_ucast_eq unsigned_of_nat)

lemma gsize_Suc_diff: "of_nat (n + k) - (of_nat k :: gsize) = of_nat n"
  by simp

lemma plain_written:
  assumes "stored_plain transform data" "length data < 2 ^ 32"
  shows "zlib_real_write Z h junk transform (Some data) (of_nat (length data)) =
    Some (Inr (Transformed (Some (data @ [0])) (of_nat (length data) + 1)))"
proof -
  let ?n = "length data"
  have n: "unat (of_nat ?n :: gsize) = ?n" using assms(2) by (simp add: unat_of_nat_gsize)
  have n1: "unat (of_nat ?n + 1 :: gsize) = Suc ?n"
    using unat_of_nat_gsize [of "Suc ?n"] assms(2) by (simp add: add.commute)
  have "store_bytes (zeroed (Suc ?n)) 0 data = Inr (data @ zeroed 1)"
    using store_bytes_append [of "[]" 0 data "Suc ?n"] by simp
  moreover have "store_byte (data @ zeroed (Suc 0)) ?n 0 = Inr (data @ [0])"
    using store_byte_append [of data ?n 0 0] by simp
  ultimately show ?thesis
    using assms by (simp add: zlib_real_write_def Let_def of_nat_gsize_le stored_plain_def n n1)
qed

lemma plain_read:
  assumes "length data + 1 < 2 ^ 64"
  shows "zlib_real_read Z h junk (Some (data @ [0])) (of_nat (length data) + 1) =
    Inr (Transformed (map_option (\<lambda>_. data) (g_malloc (junk 0) (length data))) (of_nat (length data)))"
  using assms
  by (simp add: zlib_real_read_def Let_def unat_of_nat_gsize load_byte_def load_bytes_def)

lemma zlib_level_init:
  assumes "zlib_domain Z pending transform data"
  obtains strm i where "deflateInit Z (zlib_level transform) = Some strm" "inflateInit Z = Some i"
    "compressed Z pending transform data = pending strm data"
    "data \<noteq> [] \<Longrightarrow> inflate Z i (pending strm data) (length data) = (Z_STREAM_END, data)"
proof -
  from assms have "zlib_behaves Z pending"
    and "0 \<le> sint (zlib_level transform) \<and> sint (zlib_level transform) \<le> 9"
    by (simp_all add: zlib_domain_def)
  then obtain strm i where "deflateInit Z (zlib_level transform) = Some strm" "inflateInit Z = Some i"
    "\<forall>data. data \<noteq> [] \<longrightarrow> inflate Z i (pending strm data) (length data) = (Z_STREAM_END, data)"
    unfolding zlib_behaves_def by blast
  then show ?thesis using that by (simp add: compressed_def)
qed

lemma compressed_written:
  assumes dom: "zlib_domain Z pending transform data" and big: "\<not> stored_plain transform data"
  shows "zlib_real_write Z h junk transform (Some data) (of_nat (length data)) =
    Some (Inr (Transformed
      (Some (compressed Z pending transform data @ be_bytes (of_nat (length data) :: guint) @ [1]))
      (of_nat (length (compressed Z pending transform data) + 5))))"
proof -
  let ?n = "length data" and ?C = "compressed Z pending transform data"
  let ?L = "length ?C"
  from dom have n: "?n < 2 ^ 32" and behaves: "zlib_behaves Z pending" by (simp_all add: zlib_domain_def)
  from dom big have L: "?L + 5 < 2 ^ 32" by (simp add: zlib_domain_def)
  obtain strm where strm: "deflateInit Z (zlib_level transform) = Some strm" "?C = pending strm data"
    using zlib_level_init [OF dom] by metis
  obtain ps where loop: "deflate_loop Z junk strm data [] 0 = Some (Inr (Some (rev ps, of_nat ?L, [])))"
    and ps: "holds_stream ps ?C"
    using deflate_loop_collects [OF behaves, of junk strm data "[]" 0] by (auto simp: strm(2))
  have "unat (of_nat ?L + 5 :: guint) = ?L + 5"
    using unat_of_nat_guint [OF L] by simp
  then have out: "ucast (of_nat ?L + 5 :: guint) = (of_nat (?L + 5) :: gsize)"
    by (metis gsize_of_guint of_nat_unat ucast_id)
  have o: "unat (of_nat (?L + 5) :: gsize) = ?L + 5"
    "unat (of_nat (?L + 5) - 5 :: gsize) = ?L" "unat (of_nat (?L + 5) - 1 :: gsize) = ?L + 4"
    using L unat_of_nat_gsize [of "?L + 5"] unat_of_nat_gsize [of ?L] unat_of_nat_gsize [of "?L + 4"]
    by (simp_all add: add.commute [of _ 4])
  let ?B = "be_bytes (of_nat ?n :: guint)"
  define fresh where "fresh = block (g_malloc (junk 0) (?L + 5))"
  have fresh: "length fresh = ?L + 5" by (simp add: fresh_def)
  define tailed where "tailed = take ?L fresh @ ?B @ [1]"
  have "store_bytes fresh ?L ?B = Inr (take ?L fresh @ ?B @ drop (?L + 4) fresh)"
    using fresh by (simp add: store_bytes_def)
  moreover have "store_bytes (take ?L fresh @ ?B @ drop (?L + 4) fresh) (?L + 4) [1] = Inr tailed"
    using fresh by (simp add: store_bytes_def tailed_def)
  moreover have "copy_parts tailed (of_nat ?L) 0 ps = Inr (?C @ ?B @ [1])"
    using copy_parts_joins [OF ps, of tailed] L fresh by (simp add: tailed_def)
  ultimately have "c_bind (store_bytes fresh ?L (mem_repr h (to_be h (of_nat ?n :: guint)))) (\<lambda>dst.
      c_bind (store_bytes dst (?L + 4) [1]) (\<lambda>dst.
      c_bind (copy_parts dst (of_nat ?L) 0 ps) (\<lambda>dst.
      Inr (Transformed (Some dst) (of_nat (?L + 5)))))) =
    Inr (Transformed (Some (?C @ ?B @ [1])) (of_nat (?L + 5)))"
    by (simp add: mem_repr_to_be)
  moreover have "\<not> of_nat ?n \<le> (ucast (ucast (zlib_watermark transform) :: guint) :: gsize)"
    using big n by (simp add: of_nat_gsize_le stored_plain_def)
  ultimately show ?thesis
    unfolding zlib_real_write_def Let_def
    by (simp add: strm(1) loop out o fresh_def ucast_of_nat_guint [OF n] unat_of_nat_guint [OF n]
        del: of_nat_add)
qed


lemma compressed_read:
  assumes dom: "zlib_domain Z pending transform data" and big: "\<not> stored_plain transform data"
  shows "zlib_real_read Z h junk
      (Some (compressed Z pending transform data @ be_bytes (of_nat (length data) :: guint) @ [1]))
      (of_nat (length (compressed Z pending transform data) + 5)) =
    Inr (Transformed (Some data) (of_nat (length data)))"
proof -
  let ?n = "length data" and ?C = "compressed Z pending transform data"
  let ?L = "length ?C" and ?B = "be_bytes (of_nat (length data) :: guint)"
  from dom have n: "?n < 2 ^ 32" by (simp add: zlib_domain_def)
  from dom big have L: "?L + 5 < 2 ^ 32" by (simp add: zlib_domain_def)
  have "data \<noteq> []" using big by (auto simp: stored_plain_def)
  then obtain i where i: "inflateInit Z = Some i" "inflate Z i ?C ?n = (Z_STREAM_END, data)"
    using zlib_level_init [OF dom] by metis
  have o: "unat (of_nat (?L + 5) - 5 :: gsize) = ?L" "unat (of_nat (?L + 5) - 1 :: gsize) = ?L + 4"
    using L unat_of_nat_gsize [of ?L] unat_of_nat_gsize [of "?L + 4"]
    by (simp_all add: add.commute [of _ 4])
  have "(of_nat (?L + 5) - 5 :: gsize) = of_nat ?L" by simp
  then have a: "unat (ucast (of_nat (?L + 5) - 5 :: gsize) :: guint) = ?L"
    using L by (simp add: ucast_of_nat_guint unat_of_nat_guint)
  have ld: "load_byte (?C @ ?B @ [1]) (?L + 4) = Inr 1"
    "load_bytes (?C @ ?B @ [1]) ?L 4 = Inr ?B" "load_bytes (?C @ ?B @ [1]) 0 ?L = Inr ?C"
    by (simp_all add: load_byte_def load_bytes_def nth_append)
  have "store_bytes (block (g_malloc (junk 0) ?n)) 0 data = Inr data"
    by (simp add: store_bytes_def)
  moreover have "g_malloc (junk 0) ?n = Some (map (junk 0) [0..<?n])"
    using \<open>data \<noteq> []\<close> by (simp add: g_malloc_def)
  moreover have "ucast (of_nat ?n :: guint) = (of_nat ?n :: gsize)"
    using n by (metis gsize_of_guint of_nat_unat ucast_id unat_of_nat_guint)
  ultimately show ?thesis
    using i by (simp add: zlib_real_read_def Let_def o a ld from_be_mem_load of_be_bytes_be_bytes
        unat_of_nat_guint [OF n] del: of_nat_add)
qed

section \<open>The contract\<close>

lemma zlib_write_read:
  assumes "zlib_domain Z pending transform data"
  shows "\<exists>out p. zlib_real_write Z h junk transform (Some data) (of_nat (length data)) =
      Some (Inr (Transformed (Some out) (of_nat (length out)))) \<and>
    out \<noteq> [] \<and> length out < 2 ^ 64 \<and>
    zlib_real_read Z h' junk' (Some out) (of_nat (length out)) = Inr (Transformed p (of_nat (length data))) \<and>
    (data \<noteq> [] \<longrightarrow> p = Some data)"
proof (cases "stored_plain transform data")
  case True
  from assms have n: "length data < 2 ^ 32" by (simp add: zlib_domain_def)
  then have "length data + 1 < 2 ^ 64" by simp
  from plain_read [OF this, of Z h' junk'] plain_written [OF True n, of Z h junk] n show ?thesis
    by (intro exI [of _ "data @ [0]"] exI [of _ "map_option (\<lambda>_. data) (g_malloc (junk' 0) (length data))"])
      (simp add: add.commute g_malloc_def)
next
  case False
  let ?C = "compressed Z pending transform data"
  let ?out = "?C @ be_bytes (of_nat (length data) :: guint) @ [1]"
  have len: "length ?out = length ?C + 5" by simp
  have "length ?C + 5 < 2 ^ 32" using assms False by (simp add: zlib_domain_def)
  then show ?thesis
    using compressed_written [OF assms False, of h junk] compressed_read [OF assms False, of h' junk']
    unfolding len [symmetric] by (intro exI [of _ ?out] exI [of _ "Some data"]) simp
qed

interpretation zlib: transform_contract "zlib_transform_base_init Z h junk transform"
  "zlib_domain Z pending transform" for Z h junk transform pending
proof unfold_locales
  fix bs
  assume "zlib_domain Z pending transform bs"
  from zlib_write_read [OF this, of h junk h junk] show "\<exists>out p.
      catalina_transform_write (zlib_transform_base_init Z h junk transform) (Some bs) (of_nat (length bs)) =
        Inr (Transformed (Some out) (of_nat (length out))) \<and>
      out \<noteq> [] \<and> length out < 2 ^ 64 \<and>
      catalina_transform_read (zlib_transform_base_init Z h junk transform) (Some out) (of_nat (length out)) =
        Inr (Transformed p (of_nat (length bs))) \<and> (bs \<noteq> [] \<longrightarrow> p = Some bs)"
    by (auto simp: catalina_transform_read_def catalina_transform_write_def zlib_transform_base_init_def)
qed (simp add: zlib_domain_def)

section \<open>An instance of the parameter\<close>

text \<open>
  A compressor that stores: its streams are the data behind a byte that counts as the header,
  still to be delivered in state \<open>True\<close>.
\<close>

definition storing_pending :: "bool \<Rightarrow> bytes \<Rightarrow> bytes" where
  "storing_pending fresh input = (if fresh then 120 # input else input)"

definition storing_zlib :: "bool zlib" where
  "storing_zlib = \<lparr>deflateInit = (\<lambda>level. Some True),
     deflate = (\<lambda>fresh input n.
       if n = 0 then (Z_OTHER, fresh, input, [])
       else let m = (if fresh then n - 1 else n) in
         (if length input < m then Z_STREAM_END else Z_OK, False, drop m input,
          take n (storing_pending fresh input))),
     inflateInit = Some False,
     inflate = (\<lambda>_ input n. case input of [] \<Rightarrow> (Z_OTHER, [])
       | b # bs \<Rightarrow> if b = 120 \<and> length bs \<le> n then (Z_STREAM_END, bs) else (Z_OTHER, []))\<rparr>"

lemma storing_zlib_behaves: "zlib_behaves storing_zlib storing_pending"
  by (auto simp: zlib_behaves_def storing_zlib_def storing_pending_def Let_def take_Cons' drop_Cons'
      split: if_splits)


lemma storing_domain:
  assumes "length data + 6 < 2 ^ 32" "0 \<le> sint (zlib_level transform)" "sint (zlib_level transform) \<le> 9"
  shows "zlib_domain storing_zlib storing_pending transform data"
  using assms storing_zlib_behaves
  by (simp add: zlib_domain_def compressed_def storing_zlib_def storing_pending_def)

section \<open>Properties of the transform\<close>

text \<open>
  C11: a buffer given to \<^verbatim>\<open>catalina_transform_write\<close> of a zlib transform, at any level and
  watermark, is restored by \<^verbatim>\<open>catalina_transform_read\<close>, on hosts of any two byte orders and
  whatever fresh memory holds; for an empty buffer the reader reports length 0.
\<close>

theorem zlib_transform_roundtrip:
  assumes "zlib_domain Z pending transform data"
  shows "\<exists>out p. catalina_transform_write (zlib_transform_base_init Z h junk transform)
        (Some data) (of_nat (length data)) = Inr (Transformed (Some out) (of_nat (length out))) \<and>
    catalina_transform_read (zlib_transform_base_init Z h' junk' transform')
        (Some out) (of_nat (length out)) = Inr (Transformed p (of_nat (length data))) \<and>
    (data \<noteq> [] \<longrightarrow> p = Some data)"
  using zlib_write_read [OF assms, of h junk h' junk']
  by (auto simp: catalina_transform_read_def catalina_transform_write_def zlib_transform_base_init_def)

theorem zlib_transform_roundtrip_witness:
  "\<exists>out p. catalina_transform_write (zlib_transform_base_init storing_zlib Little (\<lambda>_ _. 7) zlib_transform_init)
        (Some [1, 2, 3]) 3 = Inr (Transformed (Some out) (of_nat (length out))) \<and>
    catalina_transform_read (zlib_transform_base_init storing_zlib Big (\<lambda>_ _. 9) zlib_transform_init)
        (Some out) (of_nat (length out)) = Inr (Transformed p 3) \<and> p = Some [1, 2, 3]"
  using zlib_transform_roundtrip [OF storing_domain [of "[1, 2, 3]" zlib_transform_init],
      of Little "\<lambda>_ _. 7" Big "\<lambda>_ _. 9" zlib_transform_init]
  by (simp add: zlib_transform_init_def)

text \<open>
  above the watermark, the block written is the compressed stream, the length of the
  input in four bytes, most significant first, and the flag 1; the length reported is that of
  the block.
\<close>

theorem compressed_form:
  assumes "zlib_domain Z pending transform data" "\<not> stored_plain transform data"
  shows "zlib_real_write Z h junk transform (Some data) (of_nat (length data)) =
    Some (Inr (Transformed
      (Some (compressed Z pending transform data @ be_bytes (of_nat (length data) :: guint) @ [1]))
      (of_nat (length (compressed Z pending transform data) + 5))))"
  using assms by (rule compressed_written)

theorem compressed_form_witness:
  "zlib_real_write storing_zlib Little (\<lambda>_ _. 7) zlib_transform_init (Some [65, 66, 67]) 3 =
    Some (Inr (Transformed (Some [120, 65, 66, 67, 0, 0, 0, 3, 1]) 9))"
proof -
  have d: "zlib_domain storing_zlib storing_pending zlib_transform_init [65, 66, 67]"
    by (rule storing_domain) (simp_all add: zlib_transform_init_def)
  have p: "\<not> stored_plain zlib_transform_init [65, 66, 67]"
    by (simp add: stored_plain_def zlib_transform_init_def)
  have "be_bytes (3 :: guint) = [0, 0, 0, 3]" by code_simp
  then show ?thesis
    using compressed_form [OF d p, of Little "\<lambda>_ _. 7"]
    by (simp add: compressed_def storing_zlib_def storing_pending_def zlib_transform_init_def)
qed

text \<open>
  A buffer that is not longer than the watermark is stored as it is with the flag 0
  behind it, without a call of zlib, and read back without one.
\<close>

theorem plain_form:
  assumes "stored_plain transform data" "length data < 2 ^ 32"
  shows "zlib_real_write Z h junk transform (Some data) (of_nat (length data)) =
      Some (Inr (Transformed (Some (data @ [0])) (of_nat (length data) + 1))) \<and>
    zlib_real_read Z' h' junk' (Some (data @ [0])) (of_nat (length data) + 1) =
      Inr (Transformed (map_option (\<lambda>_. data) (g_malloc (junk' 0) (length data))) (of_nat (length data)))"
  using plain_written [OF assms, of Z h junk] plain_read [of data Z' h' junk'] assms(2) by simp

theorem plain_form_witness:
  "zlib_real_write storing_zlib Little (\<lambda>_ _. 7) \<lparr>zlib_watermark = 8, zlib_level = 6\<rparr>
     (Some [1, 2, 3, 4, 5, 6, 7, 8]) 8 = Some (Inr (Transformed (Some [1, 2, 3, 4, 5, 6, 7, 8, 0]) 9))"
  using plain_form [of "\<lparr>zlib_watermark = 8, zlib_level = 6\<rparr>" "[1, 2, 3, 4, 5, 6, 7, 8]"
      storing_zlib Little "\<lambda>_ _. 7" storing_zlib Little "\<lambda>_ _. 7"]
  by (simp add: stored_plain_def)

lemma holds_stream_length: "holds_stream ps bs \<Longrightarrow> length ps = length bs div CHUNK + 1"
proof (induction ps bs rule: holds_stream.induct)
  case (2 part parts bs)
  then show ?case
    using CHUNK_pos by (auto simp: div_if [of "length bs"] split: if_splits)
qed simp

text \<open>
  C31: the deflating loop ends for every input, with one part per 16 KiB of output and one
  more, the last one not full; and the copying loop restores the stream from the parts,
  touching nothing behind it.
\<close>

theorem deflate_loop_ends:
  assumes "zlib_behaves Z pending"
  shows "\<exists>parts. deflate_loop Z junk strm input [] 0 =
      Some (Inr (Some (parts, of_nat (length (pending strm input)), []))) \<and>
    length parts = length (pending strm input) div CHUNK + 1 \<and>
    (length (pending strm input) < 2 ^ 32 \<longrightarrow>
      (\<forall>dst. length (pending strm input) \<le> length dst \<longrightarrow>
        copy_parts dst (of_nat (length (pending strm input))) 0 (rev parts) =
          Inr (pending strm input @ drop (length (pending strm input)) dst)))"
proof -
  obtain ps where "deflate_loop Z junk strm input [] 0 =
      Some (Inr (Some (rev ps, of_nat (length (pending strm input)), [])))"
    and "holds_stream ps (pending strm input)"
    using deflate_loop_collects [OF assms, of junk strm input "[]" 0] by auto
  then show ?thesis
    using holds_stream_length copy_parts_joins by (intro exI [of _ "rev ps"]) simp
qed

theorem deflate_loop_ends_witness:
  "\<exists>parts. deflate_loop storing_zlib (\<lambda>_ _. 0) False [1, 2, 3] [] 0 = Some (Inr (Some (parts, 3, []))) \<and>
    length parts = 1"
proof -
  have "Suc (Suc (Suc 0)) div CHUNK = 0" by (simp add: CHUNK_def)
  then show ?thesis
    using deflate_loop_ends [OF storing_zlib_behaves, of "\<lambda>_ _. 0" False "[1, 2, 3]"]
    by (auto simp: storing_pending_def)
qed

text \<open>
  The watermark and the level read back as they were set, and a negative watermark
  switches compression off.
\<close>

theorem zlib_settings:
  "zlib_transform_get_watermark (zlib_transform_set_watermark transform w) = w \<and>
   zlib_transform_get_level (zlib_transform_set_level transform l) = l \<and>
   zlib_transform_get_level (zlib_transform_set_watermark transform w) = zlib_transform_get_level transform \<and>
   zlib_transform_get_watermark (zlib_transform_set_level transform l) = zlib_transform_get_watermark transform \<and>
   (sint w < 0 \<and> length data < 2 ^ 31 \<longrightarrow>
      zlib_real_write Z h junk (zlib_transform_set_watermark transform w) (Some data) (of_nat (length data)) =
        Some (Inr (Transformed (Some (data @ [0])) (of_nat (length data) + 1))))"
proof -
  have u: "ucast (scast w :: gsize) = w"
    by (rule bit_word_eqI) (simp add: bit_ucast_iff bit_signed_iff)
  have "stored_plain (zlib_transform_set_watermark transform w) data"
    if "sint w < 0" "length data < 2 ^ 31"
  proof -
    have "2 ^ 31 \<le> unat w"
    proof (rule ccontr)
      assume "\<not> 2 ^ 31 \<le> unat w"
      then have "int (unat w) < int (2 ^ 31)" by (simp only: of_nat_less_iff not_le)
      then have "uint w < 2 ^ 31" by simp
      then have "sint w = uint w"
        by (simp add: sint_uint signed_take_bit_int_eq_self_iff order_trans [OF _ uint_ge_0])
      then show False using that(1) by simp
    qed
    then show ?thesis using that(2) by (simp add: stored_plain_def zlib_transform_set_watermark_def u)
  qed
  then show ?thesis
    using plain_written [of "zlib_transform_set_watermark transform w" data Z h junk]
    by (simp add: zlib_transform_set_watermark_def zlib_transform_get_watermark_def
        zlib_transform_set_level_def zlib_transform_get_level_def u)
qed

theorem zlib_settings_witness:
  "zlib_real_write storing_zlib Little (\<lambda>_ _. 0) (zlib_transform_set_watermark zlib_transform_init (- 1))
     (Some [1, 2]) 2 = Some (Inr (Transformed (Some [1, 2, 0]) 3))"
  using zlib_settings [of zlib_transform_init "- 1" 6 "[1, 2]" storing_zlib Little "\<lambda>_ _. 0"] by simp

text \<open>
  C32: a buffer of 4 GiB or more is cut: only its length modulo \<open>2 ^ 32\<close> is handed to
  zlib and recorded, so that what is stored is what would be stored for that prefix.
\<close>

theorem huge_buffers_are_cut:
  assumes "zlib_watermark transform = 0" "length data < 2 ^ 64" "0 < length data mod 2 ^ 32"
  shows "zlib_real_write Z h junk transform (Some data) (of_nat (length data)) =
    zlib_real_write Z h junk transform (Some (take (length data mod 2 ^ 32) data))
      (of_nat (length data mod 2 ^ 32))"
proof -
  define m where "m = length data mod 2 ^ 32"
  have m: "m < 2 ^ 32" "m \<le> length data" "0 < m" using assms(3) by (simp_all add: m_def)
  have u: "ucast (of_nat (length data) :: gsize) = (of_nat m :: guint)"
    "ucast (of_nat m :: gsize) = (of_nat m :: guint)"
    unfolding m_def using assms(2) by (auto intro!: unsigned_word_eqI [where ?'a = nat]
        simp: unsigned_ucast_eq unsigned_of_nat take_bit_eq_mod)
  have z: "\<not> (of_nat (length data) :: gsize) \<le> 0" "\<not> (of_nat m :: gsize) \<le> 0"
    using assms(2) m less_le_trans [OF m(3,2)] by (simp_all add: word_le_nat_alt unat_of_nat_gsize)
  have r: "read_mem (Some data) m = Inr (take m data)"
    "read_mem (Some (take m data)) m = Inr (take m data)"
    using m by (simp_all add: read_mem_def load_bytes_def)
  show ?thesis
    unfolding m_def [symmetric] zlib_real_write_def Let_def assms(1) u unat_of_nat_guint [OF m(1)] r
    using z by (simp add: u)
qed

theorem huge_buffers_are_cut_witness:
  "zlib_real_write storing_zlib Little (\<lambda>_ _. 0) zlib_transform_init
     (Some (replicate (2 ^ 32 + 3) 65)) (of_nat (2 ^ 32 + 3)) =
   Some (Inr (Transformed (Some [120, 65, 65, 65, 0, 0, 0, 3, 1]) 9))"
proof -
  let ?data = "replicate (2 ^ 32 + 3) 65 :: bytes"
  have c: "zlib_real_write storing_zlib Little (\<lambda>_ _. 0) zlib_transform_init (Some ?data) (of_nat (length ?data)) =
    zlib_real_write storing_zlib Little (\<lambda>_ _. 0) zlib_transform_init (Some (take (length ?data mod 2 ^ 32) ?data))
      (of_nat (length ?data mod 2 ^ 32))"
    by (rule huge_buffers_are_cut) (simp_all add: zlib_transform_init_def)
  have "take 3 ?data = [65, 65, 65]" by (simp add: numeral_3_eq_3 take_replicate)
  moreover have "zlib_real_write storing_zlib Little (\<lambda>_ _. 0) zlib_transform_init (Some [65, 65, 65]) 3 =
    Some (Inr (Transformed (Some [120, 65, 65, 65, 0, 0, 0, 3, 1]) 9))"
  proof -
    have "zlib_domain storing_zlib storing_pending zlib_transform_init [65, 65, 65]"
      by (rule storing_domain) (simp_all add: zlib_transform_init_def)
    moreover have "\<not> stored_plain zlib_transform_init [65, 65, 65]"
      by (simp add: stored_plain_def zlib_transform_init_def)
    moreover have "be_bytes (3 :: guint) = [0, 0, 0, 3]" by code_simp
    ultimately show ?thesis
      using compressed_written [of storing_zlib storing_pending zlib_transform_init "[65, 65, 65]" Little "\<lambda>_ _. 0"]
      by (simp add: compressed_def storing_zlib_def storing_pending_def zlib_transform_init_def)
  qed
  ultimately show ?thesis using c by simp
qed

text \<open>
  C33: the reader has no check of its input: an empty buffer, or one of fewer than five bytes
  that does not end in 0, is read outside its bounds, and one that zlib does not accept aborts
  the process where an error is documented.
\<close>

theorem unchecked_input:
  assumes "inflateInit Z = Some i"
  shows "zlib_real_read Z h junk (Some []) 0 = Inl Out_Of_Bounds \<and>
    (0 < length buf \<and> length buf < 5 \<and> last buf \<noteq> 0 \<longrightarrow>
      zlib_real_read Z h junk (Some buf) (of_nat (length buf)) = Inl Out_Of_Bounds) \<and>
    (length body + 5 < 2 ^ 32 \<and> flag \<noteq> 0 \<and>
     fst (inflate Z i body (unat len)) \<noteq> Z_STREAM_END \<and> length (snd (inflate Z i body (unat len))) \<le> unat len \<longrightarrow>
      zlib_real_read Z h junk (Some (body @ be_bytes (len :: guint) @ [flag])) (of_nat (length body + 5)) = Inl Process_Abort)"
proof (intro conjI impI)
  show "zlib_real_read Z h junk (Some []) 0 = Inl Out_Of_Bounds"
    by (simp add: zlib_real_read_def mem_simps)
next
  assume b: "0 < length buf \<and> length buf < 5 \<and> last buf \<noteq> 0"
  then have "length buf - 1 < 4" by linarith
  then have n: "length buf - 1 < 2 ^ 64" by (rule less_trans) simp
  have "(of_nat (length buf) - 1 :: gsize) = of_nat (length buf - 1)" using b by (simp add: of_nat_diff Suc_le_eq)
  then have "unat (of_nat (length buf) - 1 :: gsize) = length buf - 1"
    using unat_of_nat_gsize [OF n] by simp
  then have "load_byte buf (unat (of_nat (length buf) - 1 :: gsize)) = Inr (last buf)"
    using b by (simp add: load_byte_def last_conv_nth)
  moreover have "length buf < unat (of_nat (length buf) - 5 :: gsize) + 4"
  proof -
    consider "length buf = 1" | "length buf = 2" | "length buf = 3" | "length buf = 4" using b by linarith
    then show ?thesis by cases (simp_all add: unsigned_minus_1_eq_mask mask_eq_exp_minus_1)
  qed
  ultimately show "zlib_real_read Z h junk (Some buf) (of_nat (length buf)) = Inl Out_Of_Bounds"
    using b by (simp add: zlib_real_read_def assms load_bytes_short)
next
  let ?n = "length body" and ?buf = "body @ be_bytes len @ [flag]"
  assume b: "?n + 5 < 2 ^ 32 \<and> flag \<noteq> 0 \<and> fst (inflate Z i body (unat len)) \<noteq> Z_STREAM_END \<and>
    length (snd (inflate Z i body (unat len))) \<le> unat len"
  then have n: "?n + 5 < 2 ^ 32" by simp
  have o: "unat (of_nat (?n + 5) - 5 :: gsize) = ?n" "unat (of_nat (?n + 5) - 1 :: gsize) = ?n + 4"
    using n unat_of_nat_gsize [of ?n] unat_of_nat_gsize [of "?n + 4"]
    by (simp_all add: add.commute [of _ 4])
  have "(of_nat (?n + 5) - 5 :: gsize) = of_nat ?n" by simp
  then have a: "unat (ucast (of_nat (?n + 5) - 5 :: gsize) :: guint) = ?n"
    using n by (simp add: ucast_of_nat_guint unat_of_nat_guint)
  have ld: "load_byte ?buf (?n + 4) = Inr flag" "load_bytes ?buf ?n 4 = Inr (be_bytes len)"
    "load_bytes ?buf 0 ?n = Inr body"
    by (simp_all add: load_byte_def load_bytes_def nth_append)
  show "zlib_real_read Z h junk (Some ?buf) (of_nat (?n + 5)) = Inl Process_Abort"
    using b by (simp add: zlib_real_read_def Let_def o a ld assms from_be_mem_load of_be_bytes_be_bytes
        store_bytes_def case_prod_beta del: of_nat_add)
qed

theorem unchecked_input_witness:
  "zlib_real_read storing_zlib Little (\<lambda>_ _. 0) (Some [1, 2, 1]) 3 = Inl Out_Of_Bounds \<and>
   zlib_real_read storing_zlib Little (\<lambda>_ _. 0) (Some [1, 2, 0, 0, 0, 9, 1]) 7 = Inl Process_Abort"
proof -
  have i: "inflateInit storing_zlib = Some False" by (simp add: storing_zlib_def)
  have "be_bytes (9 :: guint) = [0, 0, 0, 9]" by code_simp
  moreover have "inflate storing_zlib False [1, 2] 9 = (Z_OTHER, [])" by (simp add: storing_zlib_def)
  ultimately show ?thesis
    using unchecked_input [OF i, of Little "\<lambda>_ _. 0" "[1, 2, 1]" "[1, 2]" 1 9] by simp
qed

end
