(* ===== verification/Storage_Model.thy ===== *)
theory Storage_Model
  imports Interfaces "HOL-Library.AList"
begin

text \<open>
  The state of a \<^verbatim>\<open>CatalinaStorage\<close> and the objects it works with, from
  \<^verbatim>\<open>catalina/catalina-storage-private.h\<close> and \<^verbatim>\<open>catalina/catalina-storage.c\<close>: storage tasks,
  the messages that carry them, the state of a transaction, and the tables they live in.

  Parameters, in the record \<open>env\<close>: the TDB library with the file system below it (a world
  \<open>'w\<close> that its calls read and change, with handles for open databases), the byte order of
  the host, and the word the uninitialised \<^verbatim>\<open>o_flags\<close> holds.

  A task is a cell of a heap, named by a number; reading a cell that is not allocated (any
  more) is \<open>Inl Use_After_Free\<close>. Reference counts, and the buffers tasks point to once they
  are handed to the caller, are not modelled.
\<close>

type_synonym gulong = "64 word"
type_synonym gssize = "64 word"

section \<open>The parameters\<close>

record 'w env =
  host :: endian
  stack_word :: gint
  tdb_convert :: gint
  tdb_nolock :: gint
  tdb_replace :: gint
  o_creat :: gint
  o_rdwr :: gint
  g_path_get_dirname :: "bytes \<Rightarrow> bytes"
  g_build_filename :: "bytes \<Rightarrow> bytes \<Rightarrow> bytes"
  is_dir :: "bytes \<Rightarrow> 'w \<Rightarrow> bool"
  is_regular :: "bytes \<Rightarrow> 'w \<Rightarrow> bool"
  g_mkdir_with_parents :: "bytes \<Rightarrow> 'w \<Rightarrow> 'w"
  tdb_open :: "bytes \<Rightarrow> gint \<Rightarrow> gint \<Rightarrow> 'w \<Rightarrow> nat option \<times> 'w"
  tdb_close :: "nat \<Rightarrow> 'w \<Rightarrow> gint \<times> 'w"
  tdb_fetch :: "nat \<Rightarrow> bytes \<Rightarrow> 'w \<Rightarrow> bytes option"
  tdb_store :: "nat \<Rightarrow> bytes \<Rightarrow> bytes \<Rightarrow> gint \<Rightarrow> 'w \<Rightarrow> gint \<times> 'w"
  tdb_traverse :: "nat \<Rightarrow> 'w \<Rightarrow> (bytes \<times> bytes) list"
  tdb_transaction_start :: "nat \<Rightarrow> 'w \<Rightarrow> gint \<times> 'w"
  tdb_transaction_commit :: "nat \<Rightarrow> 'w \<Rightarrow> gint \<times> 'w"
  tdb_transaction_recover :: "nat \<Rightarrow> 'w \<Rightarrow> gint \<times> 'w"

section \<open>Messages, tasks and transactions\<close>

datatype message_type =
    MESSAGE_0 | MESSAGE_OPEN | MESSAGE_CLOSE | MESSAGE_GET | MESSAGE_GET_VALUE | MESSAGE_SET
  | MESSAGE_SET_VALUE | MESSAGE_COUNT_KEYS | MESSAGE_TXN_BEGIN | MESSAGE_TXN_COMMIT | MESSAGE_TXN_CANCEL

text \<open>A message carries the address of a task.\<close>

datatype message = Message (what: message_type) (message_task: nat)

text \<open>
  What a completed asynchronous task calls: code of the application, or one of the two
  callbacks of the library, which complete another task. The tag is the function that
  started the request.
\<close>

datatype callback = User_Callback nat | Get_Value_Async_Cb nat | Set_Value_Async_Cb nat

datatype source_tag =
    Tag_Open | Tag_Close | Tag_Get | Tag_Set | Tag_Get_Value | Tag_Set_Value
  | Tag_Begin | Tag_Commit | Tag_Cancel

text \<open>A task has a mutex and a condition when it is synchronous, and a result otherwise.\<close>

datatype waiter = Mutex_Cond | Async_Result callback source_tag

record 'o task =
  task_txn_id :: gulong
  task_waiter :: waiter
  task_success :: bool
  task_key :: "bytes option"
  task_key_length :: gsize
  task_data :: "bytes option"
  task_data_length :: gsize
  task_value :: "'o gvalue"
  task_error :: "gerror option"

record txn_state =
  state_txn_id :: gulong
  msgs :: "message list"
  txn_error :: "gerror option"

section \<open>The storage\<close>

text \<open>
  The completions in the order they happen: a waiting thread is signalled, a callback is
  queued for the main loop, or called at once.
\<close>

datatype completion = Signalled nat | In_Idle nat | Called nat

record ('o, 'w) storage =
  db_ctx :: "nat option"
  use_idle :: bool
  flags :: guint
  storage_formatter :: "'o formatter_iface option"
  storage_transform :: "transform_iface option"
  txn_seq :: gulong
  txn :: gulong
  txn_commits :: "message list"
  txn_states :: "(32 word \<times> txn_state) list"
  ex_port :: "message list"
  cn_port :: "message list"
  tasks :: "nat \<Rightarrow> 'o task option"
  next_task :: nat
  completions :: "completion list"
  world :: 'w

definition catalina_storage_init :: "'w \<Rightarrow> ('o, 'w) storage" where
  "catalina_storage_init w =
     \<lparr>db_ctx = None, use_idle = True, flags = 0, storage_formatter = None, storage_transform = None,
      txn_seq = 0, txn = 0, txn_commits = [], txn_states = [], ex_port = [], cn_port = [],
      tasks = (\<lambda>_. None), next_task = 0, completions = [], world = w\<rparr>"

text \<open>
  \<^verbatim>\<open>txn_state\<close> is a table with \<^verbatim>\<open>g_int_hash\<close> and \<^verbatim>\<open>g_int_equal\<close> over pointers to \<^verbatim>\<open>gulong\<close>s:
  what it compares are the first four bytes in memory. \<^verbatim>\<open>g_atomic_int_inc\<close> on the sequence
  number increments those same four bytes.
\<close>

definition txn_hash_key :: "endian \<Rightarrow> gulong \<Rightarrow> 32 word" where
  "txn_hash_key h txn_id = (case h of Little \<Rightarrow> ucast txn_id | Big \<Rightarrow> ucast (drop_bit 32 txn_id))"

definition atomic_int_inc :: "endian \<Rightarrow> gulong \<Rightarrow> gulong" where
  "atomic_int_inc h seq = (case h of
     Little \<Rightarrow> push_bit 32 (drop_bit 32 seq) OR ucast ((ucast seq :: 32 word) + 1)
   | Big \<Rightarrow> seq + 2 ^ 32)"

section \<open>Tasks\<close>

definition get_task :: "('o, 'w) storage \<Rightarrow> nat \<Rightarrow> 'o task result" where
  "get_task s t = (case tasks s t of None \<Rightarrow> Inl Use_After_Free | Some k \<Rightarrow> Inr k)"

definition upd_task :: "nat \<Rightarrow> ('o task \<Rightarrow> 'o task) \<Rightarrow> ('o, 'w) storage \<Rightarrow> ('o, 'w) storage result" where
  "upd_task t f s = c_bind (get_task s t) (\<lambda>k. Inr (s\<lparr>tasks := (tasks s)(t := Some (f k))\<rparr>))"

definition storage_task_new :: "waiter \<Rightarrow> ('o, 'w) storage \<Rightarrow> nat \<times> ('o, 'w) storage" where
  "storage_task_new w s =
     (let t = next_task s;
          task = \<lparr>task_txn_id = 0, task_waiter = w, task_success = False, task_key = None,
            task_key_length = 0, task_data = None, task_data_length = 0, task_value = VUnset,
            task_error = None\<rparr> in
      (t, s\<lparr>tasks := (tasks s)(t := Some task), next_task := Suc t\<rparr>))"

definition storage_task_free :: "nat \<Rightarrow> ('o, 'w) storage \<Rightarrow> ('o, 'w) storage result" where
  "storage_task_free t s = c_bind (get_task s t) (\<lambda>_. Inr (s\<lparr>tasks := (tasks s)(t := None)\<rparr>))"

text \<open>What \<^verbatim>\<open>storage_task_wait\<close> returns once the task is signalled, with the error it copies.\<close>

definition storage_task_wait :: "nat \<Rightarrow> ('o, 'w) storage \<Rightarrow> (bool \<times> gerror option) result" where
  "storage_task_wait t s = c_bind (get_task s t) (\<lambda>k.
     Inr (task_success k, if \<not> task_success k then task_error k else None))"

definition storage_task_complete :: "nat \<Rightarrow> bool \<Rightarrow> ('o, 'w) storage \<Rightarrow> ('o, 'w) storage result" where
  "storage_task_complete t success s =
     c_bind (upd_task t (\<lambda>k. k\<lparr>task_success := success\<rparr>) s) (\<lambda>s.
     c_bind (get_task s t) (\<lambda>k.
     Inr (s\<lparr>completions := completions s @
       [case task_waiter k of
          Mutex_Cond \<Rightarrow> Signalled t
        | Async_Result _ _ \<Rightarrow> if use_idle s then In_Idle t else Called t]\<rparr>)))"

definition storage_task_succeed :: "nat \<Rightarrow> ('o, 'w) storage \<Rightarrow> ('o, 'w) storage result" where
  "storage_task_succeed t s = storage_task_complete t True s"

text \<open>The error of a task of a known transaction is copied to the state of the transaction.\<close>

definition storage_task_fail :: "'w env \<Rightarrow> nat \<Rightarrow> ('o, 'w) storage \<Rightarrow> ('o, 'w) storage result" where
  "storage_task_fail E t s =
     c_bind (get_task s t) (\<lambda>k.
     let s = (if task_txn_id k \<noteq> 0 \<and> task_error k \<noteq> None
              then case map_of (txn_states s) (txn_hash_key (host E) (task_txn_id k)) of
                  None \<Rightarrow> s
                | Some st \<Rightarrow> s\<lparr>txn_states := AList.update (txn_hash_key (host E) (task_txn_id k))
                    (st\<lparr>txn_error := task_error k\<rparr>) (txn_states s)\<rparr>
              else s) in
     storage_task_complete t False s)"

text \<open>\<^verbatim>\<open>g_set_error\<close> keeps an error that is already there.\<close>

definition g_set_error :: "gerror \<Rightarrow> gerror option \<Rightarrow> gerror option" where
  "g_set_error e old = (case old of None \<Rightarrow> Some e | Some e' \<Rightarrow> Some e')"

definition task_set_error :: "gerror \<Rightarrow> 'o task \<Rightarrow> 'o task" where
  "task_set_error e k = k\<lparr>task_error := g_set_error e (task_error k)\<rparr>"

definition fail_with :: "'w env \<Rightarrow> gerror \<Rightarrow> nat \<Rightarrow> ('o, 'w) storage \<Rightarrow> ('o, 'w) storage result" where
  "fail_with E e t s = c_bind (upd_task t (task_set_error e) s) (storage_task_fail E t)"

section \<open>The state of a transaction\<close>

definition txn_state_new :: "gulong \<Rightarrow> txn_state" where
  "txn_state_new txn_id = \<lparr>state_txn_id = txn_id, msgs = [], txn_error = None\<rparr>"

section \<open>Lemmas on tasks\<close>

lemma get_task_Some [simp]: "tasks s t = Some k \<Longrightarrow> get_task s t = Inr k"
  by (simp add: get_task_def)

lemma upd_task_Some: "tasks s t = Some k \<Longrightarrow> upd_task t f s = Inr (s\<lparr>tasks := (tasks s)(t := Some (f k))\<rparr>)"
  by (simp add: upd_task_def)

text \<open>How a task that is there is completed.\<close>

definition completed_state :: "nat \<Rightarrow> bool \<Rightarrow> 'o task \<Rightarrow> ('o, 'w) storage \<Rightarrow> ('o, 'w) storage" where
  "completed_state t ok k s = s\<lparr>tasks := (tasks s)(t := Some (k\<lparr>task_success := ok\<rparr>)),
     completions := completions s @
       [case task_waiter k of
          Mutex_Cond \<Rightarrow> Signalled t
        | Async_Result _ _ \<Rightarrow> if use_idle s then In_Idle t else Called t]\<rparr>"

lemma storage_task_complete_eq:
  "tasks s t = Some k \<Longrightarrow> storage_task_complete t ok s = Inr (completed_state t ok k s)"
  by (simp add: storage_task_complete_def upd_task_def completed_state_def)

lemma storage_task_succeed_eq:
  "tasks s t = Some k \<Longrightarrow> storage_task_succeed t s = Inr (completed_state t True k s)"
  by (simp add: storage_task_succeed_def storage_task_complete_eq)

end
