(* ===== verification/Storage_Handlers.thy ===== *)
theory Storage_Handlers
  imports Storage_Model
begin

text \<open>
  The message handlers of \<^verbatim>\<open>catalina/catalina-storage.c\<close>, one definition per handler, on the
  whole state of the storage, and the two dispatchers. A handler runs to its end before the
  next message that it could interfere with is delivered: exclusive messages are handled
  one at a time, and the concurrent ones (\<^verbatim>\<open>MESSAGE_GET\<close>, \<^verbatim>\<open>MESSAGE_COUNT_KEYS\<close>) change only
  their own task.

  Committing runs the queued messages of the transaction through the dispatcher, and then
  the next commit that is waiting, by recursion: \<open>depth\<close> is the nesting the C stack allows.
\<close>

section \<open>Opening and closing\<close>

definition c_text :: "bytes option \<Rightarrow> bytes result" where
  "c_text p = (case p of None \<Rightarrow> Inl Null_Pointer | Some buf \<Rightarrow> c_string buf)"

text \<open>
  The elements of \<^verbatim>\<open>txn_commits\<close> are messages; \<^verbatim>\<open>handle_open\<close> frees them as if they were
  transaction states. \<^verbatim>\<open>o_flags\<close> is assigned only when the file does not exist yet.
\<close>

definition handle_open :: "'w env \<Rightarrow> message \<Rightarrow> ('o, 'w) storage \<Rightarrow> ('o, 'w) storage result" where
  "handle_open E m s =
     (if what m \<noteq> MESSAGE_OPEN then Inr s
      else let t = message_task m in
      c_bind (get_task s t) (\<lambda>task.
      if db_ctx s \<noteq> None then fail_with E STORAGE_ERROR_STATE t s
      else c_bind (c_text (task_key task)) (\<lambda>path.
      let dir = g_path_get_dirname E path;
          s = (if is_dir E dir (world s) then s else s\<lparr>world := g_mkdir_with_parents E dir (world s)\<rparr>);
          s = s\<lparr>txn := 0\<rparr> in
      if txn_commits s \<noteq> [] then Inl Type_Confusion
      else
      let s = s\<lparr>txn_states := []\<rparr>;
          tdb_flags = (if host E = Little then tdb_convert E else 0) OR tdb_nolock E;
          o_flags = (if is_regular E path (world s) then stack_word E else o_creat E);
          (ctx, w) = tdb_open E path tdb_flags (o_flags OR o_rdwr E) (world s);
          s = s\<lparr>world := w\<rparr> in
      case ctx of
        None \<Rightarrow> fail_with E STORAGE_ERROR_DB t s
      | Some ctx \<Rightarrow>
          c_bind (upd_task t (\<lambda>k. k\<lparr>task_success := True\<rparr>) (s\<lparr>db_ctx := Some ctx\<rparr>)) (\<lambda>s.
          storage_task_succeed t s))))"

definition handle_close :: "'w env \<Rightarrow> message \<Rightarrow> ('o, 'w) storage \<Rightarrow> ('o, 'w) storage result" where
  "handle_close E m s =
     (if what m \<noteq> MESSAGE_CLOSE then Inr s
      else let t = message_task m in
      case db_ctx s of
        None \<Rightarrow> fail_with E STORAGE_ERROR_STATE t s
      | Some ctx \<Rightarrow>
          if txn s \<noteq> 0 \<or> 0 < length (txn_states s) then fail_with E STORAGE_ERROR_STATE t s
          else let (ret, w) = tdb_close E ctx (world s);
                   s = s\<lparr>world := w\<rparr> in
            if ret \<noteq> 0 then fail_with E STORAGE_ERROR_STATE t s
            else c_bind (upd_task t (\<lambda>k. k\<lparr>task_success := True\<rparr>) (s\<lparr>db_ctx := None\<rparr>)) (\<lambda>s.
                 storage_task_succeed t s))"

section \<open>Reading, writing and counting\<close>

text \<open>The key and the value TDB is given are the bytes at an address, with their length.\<close>

definition handle_get :: "'w env \<Rightarrow> message \<Rightarrow> ('o, 'w) storage \<Rightarrow> ('o, 'w) storage result" where
  "handle_get E m s =
     (if what m \<noteq> MESSAGE_GET then Inr s
      else let t = message_task m in
      case db_ctx s of
        None \<Rightarrow> fail_with E STORAGE_ERROR_STATE t s
      | Some ctx \<Rightarrow>
          c_bind (get_task s t) (\<lambda>task.
          c_bind (read_mem (task_key task) (unat (task_key_length task))) (\<lambda>db_key.
          case tdb_fetch E ctx db_key (world s) of
            None \<Rightarrow> fail_with E STORAGE_ERROR_NO_SUCH_KEY t s
          | Some db_value \<Rightarrow>
              let copy = (\<lambda>s. c_bind (upd_task t (\<lambda>k. k\<lparr>task_data := Some db_value,
                             task_data_length := of_nat (length db_value)\<rparr>) s) (storage_task_succeed t)) in
              (case storage_transform s of
                None \<Rightarrow> copy s
              | Some transform \<Rightarrow>
                  c_bind (catalina_transform_read transform (Some db_value) (of_nat (length db_value))) (\<lambda>r.
                  case r of
                    Transform_Failed e \<Rightarrow> fail_with E e t s
                  | Transformed buffer buffer_length \<Rightarrow>
                      if buffer_length = 0 then copy s
                      else c_bind (upd_task t (\<lambda>k. k\<lparr>task_data := buffer,
                             task_data_length := buffer_length\<rparr>) s) (storage_task_succeed t))))))"

definition handle_set :: "'w env \<Rightarrow> message \<Rightarrow> ('o, 'w) storage \<Rightarrow> ('o, 'w) storage result" where
  "handle_set E m s =
     (if what m \<noteq> MESSAGE_SET then Inr s
      else let t = message_task m in
      case db_ctx s of
        None \<Rightarrow> fail_with E STORAGE_ERROR_STATE t s
      | Some ctx \<Rightarrow>
          c_bind (get_task s t) (\<lambda>task.
          let txn_id = task_txn_id task;
              hash_key = txn_hash_key (host E) txn_id in
          if txn_id \<noteq> 0 \<and> txn s \<noteq> txn_id
          then case map_of (txn_states s) hash_key of
                 None \<Rightarrow> fail_with E STORAGE_ERROR_NO_SUCH_TXN t s
               | Some state \<Rightarrow>
                   Inr (s\<lparr>txn_states := AList.update hash_key (state\<lparr>msgs := m # msgs state\<rparr>) (txn_states s)\<rparr>)
          else if \<not> (txn s = 0 \<or> txn s = txn_id) then Inr s
          else c_bind (case storage_transform s of
                 None \<Rightarrow> Inr (Transformed None 0)
               | Some transform \<Rightarrow>
                   catalina_transform_write transform (task_data task) (task_data_length task)) (\<lambda>r.
          case r of
            Transform_Failed e \<Rightarrow> fail_with E e t s
          | Transformed buffer buffer_length \<Rightarrow>
              let dptr = (if buffer \<noteq> None then buffer else task_data task);
                  dsize = (if buffer \<noteq> None then buffer_length else task_data_length task) in
              c_bind (read_mem (task_key task) (unat (task_key_length task))) (\<lambda>db_key.
              c_bind (read_mem dptr (unat dsize)) (\<lambda>dbuf.
              let (ret, w) = tdb_store E ctx db_key dbuf (tdb_replace E) (world s);
                  s = s\<lparr>world := w\<rparr> in
              if ret \<noteq> 0 then fail_with E STORAGE_ERROR_NO_SUCH_KEY t s
              else storage_task_succeed t s)))))"

definition handle_count_keys_cb :: "bytes \<times> bytes \<Rightarrow> gulong \<Rightarrow> gulong" where
  "handle_count_keys_cb entry count = count + 1"

definition handle_count_keys :: "'w env \<Rightarrow> message \<Rightarrow> ('o, 'w) storage \<Rightarrow> ('o, 'w) storage result" where
  "handle_count_keys E m s =
     (if what m \<noteq> MESSAGE_COUNT_KEYS then Inr s
      else let t = message_task m in
      c_bind (upd_task t (\<lambda>k. k\<lparr>task_value := VULong 0\<rparr>) s) (\<lambda>s.
      c_bind (case db_ctx s of
          None \<Rightarrow> Inr s
        | Some ctx \<Rightarrow>
            let count = fold handle_count_keys_cb (tdb_traverse E ctx (world s)) 0 in
            upd_task t (\<lambda>k. k\<lparr>task_value := VULong count\<rparr>) s) (\<lambda>s.
      storage_task_succeed t s)))"

section \<open>Beginning and cancelling a transaction\<close>

text \<open>
  A sequence number that comes round again while its first transaction is pending takes the
  entry of that transaction over. (The entry of the C table then keeps the address of the old
  key, in the freed state: that it is read later is not modelled.)
\<close>

definition handle_txn_begin :: "'w env \<Rightarrow> message \<Rightarrow> ('o, 'w) storage \<Rightarrow> ('o, 'w) storage result" where
  "handle_txn_begin E m s =
     (if what m \<noteq> MESSAGE_TXN_BEGIN then Inr s
      else let t = message_task m in
      if db_ctx s = None then storage_task_fail E t s
      else let s = s\<lparr>txn_seq := atomic_int_inc (host E) (txn_seq s)\<rparr>;
               state = txn_state_new (txn_seq s) in
        c_bind (upd_task t (\<lambda>k. k\<lparr>task_value := VULong (txn_seq s), task_txn_id := state_txn_id state\<rparr>) s) (\<lambda>s.
        storage_task_succeed t
          (s\<lparr>txn_states := AList.update (txn_hash_key (host E) (state_txn_id state)) state (txn_states s)\<rparr>)))"

text \<open>
  \<^verbatim>\<open>g_list_remove\<close> looks for the address of the transaction state among the messages of
  \<^verbatim>\<open>txn_commits\<close>, and so never finds it: the list stays as it is.
\<close>

definition handle_txn_cancel :: "'w env \<Rightarrow> message \<Rightarrow> ('o, 'w) storage \<Rightarrow> ('o, 'w) storage result" where
  "handle_txn_cancel E m s =
     (if what m \<noteq> MESSAGE_TXN_CANCEL then Inr s
      else let t = message_task m in
      if db_ctx s = None then storage_task_fail E t s
      else c_bind (get_task s t) (\<lambda>task.
        let hash_key = txn_hash_key (host E) (task_txn_id task) in
        storage_task_succeed t
          (if map_of (txn_states s) hash_key = None then s
           else s\<lparr>txn_states := AList.delete hash_key (txn_states s)\<rparr>)))"

section \<open>Committing\<close>

text \<open>
  \<open>run_msgs\<close> is the loop of \<^verbatim>\<open>txn_state_run\<close>; \<open>hash_key\<close> is where the state is found, \<open>ct\<close> the
  task of the commit, whose error it sets. The queued messages are run oldest first.
\<close>

definition take_txn_error :: "32 word \<Rightarrow> nat \<Rightarrow> txn_state \<Rightarrow> gerror \<Rightarrow> ('o, 'w) storage \<Rightarrow> ('o, 'w) storage result" where
  "take_txn_error hash_key ct state e s =
     c_bind (get_task s ct) (\<lambda>task.
     if task_error task = None
     then c_bind (upd_task ct (\<lambda>k. k\<lparr>task_error := Some e\<rparr>) s) (\<lambda>s.
          Inr (s\<lparr>txn_states := AList.update hash_key (state\<lparr>txn_error := None\<rparr>) (txn_states s)\<rparr>))
     else Inr s)"

function (sequential)
    catalina_storage_ex_handle_message :: "'w env \<Rightarrow> nat \<Rightarrow> message \<Rightarrow> ('o, 'w) storage \<Rightarrow> ('o, 'w) storage result"
and handle_txn_commit :: "'w env \<Rightarrow> nat \<Rightarrow> message \<Rightarrow> ('o, 'w) storage \<Rightarrow> ('o, 'w) storage result"
and txn_state_run :: "'w env \<Rightarrow> nat \<Rightarrow> 32 word \<Rightarrow> nat \<Rightarrow> ('o, 'w) storage \<Rightarrow> (bool \<times> ('o, 'w) storage) result"
and run_msgs :: "'w env \<Rightarrow> nat \<Rightarrow> 32 word \<Rightarrow> nat \<Rightarrow> message list \<Rightarrow> ('o, 'w) storage \<Rightarrow> (bool \<times> ('o, 'w) storage) result"
where
  "catalina_storage_ex_handle_message E depth m s =
     (case what m of
        MESSAGE_SET \<Rightarrow> handle_set E m s
      | MESSAGE_OPEN \<Rightarrow> handle_open E m s
      | MESSAGE_CLOSE \<Rightarrow> handle_close E m s
      | MESSAGE_TXN_BEGIN \<Rightarrow> handle_txn_begin E m s
      | MESSAGE_TXN_COMMIT \<Rightarrow> handle_txn_commit E depth m s
      | MESSAGE_TXN_CANCEL \<Rightarrow> handle_txn_cancel E m s
      | _ \<Rightarrow> Inr s)"
| "handle_txn_commit E 0 m s = Inl Stack_Exhausted"
| "handle_txn_commit E (Suc depth) m s =
     (if what m \<noteq> MESSAGE_TXN_COMMIT then Inr s
      else let t = message_task m in
      case db_ctx s of
        None \<Rightarrow> fail_with E STORAGE_ERROR_STATE t s
      | Some ctx \<Rightarrow>
          c_bind (get_task s t) (\<lambda>task.
          let txn_id = task_txn_id task;
              hash_key = txn_hash_key (host E) txn_id in
          if txn s \<noteq> 0 \<and> txn s \<noteq> txn_id then Inr (s\<lparr>txn_commits := txn_commits s @ [m]\<rparr>)
          else let s = s\<lparr>txn := txn_id\<rparr> in
            if map_of (txn_states s) hash_key = None then fail_with E STORAGE_ERROR_STATE t s
            else let (ret, w) = tdb_transaction_start E ctx (world s);
                     s = s\<lparr>world := w\<rparr> in
              if ret \<noteq> 0 then fail_with E STORAGE_ERROR_DB t s
              else
                c_bind (txn_state_run E depth hash_key t s) (\<lambda>(success, s).
                let (ret, w) = (if success then tdb_transaction_commit E ctx (world s) else (0, world s));
                    s = s\<lparr>world := w\<rparr> in
                c_bind (if ret \<noteq> 0
                        then c_bind (upd_task t (task_set_error STORAGE_ERROR_DB) s) (\<lambda>s. Inr (False, s))
                        else Inr (success, s)) (\<lambda>(success, s).
                let s = s\<lparr>txn_states := AList.delete hash_key (txn_states s), txn := 0\<rparr> in
                c_bind (if success then storage_task_succeed t s
                        else storage_task_fail E t (s\<lparr>world := snd (tdb_transaction_recover E ctx (world s))\<rparr>)) (\<lambda>s.
                case txn_commits s of
                  [] \<Rightarrow> Inr s
                | m' # commits \<Rightarrow> handle_txn_commit E depth m' (s\<lparr>txn_commits := commits\<rparr>))))))"
| "txn_state_run E depth hash_key ct s =
     (case map_of (txn_states s) hash_key of
        None \<Rightarrow> Inl Use_After_Free
      | Some state \<Rightarrow>
          let state = state\<lparr>msgs := rev (msgs state)\<rparr> in
          run_msgs E depth hash_key ct (msgs state)
            (s\<lparr>txn_states := AList.update hash_key state (txn_states s)\<rparr>))"
| "run_msgs E depth hash_key ct [] s = Inr (True, s)"
| "run_msgs E depth hash_key ct (m # ms) s =
     c_bind (catalina_storage_ex_handle_message E depth m s) (\<lambda>s.
     case map_of (txn_states s) hash_key of
       None \<Rightarrow> Inl Use_After_Free
     | Some state \<Rightarrow>
         (case txn_error state of
            None \<Rightarrow> run_msgs E depth hash_key ct ms s
          | Some e \<Rightarrow> c_bind (take_txn_error hash_key ct state e s) (\<lambda>s. Inr (False, s))))"
  by pat_completeness auto
termination
  by (relation "inv_image (less_than <*lex*> less_than <*lex*> less_than)
        (case_sum
          (case_sum (\<lambda>(E, n, m, s). (n, 1 :: nat, 0 :: nat)) (\<lambda>(E, n, m, s). (n, 0, 0)))
          (case_sum (\<lambda>(E, n, k, ct, s). (n, 3, 0)) (\<lambda>(E, n, k, ct, ms, s). (n, 2, length ms))))")
    auto

declare catalina_storage_ex_handle_message.simps [simp del] handle_txn_commit.simps [simp del]
  txn_state_run.simps [simp del]

section \<open>The concurrent dispatcher\<close>

definition catalina_storage_cn_handle_message :: "'w env \<Rightarrow> message \<Rightarrow> ('o, 'w) storage \<Rightarrow> ('o, 'w) storage result" where
  "catalina_storage_cn_handle_message E m s =
     (case what m of
        MESSAGE_GET \<Rightarrow> handle_get E m s
      | MESSAGE_COUNT_KEYS \<Rightarrow> handle_count_keys E m s
      | _ \<Rightarrow> Inr s)"

end
