(* ===== verification/Storage_Client.thy ===== *)
theory Storage_Client
  imports Storage_Handlers
begin

text \<open>
  The public functions of \<^verbatim>\<open>catalina/catalina-storage.c\<close>. A request allocates a task, copies
  its arguments into it and posts a message to a port; a \<^verbatim>\<open>_finish\<close> function reads the
  completed task and frees it. A synchronous function is modelled in two halves, up to
  \<^verbatim>\<open>storage_task_wait\<close> and from there on (the suffixes \<open>_post\<close> and \<open>_return\<close>); in between the
  thread sleeps until its task is signalled.

  A \<^verbatim>\<open>GError **\<close> argument is the option the caller's location holds, or absent; the results
  carry what it holds afterwards. A check of \<^verbatim>\<open>g_return_if_fail\<close> that fails leaves the state
  alone and returns \<open>None\<close> or \<^verbatim>\<open>FALSE\<close>.
\<close>

section \<open>Configuration\<close>

definition catalina_storage_get_use_idle :: "('o, 'w) storage \<Rightarrow> bool" where
  "catalina_storage_get_use_idle s = use_idle s"

definition catalina_storage_set_use_idle :: "bool \<Rightarrow> ('o, 'w) storage \<Rightarrow> ('o, 'w) storage" where
  "catalina_storage_set_use_idle b s = s\<lparr>use_idle := b\<rparr>"

definition catalina_storage_get_transform :: "('o, 'w) storage \<Rightarrow> transform_iface option" where
  "catalina_storage_get_transform s = storage_transform s"

definition catalina_storage_set_transform :: "transform_iface \<Rightarrow> ('o, 'w) storage \<Rightarrow> ('o, 'w) storage" where
  "catalina_storage_set_transform transform s = s\<lparr>storage_transform := Some transform\<rparr>"

definition catalina_storage_get_formatter :: "('o, 'w) storage \<Rightarrow> 'o formatter_iface option" where
  "catalina_storage_get_formatter s = storage_formatter s"

definition catalina_storage_set_formatter :: "'o formatter_iface \<Rightarrow> ('o, 'w) storage \<Rightarrow> ('o, 'w) storage" where
  "catalina_storage_set_formatter formatter s = s\<lparr>storage_formatter := Some formatter\<rparr>"

text \<open>
  The property interface of the object. GObject checks the type of a value before it calls
  the setter; an object property may be set to \<^verbatim>\<open>NULL\<close>.
\<close>

datatype storage_property = PROP_0 | PROP_USE_IDLE | PROP_FORMATTER | PROP_TRANSFORM

datatype 'o property_value =
    Boolean_Value bool | Formatter_Value "'o formatter_iface option" | Transform_Value "transform_iface option"

definition catalina_storage_get_property :: "storage_property \<Rightarrow> ('o, 'w) storage \<Rightarrow> 'o property_value option" where
  "catalina_storage_get_property property_id s =
     (case property_id of
        PROP_USE_IDLE \<Rightarrow> Some (Boolean_Value (catalina_storage_get_use_idle s))
      | PROP_FORMATTER \<Rightarrow> Some (Formatter_Value (catalina_storage_get_formatter s))
      | PROP_TRANSFORM \<Rightarrow> Some (Transform_Value (catalina_storage_get_transform s))
      | PROP_0 \<Rightarrow> None)"

definition catalina_storage_set_property :: "storage_property \<Rightarrow> 'o property_value \<Rightarrow> ('o, 'w) storage \<Rightarrow> ('o, 'w) storage" where
  "catalina_storage_set_property property_id v s =
     (case (property_id, v) of
        (PROP_USE_IDLE, Boolean_Value b) \<Rightarrow> catalina_storage_set_use_idle b s
      | (PROP_FORMATTER, Formatter_Value None) \<Rightarrow> s\<lparr>storage_formatter := None\<rparr>
      | (PROP_FORMATTER, Formatter_Value (Some formatter)) \<Rightarrow> catalina_storage_set_formatter formatter s
      | (PROP_TRANSFORM, Transform_Value None) \<Rightarrow> s\<lparr>storage_transform := None\<rparr>
      | (PROP_TRANSFORM, Transform_Value (Some transform)) \<Rightarrow> catalina_storage_set_transform transform s
      | _ \<Rightarrow> s)"

definition catalina_storage_dispose :: "('o, 'w) storage \<Rightarrow> ('o, 'w) storage" where
  "catalina_storage_dispose s = s\<lparr>storage_transform := None, storage_formatter := None\<rparr>"

section \<open>Posting\<close>

definition post_ex :: "message_type \<Rightarrow> nat \<Rightarrow> ('o, 'w) storage \<Rightarrow> ('o, 'w) storage" where
  "post_ex ty t s = s\<lparr>ex_port := ex_port s @ [Message ty t]\<rparr>"

definition post_cn :: "message_type \<Rightarrow> nat \<Rightarrow> ('o, 'w) storage \<Rightarrow> ('o, 'w) storage" where
  "post_cn ty t s = s\<lparr>cn_port := cn_port s @ [Message ty t]\<rparr>"

text \<open>
  The copies of a key or a value: a length of -1 stands for a NUL-terminated text, which
  is copied and counted with its NUL.
\<close>

definition length_ok :: "gssize \<Rightarrow> bool" where
  "length_ok n \<longleftrightarrow> n = - 1 \<or> 0 < sint n"

definition dup_memory :: "bytes option \<Rightarrow> gssize \<Rightarrow> (bytes \<times> gsize) result" where
  "dup_memory p n =
     (if n = - 1 then c_bind (c_text p) (\<lambda>s. Inr (s @ [0], of_nat (length s + 1)))
      else c_bind (read_mem p (unat n)) (\<lambda>bs. Inr (bs, n)))"

section \<open>Opening and closing\<close>

definition open_task :: "'w env \<Rightarrow> waiter \<Rightarrow> bytes option \<Rightarrow> bytes option \<Rightarrow> ('o, 'w) storage
    \<Rightarrow> (nat option \<times> ('o, 'w) storage) result" where
  "open_task E w env_dir name s =
     (if name = None then Inr (None, s)
      else c_bind (case env_dir of None \<Rightarrow> Inr [46] | Some d \<Rightarrow> c_text (Some d)) (\<lambda>real_env_dir.
           c_bind (c_text name) (\<lambda>name.
           let (t, s) = storage_task_new w s in
           c_bind (upd_task t (\<lambda>k. k\<lparr>task_key := Some (g_build_filename E real_env_dir name @ [0])\<rparr>) s) (\<lambda>s.
           Inr (Some t, post_ex MESSAGE_OPEN t s)))))"

definition catalina_storage_open_async :: "'w env \<Rightarrow> bytes option \<Rightarrow> bytes option \<Rightarrow> callback
    \<Rightarrow> ('o, 'w) storage \<Rightarrow> (nat option \<times> ('o, 'w) storage) result" where
  "catalina_storage_open_async E env_dir name cb s = open_task E (Async_Result cb Tag_Open) env_dir name s"

definition catalina_storage_open_post :: "'w env \<Rightarrow> bytes option \<Rightarrow> bytes option
    \<Rightarrow> ('o, 'w) storage \<Rightarrow> (nat option \<times> ('o, 'w) storage) result" where
  "catalina_storage_open_post E env_dir name s = open_task E Mutex_Cond env_dir name s"

text \<open>The second half of every synchronous function whose result is only success or an error.\<close>

definition wait_and_free :: "nat \<Rightarrow> ('o, 'w) storage \<Rightarrow> ((bool \<times> gerror option) \<times> ('o, 'w) storage) result" where
  "wait_and_free t s =
     c_bind (storage_task_wait t s) (\<lambda>r.
     c_bind (storage_task_free t s) (\<lambda>s. Inr (r, s)))"

definition catalina_storage_open_return :: "nat \<Rightarrow> ('o, 'w) storage
    \<Rightarrow> ((bool \<times> gerror option) \<times> ('o, 'w) storage) result" where
  "catalina_storage_open_return t s = wait_and_free t s"

text \<open>\<^verbatim>\<open>g_simple_async_result_is_valid\<close>: the result was made by the function with this tag.\<close>

definition result_is_valid :: "source_tag \<Rightarrow> 'o task \<Rightarrow> bool" where
  "result_is_valid tag k \<longleftrightarrow> (case task_waiter k of Mutex_Cond \<Rightarrow> False | Async_Result _ tag' \<Rightarrow> tag' = tag)"

text \<open>Propagating a task's error into a location that holds \<open>error\<close> (\<open>None\<close>: no location).\<close>

definition propagate :: "gerror option \<Rightarrow> gerror option option \<Rightarrow> gerror option option" where
  "propagate e error = (case error of None \<Rightarrow> None
     | Some old \<Rightarrow> Some (if e \<noteq> None \<and> old = None then e else old))"

definition catalina_storage_open_finish :: "nat \<Rightarrow> gerror option option \<Rightarrow> ('o, 'w) storage
    \<Rightarrow> ((bool \<times> gerror option option) \<times> ('o, 'w) storage) result" where
  "catalina_storage_open_finish t error s =
     c_bind (get_task s t) (\<lambda>task.
     if \<not> result_is_valid Tag_Open task then Inr ((False, error), s)
     else let success = (task_error task = None);
              s = (if success then s\<lparr>flags := flags s OR 1\<rparr> else s) in
       c_bind (storage_task_free t s) (\<lambda>s. Inr ((success, propagate (task_error task) error), s)))"

definition catalina_storage_close_async :: "callback \<Rightarrow> ('o, 'w) storage \<Rightarrow> nat \<times> ('o, 'w) storage" where
  "catalina_storage_close_async cb s =
     (let (t, s) = storage_task_new (Async_Result cb Tag_Close) s in (t, post_ex MESSAGE_CLOSE t s))"

definition catalina_storage_close_finish :: "nat \<Rightarrow> gerror option option \<Rightarrow> ('o, 'w) storage
    \<Rightarrow> ((bool \<times> gerror option option) \<times> ('o, 'w) storage) result" where
  "catalina_storage_close_finish t error s =
     c_bind (get_task s t) (\<lambda>task.
     if \<not> result_is_valid Tag_Close task then Inr ((False, error), s)
     else let success = (task_error task = None);
              s = (if success then s\<lparr>flags := 0\<rparr> else s) in
       c_bind (storage_task_free t s) (\<lambda>s. Inr ((success, propagate (task_error task) error), s)))"

definition catalina_storage_close_post :: "('o, 'w) storage \<Rightarrow> nat \<times> ('o, 'w) storage" where
  "catalina_storage_close_post s =
     (let (t, s) = storage_task_new Mutex_Cond s in (t, post_ex MESSAGE_CLOSE t s))"

definition catalina_storage_close_return :: "nat \<Rightarrow> ('o, 'w) storage
    \<Rightarrow> ((bool \<times> gerror option) \<times> ('o, 'w) storage) result" where
  "catalina_storage_close_return t s = wait_and_free t s"

section \<open>Getting\<close>

definition get_task_post :: "waiter \<Rightarrow> bytes option \<Rightarrow> gssize \<Rightarrow> ('o, 'w) storage
    \<Rightarrow> (nat option \<times> ('o, 'w) storage) result" where
  "get_task_post w key key_length s =
     (if key = None \<or> \<not> length_ok key_length then Inr (None, s)
      else let (t, s) = storage_task_new w s in
        c_bind (dup_memory key key_length) (\<lambda>(dup_key, dup_len).
        c_bind (upd_task t (\<lambda>k. k\<lparr>task_key := Some dup_key, task_key_length := dup_len\<rparr>) s) (\<lambda>s.
        Inr (Some t, post_cn MESSAGE_GET t s))))"

definition catalina_storage_get_async :: "bytes option \<Rightarrow> gssize \<Rightarrow> callback \<Rightarrow> ('o, 'w) storage
    \<Rightarrow> (nat option \<times> ('o, 'w) storage) result" where
  "catalina_storage_get_async key key_length cb s = get_task_post (Async_Result cb Tag_Get) key key_length s"

definition catalina_storage_get_post :: "bytes option \<Rightarrow> gssize \<Rightarrow> ('o, 'w) storage
    \<Rightarrow> (nat option \<times> ('o, 'w) storage) result" where
  "catalina_storage_get_post key key_length s = get_task_post Mutex_Cond key key_length s"

text \<open>
  \<^verbatim>\<open>*value\<close> and \<^verbatim>\<open>*value_length\<close> are written only on the paths that have them to write:
  \<open>old\<close> is what the caller's locations hold before.
\<close>

type_synonym get_out = "bool \<times> bytes option \<times> gsize"

definition catalina_storage_get_finish :: "nat \<Rightarrow> bytes option \<times> gsize \<Rightarrow> gerror option option \<Rightarrow> ('o, 'w) storage
    \<Rightarrow> ((get_out \<times> gerror option option) \<times> ('o, 'w) storage) result" where
  "catalina_storage_get_finish t old error s =
     c_bind (get_task s t) (\<lambda>task.
     if \<not> result_is_valid Tag_Get task then Inr (((False, old), error), s)
     else let out = (if task_error task \<noteq> None then old
                     else (if task_data task \<noteq> None then task_data task else fst old, task_data_length task)) in
       c_bind (storage_task_free t s) (\<lambda>s.
       Inr (((task_success task, out), propagate (task_error task) error), s)))"

definition catalina_storage_get_return :: "nat \<Rightarrow> bytes option \<times> gsize \<Rightarrow> ('o, 'w) storage
    \<Rightarrow> ((get_out \<times> gerror option) \<times> ('o, 'w) storage) result" where
  "catalina_storage_get_return t old s =
     c_bind (storage_task_wait t s) (\<lambda>(success, e).
     c_bind (get_task s t) (\<lambda>task.
     let out = (if success then (task_data task, task_data_length task) else old) in
     c_bind (storage_task_free t s) (\<lambda>s. Inr (((success, out), e), s))))"

section \<open>Setting\<close>

definition catalina_storage_set_async :: "gulong \<Rightarrow> bytes option \<Rightarrow> gssize \<Rightarrow> bytes option \<Rightarrow> gssize \<Rightarrow> callback
    \<Rightarrow> ('o, 'w) storage \<Rightarrow> (nat option \<times> ('o, 'w) storage) result" where
  "catalina_storage_set_async txn_id key key_length val val_length cb s =
     (if key = None \<or> \<not> length_ok key_length \<or> val = None \<or> \<not> length_ok val_length then Inr (None, s)
      else let (t, s) = storage_task_new (Async_Result cb Tag_Set) s in
        c_bind (dup_memory key key_length) (\<lambda>(dup_key, dup_key_length).
        c_bind (dup_memory val val_length) (\<lambda>(dup_value, dup_value_length).
        c_bind (upd_task t (\<lambda>k. k\<lparr>task_txn_id := txn_id, task_key := Some dup_key,
             task_key_length := dup_key_length, task_data := Some dup_value,
             task_data_length := dup_value_length\<rparr>) s) (\<lambda>s.
        Inr (Some t, post_ex MESSAGE_SET t s)))))"

text \<open>The synchronous function hands over the caller's own pointers, the value's unchecked.\<close>

definition catalina_storage_set_post :: "gulong \<Rightarrow> bytes option \<Rightarrow> gssize \<Rightarrow> bytes option \<Rightarrow> gssize
    \<Rightarrow> ('o, 'w) storage \<Rightarrow> (nat option \<times> ('o, 'w) storage) result" where
  "catalina_storage_set_post txn_id key key_length val val_length s =
     (if key = None \<or> \<not> length_ok key_length then Inr (None, s)
      else let (t, s) = storage_task_new Mutex_Cond s in
        c_bind (if key_length = - 1 then c_bind (c_text key) (\<lambda>k. Inr (of_nat (length k + 1))) else Inr key_length) (\<lambda>key_length.
        c_bind (if val_length = - 1 then c_bind (c_text val) (\<lambda>v. Inr (of_nat (length v + 1))) else Inr val_length) (\<lambda>val_length.
        c_bind (upd_task t (\<lambda>k. k\<lparr>task_txn_id := txn_id, task_key := key, task_key_length := key_length,
             task_data := val, task_data_length := val_length\<rparr>) s) (\<lambda>s.
        Inr (Some t, post_ex MESSAGE_SET t s)))))"

definition catalina_storage_set_return :: "nat \<Rightarrow> ('o, 'w) storage
    \<Rightarrow> ((bool \<times> gerror option) \<times> ('o, 'w) storage) result" where
  "catalina_storage_set_return t s = wait_and_free t s"

definition catalina_storage_set_finish :: "nat \<Rightarrow> gerror option option \<Rightarrow> ('o, 'w) storage
    \<Rightarrow> ((bool \<times> gerror option option) \<times> ('o, 'w) storage) result" where
  "catalina_storage_set_finish t error s =
     c_bind (get_task s t) (\<lambda>task.
     if \<not> result_is_valid Tag_Set task then Inr ((False, error), s)
     else c_bind (storage_task_free t s) (\<lambda>s.
       Inr ((task_success task, propagate (task_error task) error), s)))"

section \<open>Typed values\<close>

text \<open>
  The asynchronous functions chain a second task behind the one of the raw request; the
  callback of the first completes the second, whose error location is the task's own.
\<close>

definition catalina_storage_get_value_async :: "bytes option \<Rightarrow> gssize \<Rightarrow> callback \<Rightarrow> ('o, 'w) storage
    \<Rightarrow> (nat option \<times> ('o, 'w) storage) result" where
  "catalina_storage_get_value_async key key_length cb s =
     (let (outer, s) = storage_task_new (Async_Result cb Tag_Get_Value) s in
      c_bind (catalina_storage_get_async key key_length (Get_Value_Async_Cb outer) s) (\<lambda>(_, s).
      Inr (Some outer, s)))"

definition catalina_storage_get_value_async_cb :: "'w env \<Rightarrow> nat \<Rightarrow> nat \<Rightarrow> ('o, 'w) storage \<Rightarrow> ('o, 'w) storage result" where
  "catalina_storage_get_value_async_cb E result t s =
     c_bind (get_task s t) (\<lambda>task.
     c_bind (catalina_storage_get_finish result (None, 0) (Some (task_error task)) s)
       (\<lambda>(((success, buffer, buffer_length), error), s).
     c_bind (upd_task t (\<lambda>k. k\<lparr>task_error := (case error of None \<Rightarrow> None | Some e \<Rightarrow> e)\<rparr>) s) (\<lambda>s.
     if \<not> success then storage_task_fail E t s
     else case storage_formatter s of
       None \<Rightarrow> fail_with E STORAGE_ERROR_STATE t s
     | Some formatter \<Rightarrow>
         c_bind (catalina_formatter_deserialize formatter (Some (task_value task)) (block buffer) buffer_length)
           (\<lambda>(ok, v, e).
         c_bind (upd_task t (\<lambda>k. (case e of None \<Rightarrow> k | Some e \<Rightarrow> task_set_error (FORMATTER_ERROR e) k)
              \<lparr>task_value := (case v of None \<Rightarrow> task_value task | Some v \<Rightarrow> v)\<rparr>) s) (\<lambda>s.
         if ok then storage_task_succeed t s else storage_task_fail E t s)))))"

text \<open>\<^verbatim>\<open>g_value_copy\<close> into a location that was initialised to the type of the source if unset.\<close>

definition catalina_storage_get_value_finish :: "nat \<Rightarrow> 'o gvalue \<Rightarrow> gerror option option \<Rightarrow> ('o, 'w) storage
    \<Rightarrow> ((bool \<times> 'o gvalue \<times> gerror option option) \<times> ('o, 'w) storage) result" where
  "catalina_storage_get_value_finish t v error s =
     c_bind (get_task s t) (\<lambda>task.
     if \<not> result_is_valid Tag_Get_Value task then Inr ((False, v, error), s)
     else let v = (if task_success task then g_value_put v (task_value task) else v) in
       c_bind (storage_task_free t s) (\<lambda>s.
       Inr ((task_success task, v, propagate (task_error task) error), s)))"

definition catalina_storage_get_value_return :: "nat \<Rightarrow> 'o gvalue \<Rightarrow> ('o, 'w) storage
    \<Rightarrow> ((bool \<times> 'o gvalue \<times> gerror option) \<times> ('o, 'w) storage) result" where
  "catalina_storage_get_value_return t v s =
     c_bind (catalina_storage_get_return t (None, 0) s) (\<lambda>(((success, buffer, buffer_length), e), s).
     if \<not> success then Inr ((False, v, e), s)
     else case storage_formatter s of
       None \<Rightarrow> Inl Null_Pointer
     | Some formatter \<Rightarrow>
         c_bind (catalina_formatter_deserialize formatter (Some v) (block buffer) buffer_length) (\<lambda>(ok, v', err).
         Inr ((ok, (case v' of None \<Rightarrow> v | Some v' \<Rightarrow> v'), map_option FORMATTER_ERROR err), s)))"

definition catalina_storage_get_value_post :: "bytes option \<Rightarrow> gssize \<Rightarrow> ('o, 'w) storage
    \<Rightarrow> ((nat option \<times> gerror option) \<times> ('o, 'w) storage) result" where
  "catalina_storage_get_value_post key key_length s =
     (if key = None \<or> \<not> length_ok key_length then Inr ((None, None), s)
      else if storage_formatter s = None then Inr ((None, Some STORAGE_ERROR_STATE), s)
      else c_bind (catalina_storage_get_post key key_length s) (\<lambda>(t, s). Inr ((t, None), s)))"

definition catalina_storage_set_value_async_cb :: "'w env \<Rightarrow> nat \<Rightarrow> nat \<Rightarrow> ('o, 'w) storage \<Rightarrow> ('o, 'w) storage result" where
  "catalina_storage_set_value_async_cb E result t s =
     c_bind (get_task s t) (\<lambda>task.
     c_bind (catalina_storage_set_finish result (Some (task_error task)) s) (\<lambda>((success, error), s).
     c_bind (upd_task t (\<lambda>k. k\<lparr>task_error := (case error of None \<Rightarrow> None | Some e \<Rightarrow> e)\<rparr>) s) (\<lambda>s.
     if \<not> success then storage_task_fail E t s else storage_task_succeed t s)))"

text \<open>A failure before the request is posted completes the task and frees it at once.\<close>

definition catalina_storage_set_value_async :: "'w env \<Rightarrow> gulong \<Rightarrow> bytes option \<Rightarrow> gssize \<Rightarrow> 'o gvalue \<Rightarrow> callback
    \<Rightarrow> ('o, 'w) storage \<Rightarrow> (nat option \<times> ('o, 'w) storage) result" where
  "catalina_storage_set_value_async E txn_id key key_length v cb s =
     (let (outer, s) = storage_task_new (Async_Result cb Tag_Set_Value) s in
      case storage_formatter s of
        None \<Rightarrow>
          c_bind (fail_with E STORAGE_ERROR_STATE outer s) (\<lambda>s.
          c_bind (storage_task_free outer s) (\<lambda>s. Inr (Some outer, s)))
      | Some formatter \<Rightarrow>
          c_bind (catalina_formatter_serialize formatter v) (\<lambda>(ok, buffer, buffer_length).
          if \<not> ok
          then c_bind (storage_task_fail E outer s) (\<lambda>s.
               c_bind (storage_task_free outer s) (\<lambda>s. Inr (Some outer, s)))
          else c_bind (catalina_storage_set_async txn_id key key_length (Some buffer) buffer_length
                 (Set_Value_Async_Cb outer) s) (\<lambda>(_, s). Inr (Some outer, s))))"

definition catalina_storage_set_value_finish :: "nat \<Rightarrow> gerror option option \<Rightarrow> ('o, 'w) storage
    \<Rightarrow> ((bool \<times> gerror option option) \<times> ('o, 'w) storage) result" where
  "catalina_storage_set_value_finish t error s =
     c_bind (get_task s t) (\<lambda>task.
     c_bind (storage_task_free t s) (\<lambda>s.
     Inr ((task_success task, propagate (task_error task) error), s)))"

definition catalina_storage_set_value_post :: "gulong \<Rightarrow> bytes option \<Rightarrow> gssize \<Rightarrow> 'o gvalue \<Rightarrow> ('o, 'w) storage
    \<Rightarrow> ((nat option \<times> gerror option) \<times> ('o, 'w) storage) result" where
  "catalina_storage_set_value_post txn_id key key_length v s =
     (if key = None \<or> \<not> length_ok key_length then Inr ((None, None), s)
      else case storage_formatter s of
        None \<Rightarrow> Inr ((None, Some STORAGE_ERROR_STATE), s)
      | Some formatter \<Rightarrow>
          c_bind (catalina_formatter_serialize formatter v) (\<lambda>(ok, buffer, buffer_length).
          if \<not> ok then Inr ((None, None), s)
          else c_bind (catalina_storage_set_post txn_id key key_length (Some buffer) buffer_length s) (\<lambda>(t, s).
               Inr ((t, None), s))))"

section \<open>Counting, and transactions\<close>

definition catalina_storage_count_keys_post :: "('o, 'w) storage \<Rightarrow> nat \<times> ('o, 'w) storage" where
  "catalina_storage_count_keys_post s =
     (let (t, s) = storage_task_new Mutex_Cond s in (t, post_cn MESSAGE_COUNT_KEYS t s))"

definition g_value_get_ulong :: "'o gvalue \<Rightarrow> gulong" where
  "g_value_get_ulong v = (case v of VULong n \<Rightarrow> n | _ \<Rightarrow> 0)"

definition catalina_storage_count_keys_return :: "nat \<Rightarrow> ('o, 'w) storage \<Rightarrow> (gulong \<times> ('o, 'w) storage) result" where
  "catalina_storage_count_keys_return t s =
     c_bind (storage_task_wait t s) (\<lambda>(success, _).
     c_bind (get_task s t) (\<lambda>task.
     let count = (if success then g_value_get_ulong (task_value task) else 0) in
     c_bind (storage_task_free t s) (\<lambda>s. Inr (count, s))))"

definition catalina_storage_transaction_begin_async :: "callback \<Rightarrow> ('o, 'w) storage \<Rightarrow> nat \<times> ('o, 'w) storage" where
  "catalina_storage_transaction_begin_async cb s =
     (let (t, s) = storage_task_new (Async_Result cb Tag_Begin) s in (t, post_ex MESSAGE_TXN_BEGIN t s))"

definition catalina_storage_transaction_begin_finish :: "nat \<Rightarrow> ('o, 'w) storage \<Rightarrow> (gulong \<times> ('o, 'w) storage) result" where
  "catalina_storage_transaction_begin_finish t s =
     c_bind (get_task s t) (\<lambda>task.
     if \<not> result_is_valid Tag_Begin task then Inr (0, s)
     else c_bind (storage_task_free t s) (\<lambda>s. Inr (task_txn_id task, s)))"

definition catalina_storage_transaction_commit_async :: "gulong \<Rightarrow> callback \<Rightarrow> ('o, 'w) storage
    \<Rightarrow> (nat \<times> ('o, 'w) storage) result" where
  "catalina_storage_transaction_commit_async txn_id cb s =
     (let (t, s) = storage_task_new (Async_Result cb Tag_Commit) s in
      c_bind (upd_task t (\<lambda>k. k\<lparr>task_txn_id := txn_id\<rparr>) s) (\<lambda>s. Inr (t, post_ex MESSAGE_TXN_COMMIT t s)))"

definition catalina_storage_transaction_commit_finish :: "nat \<Rightarrow> gerror option option \<Rightarrow> ('o, 'w) storage
    \<Rightarrow> ((bool \<times> gerror option option) \<times> ('o, 'w) storage) result" where
  "catalina_storage_transaction_commit_finish t error s =
     c_bind (get_task s t) (\<lambda>task.
     if \<not> result_is_valid Tag_Commit task then Inr ((False, error), s)
     else c_bind (storage_task_free t s) (\<lambda>s.
       Inr ((task_success task, propagate (task_error task) error), s)))"

definition catalina_storage_transaction_cancel_async :: "gulong \<Rightarrow> callback \<Rightarrow> ('o, 'w) storage
    \<Rightarrow> (nat \<times> ('o, 'w) storage) result" where
  "catalina_storage_transaction_cancel_async txn_id cb s =
     (let (t, s) = storage_task_new (Async_Result cb Tag_Cancel) s in
      c_bind (upd_task t (\<lambda>k. k\<lparr>task_txn_id := txn_id\<rparr>) s) (\<lambda>s. Inr (t, post_ex MESSAGE_TXN_CANCEL t s)))"

definition catalina_storage_transaction_cancel_finish :: "nat \<Rightarrow> ('o, 'w) storage \<Rightarrow> ('o, 'w) storage result" where
  "catalina_storage_transaction_cancel_finish t s =
     c_bind (get_task s t) (\<lambda>task.
     if \<not> result_is_valid Tag_Cancel task then Inr s else storage_task_free t s)"

section \<open>The main loop\<close>

text \<open>
  What \<^verbatim>\<open>g_simple_async_result_complete\<close> calls for a completed task: a callback of the library
  runs its code, one of the application is left to the application.
\<close>

definition call_back :: "'w env \<Rightarrow> nat \<Rightarrow> ('o, 'w) storage \<Rightarrow> ('o, 'w) storage result" where
  "call_back E t s = c_bind (get_task s t) (\<lambda>k.
     case task_waiter k of
       Async_Result (Get_Value_Async_Cb outer) _ \<Rightarrow> catalina_storage_get_value_async_cb E t outer s
     | Async_Result (Set_Value_Async_Cb outer) _ \<Rightarrow> catalina_storage_set_value_async_cb E t outer s
     | _ \<Rightarrow> Inr s)"

end
