(* ===== verification/GObject_Classes.thy ===== *)
theory GObject_Classes
  imports Zlib_Properties Storage_Client
begin

text \<open>
  The classes the library registers with GObject: what the \<^verbatim>\<open>class_init\<close> functions put into
  the class structures, the instances \<^verbatim>\<open>g_object_new\<close> makes, and the \<^verbatim>\<open>get_type\<close> functions of the
  two interfaces.

  A class is the record of its methods with the list of the properties installed, each with
  its identifier; nicks and blurbs, texts for readers, are left out, and every property has
  the flags \<^verbatim>\<open>G_PARAM_READWRITE\<close>. Setting a property by its name is GObject's:
  it looks the name up, validates the value against the parameter specification, and calls the
  method of the class. The validation and the type registry are parameters.
  The quarks of the error domains are here too.
\<close>

section \<open>Classes\<close>

datatype param_spec =
    Param_Int (param_name: string) (minimum: gint) (maximum: gint) (default_int: gint)
  | Param_Boolean (param_name: string) (default_boolean: bool)
  | Param_Object (param_name: string) (object_type: string)

record ('a, 'i, 'v) gobject_class =
  class_set_property :: "'a \<Rightarrow> 'i \<Rightarrow> 'v \<Rightarrow> 'a"
  class_get_property :: "'a \<Rightarrow> 'i \<Rightarrow> 'v option"
  class_finalize :: "'a \<Rightarrow> 'a"
  class_dispose :: "'a \<Rightarrow> 'a"
  class_properties :: "('i \<times> param_spec) list"

definition g_object_class_install_property :: "'i \<Rightarrow> param_spec \<Rightarrow> ('a, 'i, 'v) gobject_class \<Rightarrow> ('a, 'i, 'v) gobject_class" where
  "g_object_class_install_property i p klass = klass\<lparr>class_properties := class_properties klass @ [(i, p)]\<rparr>"

text \<open>
  \<^verbatim>\<open>g_object_set_property\<close> and \<^verbatim>\<open>g_object_get_property\<close>: an unknown name is ignored with a
  warning. \<open>validate\<close> is \<^verbatim>\<open>g_param_value_validate\<close>.
\<close>

definition find_property :: "('a, 'i, 'v) gobject_class \<Rightarrow> string \<Rightarrow> ('i \<times> param_spec) option" where
  "find_property klass name = find (\<lambda>(i, p). param_name p = name) (class_properties klass)"

definition g_object_set_property :: "(param_spec \<Rightarrow> 'v \<Rightarrow> 'v) \<Rightarrow> ('a, 'i, 'v) gobject_class \<Rightarrow> string \<Rightarrow> 'v \<Rightarrow> 'a \<Rightarrow> 'a" where
  "g_object_set_property validate klass name v ob =
     (case find_property klass name of None \<Rightarrow> ob
      | Some (i, p) \<Rightarrow> class_set_property klass ob i (validate p v))"

definition g_object_get_property :: "('a, 'i, 'v) gobject_class \<Rightarrow> string \<Rightarrow> 'a \<Rightarrow> 'v option" where
  "g_object_get_property klass name ob =
     (case find_property klass name of None \<Rightarrow> None | Some (i, p) \<Rightarrow> class_get_property klass ob i)"

section \<open>The zlib transform\<close>

definition G_MAXINT :: gint where
  "G_MAXINT = 2147483647"

definition catalina_zlib_transform_finalize :: "('a, 'i, 'v) gobject_class \<Rightarrow> 'a \<Rightarrow> 'a" where
  "catalina_zlib_transform_finalize parent_class ob = class_finalize parent_class ob"

definition catalina_zlib_transform_dispose :: "'a \<Rightarrow> 'a" where
  "catalina_zlib_transform_dispose ob = ob"

definition catalina_zlib_transform_class_init ::
    "(zlib_transform, zlib_property, gint) gobject_class \<Rightarrow> (zlib_transform, zlib_property, gint) gobject_class
      \<Rightarrow> (zlib_transform, zlib_property, gint) gobject_class" where
  "catalina_zlib_transform_class_init parent_class klass =
     (let klass = klass\<lparr>class_set_property := zlib_transform_set_property\<rparr>;
          klass = klass\<lparr>class_get_property := zlib_transform_get_property\<rparr>;
          klass = klass\<lparr>class_finalize := catalina_zlib_transform_finalize parent_class\<rparr>;
          klass = klass\<lparr>class_dispose := catalina_zlib_transform_dispose\<rparr>;
          klass = g_object_class_install_property PROP_LEVEL (Param_Int ''level'' 0 9 6) klass in
      g_object_class_install_property PROP_WATERMARK (Param_Int ''watermark'' 0 G_MAXINT 0) klass)"

definition catalina_zlib_transform_new :: zlib_transform where
  "catalina_zlib_transform_new = zlib_transform_init"

section \<open>The binary formatter, which has no state and no properties\<close>

datatype binary_formatter = Binary_Formatter

datatype binary_formatter_property = PROP_NONE

definition catalina_binary_formatter_get_property :: "binary_formatter \<Rightarrow> binary_formatter_property \<Rightarrow> unit option" where
  "catalina_binary_formatter_get_property formatter property_id = None"

definition catalina_binary_formatter_set_property :: "binary_formatter \<Rightarrow> binary_formatter_property \<Rightarrow> unit \<Rightarrow> binary_formatter" where
  "catalina_binary_formatter_set_property formatter property_id v = formatter"

definition catalina_binary_formatter_finalize :: "('a, 'i, 'v) gobject_class \<Rightarrow> 'a \<Rightarrow> 'a" where
  "catalina_binary_formatter_finalize parent_class ob = class_finalize parent_class ob"

definition catalina_binary_formatter_dispose :: "'a \<Rightarrow> 'a" where
  "catalina_binary_formatter_dispose ob = ob"

definition catalina_binary_formatter_class_init ::
    "(binary_formatter, binary_formatter_property, unit) gobject_class
      \<Rightarrow> (binary_formatter, binary_formatter_property, unit) gobject_class
      \<Rightarrow> (binary_formatter, binary_formatter_property, unit) gobject_class" where
  "catalina_binary_formatter_class_init parent_class klass =
     (let klass = klass\<lparr>class_set_property := catalina_binary_formatter_set_property\<rparr>;
          klass = klass\<lparr>class_get_property := catalina_binary_formatter_get_property\<rparr>;
          klass = klass\<lparr>class_finalize := catalina_binary_formatter_finalize parent_class\<rparr> in
      klass\<lparr>class_dispose := catalina_binary_formatter_dispose\<rparr>)"

definition catalina_binary_formatter_new :: binary_formatter where
  "catalina_binary_formatter_new = Binary_Formatter"

section \<open>The storage\<close>

definition catalina_storage_finalize :: "('a, 'i, 'v) gobject_class \<Rightarrow> 'a \<Rightarrow> 'a" where
  "catalina_storage_finalize parent_class ob = class_finalize parent_class ob"

definition catalina_storage_class_init ::
    "(('o, 'w) storage, storage_property, 'o property_value) gobject_class
      \<Rightarrow> (('o, 'w) storage, storage_property, 'o property_value) gobject_class
      \<Rightarrow> (('o, 'w) storage, storage_property, 'o property_value) gobject_class" where
  "catalina_storage_class_init parent_class klass =
     (let klass = klass\<lparr>class_set_property := \<lambda>s i v. catalina_storage_set_property i v s\<rparr>;
          klass = klass\<lparr>class_get_property := \<lambda>s i. catalina_storage_get_property i s\<rparr>;
          klass = klass\<lparr>class_finalize := catalina_storage_finalize parent_class\<rparr>;
          klass = klass\<lparr>class_dispose := catalina_storage_dispose\<rparr>;
          klass = g_object_class_install_property PROP_USE_IDLE (Param_Boolean ''use-idle'' False) klass;
          klass = g_object_class_install_property PROP_TRANSFORM (Param_Object ''transform'' ''CatalinaTransform'') klass in
      g_object_class_install_property PROP_FORMATTER (Param_Object ''formatter'' ''CatalinaFormatter'') klass)"

definition catalina_storage_new :: "'w \<Rightarrow> ('o, 'w) storage" where
  "catalina_storage_new w = catalina_storage_init w"

section \<open>The interface types\<close>

text \<open>
  The type registry: \<open>register_static\<close> is \<^verbatim>\<open>g_type_register_static\<close> of an interface without
  functions of its own, given the size of its structure and its name, \<open>add_prerequisite\<close> is
  \<^verbatim>\<open>g_type_interface_add_prerequisite\<close>, both on a registry \<open>'r\<close>. The static variable
  \<^verbatim>\<open>transform_type\<close> (\<^verbatim>\<open>formatter_type\<close>) is passed along.
\<close>

record 'r type_registry =
  register_static :: "nat \<Rightarrow> string \<Rightarrow> 'r \<Rightarrow> gtype \<times> 'r"
  add_prerequisite :: "gtype \<Rightarrow> gtype \<Rightarrow> 'r \<Rightarrow> 'r"

definition get_interface_type :: "'r type_registry \<Rightarrow> nat \<Rightarrow> string \<Rightarrow> gtype \<times> 'r \<Rightarrow> gtype \<times> gtype \<times> 'r" where
  "get_interface_type R struct_size name = (\<lambda>(static_type, r).
     if static_type = G_TYPE_INVALID
     then let (type, r) = register_static R struct_size name r;
              r = add_prerequisite R type G_TYPE_OBJECT r in (type, type, r)
     else (static_type, static_type, r))"

definition catalina_transform_get_type :: "'r type_registry \<Rightarrow> nat \<Rightarrow> gtype \<times> 'r \<Rightarrow> gtype \<times> gtype \<times> 'r" where
  "catalina_transform_get_type R struct_size = get_interface_type R struct_size ''CatalinaTransform''"

definition catalina_formatter_get_type :: "'r type_registry \<Rightarrow> nat \<Rightarrow> gtype \<times> 'r \<Rightarrow> gtype \<times> gtype \<times> 'r" where
  "catalina_formatter_get_type R struct_size = get_interface_type R struct_size ''CatalinaFormatter''"

section \<open>Error domains\<close>

text \<open>\<open>quark\<close> is \<^verbatim>\<open>g_quark_from_static_string\<close>, which gives different strings different numbers.\<close>

definition catalina_binary_formatter_error_quark :: "(string \<Rightarrow> 'q) \<Rightarrow> 'q" where
  "catalina_binary_formatter_error_quark quark = quark ''catalina-binary-formatter-error-quark''"

definition catalina_zlib_transform_error_quark :: "(string \<Rightarrow> 'q) \<Rightarrow> 'q" where
  "catalina_zlib_transform_error_quark quark = quark ''catalina-zlib-transform-error-quark''"

definition catalina_storage_error_quark :: "(string \<Rightarrow> 'q) \<Rightarrow> 'q" where
  "catalina_storage_error_quark quark = quark ''catalina-storage-error-quark''"

lemma error_domains_distinct:
  "inj quark \<Longrightarrow> distinct [catalina_binary_formatter_error_quark quark, catalina_zlib_transform_error_quark quark,
     catalina_storage_error_quark quark]"
  by (simp add: catalina_binary_formatter_error_quark_def catalina_zlib_transform_error_quark_def
      catalina_storage_error_quark_def inj_eq)

section \<open>Settings made through the property interface\<close>

text \<open>
  What GObject promises of the validation of an integer property: the result is in the range
  of the specification, and it is the value given if that is in the range.
\<close>

definition validates_ints :: "(param_spec \<Rightarrow> gint \<Rightarrow> gint) \<Rightarrow> bool" where
  "validates_ints validate \<longleftrightarrow> (\<forall>name lo hi d v. sint lo \<le> sint hi \<longrightarrow>
     sint (validate (Param_Int name lo hi d) v) \<in> {sint lo .. sint hi} \<and>
     (sint v \<in> {sint lo .. sint hi} \<longrightarrow> validate (Param_Int name lo hi d) v = v))"

definition zlib_class :: "(zlib_transform, zlib_property, gint) gobject_class \<Rightarrow> (zlib_transform, zlib_property, gint) gobject_class" where
  "zlib_class parent_class = catalina_zlib_transform_class_init parent_class (parent_class\<lparr>class_properties := []\<rparr>)"

definition storage_class :: "(('o, 'w) storage, storage_property, 'o property_value) gobject_class
    \<Rightarrow> (('o, 'w) storage, storage_property, 'o property_value) gobject_class" where
  "storage_class parent_class = catalina_storage_class_init parent_class (parent_class\<lparr>class_properties := []\<rparr>)"

definition binary_formatter_class :: "(binary_formatter, binary_formatter_property, unit) gobject_class
    \<Rightarrow> (binary_formatter, binary_formatter_property, unit) gobject_class" where
  "binary_formatter_class parent_class =
     catalina_binary_formatter_class_init parent_class (parent_class\<lparr>class_properties := []\<rparr>)"

definition configured :: "(param_spec \<Rightarrow> gint \<Rightarrow> gint) \<Rightarrow> (zlib_transform, zlib_property, gint) gobject_class
    \<Rightarrow> (string \<times> gint) list \<Rightarrow> zlib_transform" where
  "configured validate parent_class settings =
     fold (\<lambda>(name, v). g_object_set_property validate (zlib_class parent_class) name v) settings catalina_zlib_transform_new"

text \<open>The value a property has after the settings: the last one given for it, validated.\<close>

definition last_setting :: "(param_spec \<Rightarrow> gint \<Rightarrow> gint) \<Rightarrow> param_spec \<Rightarrow> (string \<times> gint) list \<Rightarrow> gint" where
  "last_setting validate p settings =
     (case map_of (rev settings) (param_name p) of None \<Rightarrow> default_int p | Some v \<Rightarrow> validate p v)"

lemma zlib_class_finds:
  "find_property (zlib_class parent_class) name =
     (if name = ''level'' then Some (PROP_LEVEL, Param_Int ''level'' 0 9 6)
      else if name = ''watermark'' then Some (PROP_WATERMARK, Param_Int ''watermark'' 0 G_MAXINT 0) else None)"
  by (simp add: zlib_class_def catalina_zlib_transform_class_init_def g_object_class_install_property_def
      find_property_def Let_def)

lemma zlib_class_methods:
  "class_set_property (zlib_class parent_class) = zlib_transform_set_property"
  "class_get_property (zlib_class parent_class) = zlib_transform_get_property"
  by (simp_all add: zlib_class_def catalina_zlib_transform_class_init_def g_object_class_install_property_def Let_def)

lemma zlib_class_properties:
  "class_properties (zlib_class parent_class) =
     [(PROP_LEVEL, Param_Int ''level'' 0 9 6), (PROP_WATERMARK, Param_Int ''watermark'' 0 G_MAXINT 0)]"
  by (simp add: zlib_class_def catalina_zlib_transform_class_init_def g_object_class_install_property_def Let_def)

lemmas storage_class_simps = storage_class_def catalina_storage_class_init_def g_object_class_install_property_def
  g_object_get_property_def find_property_def Let_def catalina_storage_get_property_def
  catalina_storage_get_use_idle_def catalina_storage_get_transform_def catalina_storage_get_formatter_def

lemmas zlib_class_simps = zlib_class_finds zlib_class_methods g_object_set_property_def g_object_get_property_def
  zlib_transform_set_property_def zlib_transform_get_property_def

lemma configured_fields:
  "zlib_level (configured validate parent_class settings) =
     last_setting validate (Param_Int ''level'' 0 9 6) settings \<and>
   zlib_watermark (configured validate parent_class settings) =
     scast (last_setting validate (Param_Int ''watermark'' 0 G_MAXINT 0) settings)"
proof (induction settings rule: rev_induct)
  case Nil
  show ?case by (simp add: configured_def last_setting_def catalina_zlib_transform_new_def zlib_transform_init_def)
next
  case (snoc x settings)
  then show ?case
    by (cases x) (auto simp: configured_def last_setting_def zlib_class_simps
        zlib_transform_set_level_def zlib_transform_set_watermark_def)
qed

lemma last_setting_in_range:
  assumes "validates_ints validate" "p = Param_Int name lo hi d" "sint lo \<le> sint d" "sint d \<le> sint hi"
  shows "sint (last_setting validate p settings) \<in> {sint lo .. sint hi}"
  using assms by (auto simp: last_setting_def validates_ints_def split: option.split)

lemma unat_scast_positive:
  assumes "0 \<le> sint (w :: gint)"
  shows "unat (scast w :: gsize) = nat (sint w)"
proof -
  have "sint w < 2 ^ 64" using sint_lt [of w] by simp
  then have "uint (word_of_int (sint w) :: gsize) = sint w"
    using assms by (simp only: uint_word_of_int len_num1 len_bit0) (simp add: mod_pos_pos_trivial)
  then show ?thesis by (simp only: scast_eq unat_eq_nat_uint)
qed


definition clamp :: "param_spec \<Rightarrow> gint \<Rightarrow> gint" where
  "clamp p v = (case p of Param_Int name lo hi d \<Rightarrow>
     if sint v < sint lo then lo else if sint hi < sint v then hi else v | _ \<Rightarrow> v)"

text \<open>A parent class that does nothing.\<close>

definition root_class :: "('a, 'i, 'v) gobject_class" where
  "root_class = \<lparr>class_set_property = \<lambda>ob i v. ob, class_get_property = \<lambda>ob i. None,
     class_finalize = \<lambda>ob. ob, class_dispose = \<lambda>ob. ob, class_properties = []\<rparr>"


section \<open>Registered defaults\<close>


section \<open>Registering the interfaces\<close>

lemma get_interface_type_once:
  assumes "fst (register_static R struct_size name r) = t" "t \<noteq> G_TYPE_INVALID"
  shows "get_interface_type R struct_size name (((\<lambda>st. snd (get_interface_type R struct_size name st)) ^^ n) (G_TYPE_INVALID, r)) =
    (t, t, add_prerequisite R t G_TYPE_OBJECT (snd (register_static R struct_size name r)))"
proof (induction n)
  case 0
  show ?case using assms by (auto simp: get_interface_type_def split: prod.split)
next
  case (Suc n)
  then show ?case using assms(2) by (simp add: get_interface_type_def)
qed

text \<open>
  However often the type of an interface is asked for, it is registered once, with
  \<^verbatim>\<open>G_TYPE_OBJECT\<close> as its prerequisite, and every call gives the same type, provided that
  registering a type succeeds.
\<close>

theorem interface_types_register_once:
  assumes "fst (register_static R struct_size ''CatalinaTransform'' r) = t" "t \<noteq> G_TYPE_INVALID"
    and "fst (register_static R struct_size' ''CatalinaFormatter'' r') = t'" "t' \<noteq> G_TYPE_INVALID"
  shows "catalina_transform_get_type R struct_size
       (((\<lambda>st. snd (catalina_transform_get_type R struct_size st)) ^^ n) (G_TYPE_INVALID, r)) =
     (t, t, add_prerequisite R t G_TYPE_OBJECT (snd (register_static R struct_size ''CatalinaTransform'' r))) \<and>
   catalina_formatter_get_type R struct_size'
       (((\<lambda>st. snd (catalina_formatter_get_type R struct_size' st)) ^^ n) (G_TYPE_INVALID, r')) =
     (t', t', add_prerequisite R t' G_TYPE_OBJECT (snd (register_static R struct_size' ''CatalinaFormatter'' r')))"
  using get_interface_type_once [OF assms(1,2)] get_interface_type_once [OF assms(3,4)]
  by (simp add: catalina_transform_get_type_def catalina_formatter_get_type_def)

definition counting_registry :: "string list type_registry" where
  "counting_registry = \<lparr>register_static = \<lambda>struct_size name r. (G_TYPE_USER (length r), name # r),
     add_prerequisite = \<lambda>t u r. r\<rparr>"

theorem interface_types_register_once_witness:
  "catalina_transform_get_type counting_registry 16
     (((\<lambda>st. snd (catalina_transform_get_type counting_registry 16 st)) ^^ 2) (G_TYPE_INVALID, [])) =
   (G_TYPE_USER 0, G_TYPE_USER 0, [''CatalinaTransform''])"
  using interface_types_register_once [of counting_registry 16 "[]" "G_TYPE_USER 0" 16 "[]" "G_TYPE_USER 0" 2]
  by (simp add: counting_registry_def)

end
