(* ===== verification/Storage_Lemmas.thy ===== *)
theory Storage_Lemmas
  imports Storage_Client
begin

text \<open>
  The handlers on every path that matters to the properties: each lemma says which state a
  handler leaves, in terms of the completion of its task. \<open>tdb_behaves\<close> is what the code
  relies on of TDB.
\<close>

section \<open>What is relied on of TDB\<close>

text \<open>
  \<open>contents w ctx\<close> is the database behind a handle. Storing replaces the value of one key or
  changes nothing; starting and committing a transaction leave the contents as they are;
  a traversal visits every key once.
\<close>

definition tdb_behaves :: "'w env \<Rightarrow> ('w \<Rightarrow> nat \<Rightarrow> bytes \<Rightarrow> bytes option) \<Rightarrow> bool" where
  "tdb_behaves E contents \<longleftrightarrow>
     (\<forall>ctx k v flag w. contents (snd (tdb_store E ctx k v flag w)) ctx =
        (if fst (tdb_store E ctx k v flag w) = 0 then (contents w ctx)(k \<mapsto> v) else contents w ctx)) \<and>
     (\<forall>ctx k w. tdb_fetch E ctx k w = contents w ctx k) \<and>
     (\<forall>ctx w. contents (snd (tdb_transaction_start E ctx w)) ctx = contents w ctx) \<and>
     (\<forall>ctx w. fst (tdb_transaction_commit E ctx w) = 0 \<longrightarrow>
        contents (snd (tdb_transaction_commit E ctx w)) ctx = contents w ctx) \<and>
     (\<forall>ctx w. distinct (map fst (tdb_traverse E ctx w)) \<and>
        set (map fst (tdb_traverse E ctx w)) = dom (contents w ctx))"

section \<open>Values on their way in and out\<close>

text \<open>What is stored for a buffer, and what a stored block is handed out as.\<close>

definition value_written :: "transform_iface option \<Rightarrow> bytes option \<Rightarrow> gsize \<Rightarrow> bytes \<Rightarrow> bool" where
  "value_written tr p n stored \<longleftrightarrow> (\<exists>buffer len.
     (case tr of None \<Rightarrow> Inr (Transformed None 0) | Some T \<Rightarrow> catalina_transform_write T p n) =
       Inr (Transformed buffer len) \<and>
     read_mem (if buffer \<noteq> None then buffer else p) (unat (if buffer \<noteq> None then len else n)) = Inr stored)"

definition value_read :: "transform_iface option \<Rightarrow> bytes \<Rightarrow> bytes option \<Rightarrow> gsize \<Rightarrow> bool" where
  "value_read tr stored p n \<longleftrightarrow> (case tr of
     None \<Rightarrow> p = Some stored \<and> n = of_nat (length stored)
   | Some T \<Rightarrow> \<exists>buffer len. catalina_transform_read T (Some stored) (of_nat (length stored)) =
         Inr (Transformed buffer len) \<and>
       (if len = 0 then p = Some stored \<and> n = of_nat (length stored) else p = buffer \<and> n = len))"

definition storage_keeps :: "transform_iface option \<Rightarrow> bytes \<Rightarrow> bytes \<Rightarrow> bool" where
  "storage_keeps tr bs stored \<longleftrightarrow>
     value_written tr (Some bs) (of_nat (length bs)) stored \<and>
     value_read tr stored (Some bs) (of_nat (length bs))"

lemma unat_length_gsize: "length bs < 2 ^ 64 \<Longrightarrow> unat (of_nat (length bs) :: gsize) = length bs"
  by (simp add: unat_of_nat take_bit_nat_eq_self)

lemma keeps_without_transform: "length bs < 2 ^ 64 \<Longrightarrow> storage_keeps None bs bs"
  by (simp add: storage_keeps_def value_written_def value_read_def unat_length_gsize)

context transform_contract
begin

lemma keeps:
  assumes "domain bs" "bs \<noteq> []"
  shows "storage_keeps (Some transform) bs (written_form bs)"
proof -
  have "(of_nat (length bs) :: gsize) \<noteq> 0"
    using unat_length_gsize [OF domain_length [OF assms(1)]] assms(2) by (metis length_0_conv unsigned_0)
  then show ?thesis
    using written_form [OF assms(1)] assms(2)
    by (auto simp: storage_keeps_def value_written_def value_read_def unat_length_gsize)
qed

text \<open>A transform that reads nothing back: the stored block itself is handed out.\<close>

lemma empty_read:
  assumes "domain []"
  shows "value_written (Some transform) (Some []) 0 (written_form []) \<and>
    value_read (Some transform) (written_form []) (Some (written_form [])) (of_nat (length (written_form [])))"
  using written_form [OF assms]
  by (auto simp: value_written_def value_read_def unat_length_gsize)

end

section \<open>Single handlers\<close>

lemma storage_task_fail_no_txn:
  assumes "tasks s t = Some k" "task_txn_id k = 0 \<or> task_error k = None \<or>
    map_of (txn_states s) (txn_hash_key (host E) (task_txn_id k)) = None"
  shows "storage_task_fail E t s = Inr (completed_state t False k s)"
  using assms by (auto simp: storage_task_fail_def storage_task_complete_eq)

lemma fail_with_no_txn:
  assumes "tasks s t = Some k" "task_txn_id k = 0 \<or>
    map_of (txn_states s) (txn_hash_key (host E) (task_txn_id k)) = None"
  shows "fail_with E e t s = Inr (completed_state t False (task_set_error e k) s)"
proof -
  let ?k = "task_set_error e k" and ?s = "s\<lparr>tasks := (tasks s)(t := Some (task_set_error e k))\<rparr>"
  have "storage_task_fail E t ?s = Inr (completed_state t False ?k ?s)"
    using assms(2) by (intro storage_task_fail_no_txn) (auto simp: task_set_error_def)
  then show ?thesis
    by (simp add: fail_with_def upd_task_Some [OF assms(1)] completed_state_def)
qed

lemma handle_set_stores:
  assumes "db_ctx s = Some ctx" "tasks s t = Some k" "task_txn_id k = txn s"
    and "read_mem (task_key k) (unat (task_key_length k)) = Inr db_key"
    and "value_written (storage_transform s) (task_data k) (task_data_length k) stored"
    and "tdb_store E ctx db_key stored (tdb_replace E) (world s) = (0, w)"
  shows "handle_set E (Message MESSAGE_SET t) s = Inr (completed_state t True k (s\<lparr>world := w\<rparr>))"
proof -
  obtain buffer len where b: "(case storage_transform s of None \<Rightarrow> Inr (Transformed None 0)
      | Some T \<Rightarrow> catalina_transform_write T (task_data k) (task_data_length k)) = Inr (Transformed buffer len)"
    and r: "read_mem (if buffer \<noteq> None then buffer else task_data k)
      (unat (if buffer \<noteq> None then len else task_data_length k)) = Inr stored"
    using assms(5) by (auto simp: value_written_def)
  show ?thesis
    using assms(1-4,6) b r
    by (simp add: handle_set_def Let_def storage_task_succeed_eq [where k = k])
qed

lemma handle_set_queues:
  assumes "db_ctx s = Some ctx" "tasks s t = Some k" "task_txn_id k \<noteq> 0" "txn s \<noteq> task_txn_id k"
    and "map_of (txn_states s) (txn_hash_key (host E) (task_txn_id k)) = Some st"
  shows "handle_set E (Message MESSAGE_SET t) s =
    Inr (s\<lparr>txn_states := AList.update (txn_hash_key (host E) (task_txn_id k))
      (st\<lparr>msgs := Message MESSAGE_SET t # msgs st\<rparr>) (txn_states s)\<rparr>)"
  using assms by (simp add: handle_set_def Let_def)

lemma handle_set_unknown_txn:
  assumes "db_ctx s = Some ctx" "tasks s t = Some k" "task_txn_id k \<noteq> 0" "txn s \<noteq> task_txn_id k"
    and "map_of (txn_states s) (txn_hash_key (host E) (task_txn_id k)) = None"
  shows "handle_set E (Message MESSAGE_SET t) s =
    Inr (completed_state t False (task_set_error STORAGE_ERROR_NO_SUCH_TXN k) s)"
  using assms by (simp add: handle_set_def Let_def fail_with_no_txn)

lemma handle_set_dropped:
  assumes "db_ctx s = Some ctx" "tasks s t = Some k" "task_txn_id k = 0" "txn s \<noteq> 0"
  shows "handle_set E (Message MESSAGE_SET t) s = Inr s"
  using assms by (simp add: handle_set_def Let_def)

lemma handle_get_finds:
  assumes "db_ctx s = Some ctx" "tasks s t = Some k"
    and "read_mem (task_key k) (unat (task_key_length k)) = Inr db_key"
    and "tdb_fetch E ctx db_key (world s) = Some stored"
    and "value_read (storage_transform s) stored p n"
  shows "handle_get E (Message MESSAGE_GET t) s =
    Inr (completed_state t True (k\<lparr>task_data := p, task_data_length := n\<rparr>) s)"
proof -
  have c: "storage_task_succeed t (s\<lparr>tasks := (tasks s)(t \<mapsto> k\<lparr>task_data := p, task_data_length := n\<rparr>)\<rparr>) =
      Inr (completed_state t True (k\<lparr>task_data := p, task_data_length := n\<rparr>) s)"
    by (simp add: storage_task_succeed_eq [where k = "k\<lparr>task_data := p, task_data_length := n\<rparr>"]
        completed_state_def)
  show ?thesis
  proof (cases "storage_transform s")
    case None
    then show ?thesis
      using assms c by (simp add: handle_get_def Let_def upd_task_Some value_read_def)
  next
    case (Some T)
    then obtain buffer len where "catalina_transform_read T (Some stored) (of_nat (length stored)) =
        Inr (Transformed buffer len)"
      and "if len = 0 then p = Some stored \<and> n = of_nat (length stored) else p = buffer \<and> n = len"
      using assms(5) by (auto simp: value_read_def)
    then show ?thesis
      using assms(1-4) c Some by (auto simp: handle_get_def Let_def upd_task_Some split: if_splits)
  qed
qed

lemma handle_get_missing:
  assumes "db_ctx s = Some ctx" "tasks s t = Some k" "task_txn_id k = 0"
    and "read_mem (task_key k) (unat (task_key_length k)) = Inr db_key"
    and "tdb_fetch E ctx db_key (world s) = None"
  shows "handle_get E (Message MESSAGE_GET t) s =
    Inr (completed_state t False (task_set_error STORAGE_ERROR_NO_SUCH_KEY k) s)"
  using assms by (simp add: handle_get_def Let_def fail_with_no_txn)

section \<open>New tasks\<close>

text \<open>A task as it is made, and a storage with one task more.\<close>

definition new_task :: "'o task" where
  "new_task = \<lparr>task_txn_id = 0, task_waiter = Mutex_Cond, task_success = False, task_key = None,
     task_key_length = 0, task_data = None, task_data_length = 0, task_value = VUnset, task_error = None\<rparr>"

definition with_task :: "'o task \<Rightarrow> ('o, 'w) storage \<Rightarrow> ('o, 'w) storage" where
  "with_task k s = s\<lparr>tasks := (tasks s)(next_task s \<mapsto> k), next_task := Suc (next_task s)\<rparr>"

lemma with_task_fields [simp]:
  "db_ctx (with_task k s) = db_ctx s" "txn (with_task k s) = txn s" "world (with_task k s) = world s"
  "txn_states (with_task k s) = txn_states s" "storage_transform (with_task k s) = storage_transform s"
  "ex_port (with_task k s) = ex_port s" "cn_port (with_task k s) = cn_port s" "completions (with_task k s) = completions s"
  "tasks (with_task k s) = (tasks s)(next_task s \<mapsto> k)" "next_task (with_task k s) = Suc (next_task s)"
  "storage_formatter (with_task k s) = storage_formatter s" "use_idle (with_task k s) = use_idle s"
  "txn_commits (with_task k s) = txn_commits s"
  by (simp_all add: with_task_def)

lemma storage_task_new_eq: "storage_task_new w s = (next_task s, with_task (new_task\<lparr>task_waiter := w\<rparr>) s)"
  by (simp add: storage_task_new_def Let_def with_task_def new_task_def)

end
