(* ===== verification/Storage_Sync.thy ===== *)
theory Storage_Sync
  imports Storage_Lemmas
begin

text \<open>
  The synchronous functions of \<^verbatim>\<open>catalina/catalina-storage.c\<close> as whole calls: the first half
  posts a request, the port hands its message to the handler, and the second half runs when
  the task is completed. Nothing else is delivered in between; other orders are runs of the
  step relation of \<open>Storage_Steps\<close>. A call whose task is not completed by the delivery goes
  on waiting: \<open>Inl Divergence\<close>.
\<close>

section \<open>Delivering the message of a task\<close>

definition ex_deliver :: "'w env \<Rightarrow> nat \<Rightarrow> nat \<Rightarrow> ('o, 'w) storage \<Rightarrow> ('o, 'w) storage result" where
  "ex_deliver E depth t s = (case find (\<lambda>m. message_task m = t) (ex_port s) of
     None \<Rightarrow> Inr s
   | Some m \<Rightarrow> catalina_storage_ex_handle_message E depth m (s\<lparr>ex_port := remove1 m (ex_port s)\<rparr>))"

definition cn_deliver :: "'w env \<Rightarrow> nat \<Rightarrow> ('o, 'w) storage \<Rightarrow> ('o, 'w) storage result" where
  "cn_deliver E t s = (case find (\<lambda>m. message_task m = t) (cn_port s) of
     None \<Rightarrow> Inr s
   | Some m \<Rightarrow> catalina_storage_cn_handle_message E m (s\<lparr>cn_port := remove1 m (cn_port s)\<rparr>))"

text \<open>Waiting for a task: its condition has been signalled.\<close>

definition await_task :: "nat \<Rightarrow> ('o, 'w) storage \<Rightarrow> ('o, 'w) storage result" where
  "await_task t s = (if Signalled t \<in> set (completions s) then Inr s else Inl Divergence)"

section \<open>The calls\<close>

definition catalina_storage_open :: "'w env \<Rightarrow> nat \<Rightarrow> bytes option \<Rightarrow> bytes option \<Rightarrow> ('o, 'w) storage
    \<Rightarrow> ((bool \<times> gerror option) \<times> ('o, 'w) storage) result" where
  "catalina_storage_open E depth env_dir name s =
     c_bind (catalina_storage_open_post E env_dir name s) (\<lambda>(t, s).
     case t of None \<Rightarrow> Inr ((False, None), s)
     | Some t \<Rightarrow> c_bind (c_bind (ex_deliver E depth t s) (await_task t)) (catalina_storage_open_return t))"

definition catalina_storage_close :: "'w env \<Rightarrow> nat \<Rightarrow> ('o, 'w) storage
    \<Rightarrow> ((bool \<times> gerror option) \<times> ('o, 'w) storage) result" where
  "catalina_storage_close E depth s =
     (let (t, s) = catalina_storage_close_post s in
      c_bind (c_bind (ex_deliver E depth t s) (await_task t)) (catalina_storage_close_return t))"

definition catalina_storage_get :: "'w env \<Rightarrow> bytes option \<Rightarrow> gssize \<Rightarrow> bytes option \<times> gsize \<Rightarrow> ('o, 'w) storage
    \<Rightarrow> ((get_out \<times> gerror option) \<times> ('o, 'w) storage) result" where
  "catalina_storage_get E key key_length old s =
     c_bind (catalina_storage_get_post key key_length s) (\<lambda>(t, s).
     case t of None \<Rightarrow> Inr (((False, old), None), s)
     | Some t \<Rightarrow> c_bind (c_bind (cn_deliver E t s) (await_task t)) (catalina_storage_get_return t old))"

definition catalina_storage_set :: "'w env \<Rightarrow> nat \<Rightarrow> gulong \<Rightarrow> bytes option \<Rightarrow> gssize \<Rightarrow> bytes option \<Rightarrow> gssize
    \<Rightarrow> ('o, 'w) storage \<Rightarrow> ((bool \<times> gerror option) \<times> ('o, 'w) storage) result" where
  "catalina_storage_set E depth txn_id key key_length val val_length s =
     c_bind (catalina_storage_set_post txn_id key key_length val val_length s) (\<lambda>(t, s).
     case t of None \<Rightarrow> Inr ((False, None), s)
     | Some t \<Rightarrow> c_bind (c_bind (ex_deliver E depth t s) (await_task t)) (catalina_storage_set_return t))"

definition catalina_storage_get_value :: "'w env \<Rightarrow> bytes option \<Rightarrow> gssize \<Rightarrow> 'o gvalue \<Rightarrow> ('o, 'w) storage
    \<Rightarrow> ((bool \<times> 'o gvalue \<times> gerror option) \<times> ('o, 'w) storage) result" where
  "catalina_storage_get_value E key key_length v s =
     c_bind (catalina_storage_get_value_post key key_length s) (\<lambda>((t, e), s).
     case t of None \<Rightarrow> Inr ((False, v, e), s)
     | Some t \<Rightarrow> c_bind (c_bind (cn_deliver E t s) (await_task t)) (catalina_storage_get_value_return t v))"

definition catalina_storage_set_value :: "'w env \<Rightarrow> nat \<Rightarrow> gulong \<Rightarrow> bytes option \<Rightarrow> gssize \<Rightarrow> 'o gvalue
    \<Rightarrow> ('o, 'w) storage \<Rightarrow> ((bool \<times> gerror option) \<times> ('o, 'w) storage) result" where
  "catalina_storage_set_value E depth txn_id key key_length v s =
     c_bind (catalina_storage_set_value_post txn_id key key_length v s) (\<lambda>((t, e), s).
     case t of None \<Rightarrow> Inr ((False, e), s)
     | Some t \<Rightarrow> c_bind (c_bind (ex_deliver E depth t s) (await_task t)) (catalina_storage_set_return t))"

definition catalina_storage_count_keys :: "'w env \<Rightarrow> ('o, 'w) storage \<Rightarrow> (gulong \<times> ('o, 'w) storage) result" where
  "catalina_storage_count_keys E s =
     (let (t, s) = catalina_storage_count_keys_post s in
      c_bind (c_bind (cn_deliver E t s) (await_task t)) (catalina_storage_count_keys_return t))"

section \<open>What a call comes to when no request is waiting\<close>

text \<open>No message on the ports belongs to a task that is yet to be made, and none is completed.\<close>

definition tasks_fresh :: "('o, 'w) storage \<Rightarrow> bool" where
  "tasks_fresh s \<longleftrightarrow> (\<forall>m\<in>set (ex_port s) \<union> set (cn_port s). message_task m < next_task s) \<and>
     (\<forall>t\<ge>next_task s. Signalled t \<notin> set (completions s))"

text \<open>The storage after a synchronous call has come and gone: its task is used up.\<close>

definition after_call :: "('o, 'w) storage \<Rightarrow> ('o, 'w) storage" where
  "after_call s = s\<lparr>tasks := (tasks s)(next_task s := None), next_task := Suc (next_task s),
     completions := completions s @ [Signalled (next_task s)]\<rparr>"

lemma fresh_ex:
  assumes "tasks_fresh s"
  shows "find (\<lambda>m. message_task m = next_task s) (ex_port s @ [Message ty (next_task s)]) = Some (Message ty (next_task s))"
    and "remove1 (Message ty (next_task s)) (ex_port s @ [Message ty (next_task s)]) = ex_port s"
    and "find (\<lambda>m. message_task m = next_task s) (cn_port s @ [Message ty (next_task s)]) = Some (Message ty (next_task s))"
    and "remove1 (Message ty (next_task s)) (cn_port s @ [Message ty (next_task s)]) = cn_port s"
proof -
  have f: "find (\<lambda>m. message_task m = t) (ms @ [Message ty t]) = Some (Message ty t)"
    and r: "remove1 (Message ty t) (ms @ [Message ty t]) = ms"
    if "\<forall>m\<in>set ms. message_task m < t" for ms t
    using that by (induction ms) auto
  show "find (\<lambda>m. message_task m = next_task s) (ex_port s @ [Message ty (next_task s)]) = Some (Message ty (next_task s))"
    "remove1 (Message ty (next_task s)) (ex_port s @ [Message ty (next_task s)]) = ex_port s"
    "find (\<lambda>m. message_task m = next_task s) (cn_port s @ [Message ty (next_task s)]) = Some (Message ty (next_task s))"
    "remove1 (Message ty (next_task s)) (cn_port s @ [Message ty (next_task s)]) = cn_port s"
    using assms f r by (auto simp: tasks_fresh_def)
qed

lemma after_call_fields [simp]:
  "db_ctx (after_call s) = db_ctx s" "txn (after_call s) = txn s" "world (after_call s) = world s"
  "txn_states (after_call s) = txn_states s" "txn_commits (after_call s) = txn_commits s"
  "storage_transform (after_call s) = storage_transform s" "storage_formatter (after_call s) = storage_formatter s"
  "ex_port (after_call s) = ex_port s" "cn_port (after_call s) = cn_port s"
  "next_task (after_call s) = Suc (next_task s)"
  by (simp_all add: after_call_def)

lemma after_call_fresh [simp]: "tasks_fresh s \<Longrightarrow> tasks_fresh (after_call s)"
  "tasks_fresh (s\<lparr>world := w\<rparr>) = tasks_fresh s"
  by (auto simp: tasks_fresh_def less_Suc_eq after_call_def)

lemma of_nat_gssize_eq: "length bs < 2 ^ 63 \<Longrightarrow> unat (of_nat (length bs) :: gssize) = length bs"
  by (simp add: unat_of_nat take_bit_nat_eq_self)

lemma length_ok_of_nat:
  assumes "bs \<noteq> []" "length bs < 2 ^ 63"
  shows "length_ok (of_nat (length bs))" "(of_nat (length bs) :: gssize) \<noteq> - 1"
proof -
  have "sint (of_nat (length bs) :: gssize) = int (length bs)"
    using of_nat_gssize_eq [OF assms(2)] assms(2)
    by (simp add: sint_uint uint_nat signed_take_bit_int_eq_self del: unat_of_nat)
  moreover have "0 < length bs" using assms(1) by simp
  ultimately show "length_ok (of_nat (length bs))" by (simp add: length_ok_def)
  show "(of_nat (length bs) :: gssize) \<noteq> - 1"
  proof
    assume "(of_nat (length bs) :: gssize) = - 1"
    then have "sint (of_nat (length bs) :: gssize) = - 1" by simp
    with \<open>sint (of_nat (length bs) :: gssize) = int (length bs)\<close> show False by simp
  qed
qed

lemma read_mem_all: "length bs < 2 ^ 63 \<Longrightarrow> read_mem (Some bs) (unat (of_nat (length bs) :: gssize)) = Inr bs"
  by (simp add: of_nat_gssize_eq read_mem_def load_bytes_def)


text \<open>
  The end of a call: the task is completed, its result taken, and the task freed. \<open>s1\<close> is the
  state its handler left behind.
\<close>

lemma wait_completed:
  assumes "task_waiter k = Mutex_Cond"
  shows "await_task t (completed_state t b k s1) = Inr (completed_state t b k s1)"
    and "wait_and_free t (completed_state t b k s1) =
      Inr ((b, if b then None else task_error k),
        s1\<lparr>tasks := (tasks s1)(t := None), completions := completions s1 @ [Signalled t]\<rparr>)"
    and "catalina_storage_get_return t old (completed_state t b k s1) =
      Inr (((b, if b then (task_data k, task_data_length k) else old), if b then None else task_error k),
        s1\<lparr>tasks := (tasks s1)(t := None), completions := completions s1 @ [Signalled t]\<rparr>)"
    and "catalina_storage_count_keys_return t (completed_state t b k s1) =
      Inr (if b then g_value_get_ulong (task_value k) else 0,
        s1\<lparr>tasks := (tasks s1)(t := None), completions := completions s1 @ [Signalled t]\<rparr>)"
  using assms
  by (auto simp: await_task_def completed_state_def wait_and_free_def storage_task_wait_def storage_task_free_def
      catalina_storage_get_return_def catalina_storage_count_keys_return_def intro!: storage.equality)

text \<open>The storage when the message of a request is taken off the port.\<close>

lemma ex_deliver_posted:
  assumes "tasks_fresh s"
  shows "ex_deliver E depth (next_task s) (post_ex ty (next_task s) (with_task k s)) =
    catalina_storage_ex_handle_message E depth (Message ty (next_task s)) (with_task k s)"
proof -
  have e: "with_task k s\<lparr>ex_port := ex_port s\<rparr> = with_task k s"
    by (rule storage.equality) simp_all
  then show ?thesis using fresh_ex(1,2) [OF assms, of ty] by (simp add: ex_deliver_def post_ex_def e)
qed

lemma cn_deliver_posted:
  assumes "tasks_fresh s"
  shows "cn_deliver E (next_task s) (post_cn ty (next_task s) (with_task k s)) =
    catalina_storage_cn_handle_message E (Message ty (next_task s)) (with_task k s)"
proof -
  have e: "with_task k s\<lparr>cn_port := cn_port s\<rparr> = with_task k s"
    by (rule storage.equality) simp_all
  then show ?thesis using fresh_ex(3,4) [OF assms, of ty] by (simp add: cn_deliver_def post_cn_def e)
qed

lemma call_ends:
  "(with_task k s)\<lparr>world := w\<rparr> = with_task k (s\<lparr>world := w\<rparr>)"
  "(with_task k s)\<lparr>tasks := (tasks s)(next_task s := None), completions := completions s @ [Signalled (next_task s)]\<rparr> =
   after_call s"
  by (auto intro!: storage.equality simp: with_task_def after_call_def)

lemmas call_ends_world = call_ends(2) [where s = "s\<lparr>world := w\<rparr>" for s w, simplified]

lemma set_posted:
  assumes "kb \<noteq> []" "length kb < 2 ^ 63" "length bs < 2 ^ 63"
  shows "catalina_storage_set_post txn_id (Some kb) (of_nat (length kb)) (Some bs) (of_nat (length bs)) s =
    Inr (Some (next_task s), post_ex MESSAGE_SET (next_task s) (with_task (new_task\<lparr>task_txn_id := txn_id,
      task_key := Some kb, task_key_length := of_nat (length kb),
      task_data := Some bs, task_data_length := of_nat (length bs)\<rparr>) s))"
proof -
  have "(of_nat (length bs) :: gssize) \<noteq> - 1"
  proof (cases bs)
    case (Cons b bs')
    then show ?thesis using length_ok_of_nat(2) [of bs] assms(3) by blast
  qed simp
  then show ?thesis
    using length_ok_of_nat [OF assms(1,2)]
    by (auto simp: catalina_storage_set_post_def storage_task_new_def Let_def upd_task_Some new_task_def
        with_task_def post_ex_def intro!: storage.equality)
qed

lemma get_posted:
  assumes "kb \<noteq> []" "length kb < 2 ^ 63"
  shows "catalina_storage_get_post (Some kb) (of_nat (length kb)) s =
    Inr (Some (next_task s), post_cn MESSAGE_GET (next_task s) (with_task (new_task\<lparr>
      task_key := Some kb, task_key_length := of_nat (length kb)\<rparr>) s))"
  using length_ok_of_nat [OF assms] read_mem_all [OF assms(2)]
  by (auto simp: catalina_storage_get_post_def get_task_post_def dup_memory_def storage_task_new_def Let_def
      upd_task_Some new_task_def with_task_def post_cn_def intro!: storage.equality)

lemma set_call:
  assumes "tasks_fresh s" "db_ctx s = Some ctx" "txn s = txn_id"
    and "kb \<noteq> []" "length kb < 2 ^ 63" "length bs < 2 ^ 63"
    and "value_written (storage_transform s) (Some bs) (of_nat (length bs)) stored"
    and "tdb_store E ctx kb stored (tdb_replace E) (world s) = (0, w)"
  shows "catalina_storage_set E depth txn_id (Some kb) (of_nat (length kb)) (Some bs) (of_nat (length bs)) s =
    Inr ((True, None), after_call (s\<lparr>world := w\<rparr>))"
proof -
  let ?k = "new_task\<lparr>task_txn_id := txn_id, task_key := Some kb, task_key_length := of_nat (length kb),
      task_data := Some bs, task_data_length := of_nat (length bs)\<rparr>"
  have "handle_set E (Message MESSAGE_SET (next_task s)) (with_task ?k s) =
      Inr (completed_state (next_task s) True ?k ((with_task ?k s)\<lparr>world := w\<rparr>))"
    using assms read_mem_all [OF assms(5)] by (intro handle_set_stores) simp_all
  then show ?thesis
    using assms(1) unfolding call_ends(1)
    by (simp add: catalina_storage_set_def set_posted [OF assms(4-6)] ex_deliver_posted
        catalina_storage_ex_handle_message.simps catalina_storage_set_return_def wait_completed new_task_def
        call_ends_world)
qed


lemma get_call:
  assumes "tasks_fresh s" "db_ctx s = Some ctx" "kb \<noteq> []" "length kb < 2 ^ 63"
    and "tdb_fetch E ctx kb (world s) = Some stored" "value_read (storage_transform s) stored p n"
  shows "catalina_storage_get E (Some kb) (of_nat (length kb)) old s = Inr (((True, p, n), None), after_call s)"
proof -
  let ?k = "new_task\<lparr>task_key := Some kb, task_key_length := of_nat (length kb)\<rparr>"
  have "handle_get E (Message MESSAGE_GET (next_task s)) (with_task ?k s) =
      Inr (completed_state (next_task s) True (?k\<lparr>task_data := p, task_data_length := n\<rparr>) (with_task ?k s))"
    using assms read_mem_all [OF assms(4)] by (intro handle_get_finds) simp_all
  then show ?thesis
    using assms(1)
    by (simp add: catalina_storage_get_def get_posted [OF assms(3,4)] cn_deliver_posted
        catalina_storage_cn_handle_message_def wait_completed new_task_def call_ends(2))
qed

lemma get_call_missing:
  assumes "tasks_fresh s" "db_ctx s = Some ctx" "kb \<noteq> []" "length kb < 2 ^ 63"
    and "tdb_fetch E ctx kb (world s) = None"
  shows "catalina_storage_get E (Some kb) (of_nat (length kb)) old s =
    Inr (((False, old), Some STORAGE_ERROR_NO_SUCH_KEY), after_call s)"
proof -
  let ?k = "new_task\<lparr>task_key := Some kb, task_key_length := of_nat (length kb)\<rparr>"
  have "handle_get E (Message MESSAGE_GET (next_task s)) (with_task ?k s) =
      Inr (completed_state (next_task s) False (task_set_error STORAGE_ERROR_NO_SUCH_KEY ?k) (with_task ?k s))"
    using assms read_mem_all [OF assms(4)] by (intro handle_get_missing) (simp_all add: new_task_def)
  then show ?thesis
    using assms(1)
    by (simp add: catalina_storage_get_def get_posted [OF assms(3,4)] cn_deliver_posted
        catalina_storage_cn_handle_message_def wait_completed new_task_def task_set_error_def g_set_error_def call_ends(2))
qed

lemma count_fold: "fold handle_count_keys_cb es n = n + of_nat (length es)"
  by (induction es arbitrary: n) (simp_all add: handle_count_keys_cb_def algebra_simps)

lemma handle_count_keys_eq:
  assumes "tasks s t = Some k"
  shows "handle_count_keys E (Message MESSAGE_COUNT_KEYS t) s = Inr (completed_state t True
    (k\<lparr>task_value := VULong (case db_ctx s of None \<Rightarrow> 0 | Some ctx \<Rightarrow> of_nat (length (tdb_traverse E ctx (world s))))\<rparr>) s)"
proof -
  let ?n = "case db_ctx s of None \<Rightarrow> 0 | Some ctx \<Rightarrow> of_nat (length (tdb_traverse E ctx (world s)))"
  show ?thesis
    using assms by (auto simp: handle_count_keys_def Let_def upd_task_Some count_fold completed_state_def
        storage_task_succeed_eq [where k = "k\<lparr>task_value := VULong ?n\<rparr>"] split: option.split)
qed

lemma traverse_counts:
  "tdb_behaves E contents \<Longrightarrow> length (tdb_traverse E ctx w) = card (dom (contents w ctx))"
  unfolding tdb_behaves_def by (metis distinct_card length_map)

lemma count_keys_call:
  assumes "tasks_fresh s"
  shows "catalina_storage_count_keys E s =
    Inr (case db_ctx s of None \<Rightarrow> 0 | Some ctx \<Rightarrow> of_nat (length (tdb_traverse E ctx (world s))), after_call s)"
proof -
  let ?v = "VULong (case db_ctx s of None \<Rightarrow> 0 | Some ctx \<Rightarrow> of_nat (length (tdb_traverse E ctx (world s))))"
  let ?k = "new_task\<lparr>task_value := ?v\<rparr>"
  have p: "catalina_storage_count_keys_post s = (next_task s, post_cn MESSAGE_COUNT_KEYS (next_task s) (with_task new_task s))"
    by (simp add: catalina_storage_count_keys_post_def storage_task_new_def Let_def new_task_def with_task_def post_cn_def)
  have "handle_count_keys E (Message MESSAGE_COUNT_KEYS (next_task s)) (with_task new_task s) =
      Inr (completed_state (next_task s) True ?k (with_task new_task s))"
    by (subst handle_count_keys_eq [where k = new_task]) (simp_all add: with_task_def cong: option.case_cong)
  then show ?thesis
    using assms
    by (simp add: catalina_storage_count_keys_def p cn_deliver_posted catalina_storage_cn_handle_message_def
        wait_completed new_task_def call_ends(2) g_value_get_ulong_def)
qed

end
