(* ===== verification/Storage_Transactions.thy ===== *)
theory Storage_Transactions
  imports Storage_Lemmas
begin

text \<open>
  Transactions: what is queued, what a commit does with it and what is left when one goes
  wrong. The specification of a commit is the list of updates \<open>(task, key, stored block)\<close> its
  queued messages stand for, applied to the database in the order they were requested.
\<close>

section \<open>Running queued messages\<close>

text \<open>An update that will go through: its task waits, belongs to the transaction, and has its bytes.\<close>

definition update_ready :: "('o, 'w) storage \<Rightarrow> gulong \<Rightarrow> nat \<times> bytes \<times> bytes \<Rightarrow> bool" where
  "update_ready s txn_id u \<longleftrightarrow> (case u of (t, db_key, stored) \<Rightarrow>
     \<exists>k. tasks s t = Some k \<and> task_txn_id k = txn_id \<and>
       read_mem (task_key k) (unat (task_key_length k)) = Inr db_key \<and>
       value_written (storage_transform s) (task_data k) (task_data_length k) stored)"

definition stores_succeed :: "'w env \<Rightarrow> bool" where
  "stores_succeed E \<longleftrightarrow> (\<forall>ctx k v flag w. fst (tdb_store E ctx k v flag w) = 0)"

definition run_update :: "'w env \<Rightarrow> nat \<Rightarrow> nat \<times> bytes \<times> bytes \<Rightarrow> ('o, 'w) storage \<Rightarrow> ('o, 'w) storage" where
  "run_update E ctx u s = (case u of (t, db_key, stored) \<Rightarrow>
     completed_state t True (the (tasks s t))
       (s\<lparr>world := snd (tdb_store E ctx db_key stored (tdb_replace E) (world s))\<rparr>))"

definition run_updates :: "'w env \<Rightarrow> nat \<Rightarrow> (nat \<times> bytes \<times> bytes) list \<Rightarrow> ('o, 'w) storage \<Rightarrow> ('o, 'w) storage" where
  "run_updates E ctx us s = fold (run_update E ctx) us s"

definition set_messages :: "(nat \<times> bytes \<times> bytes) list \<Rightarrow> message list" where
  "set_messages us = map (\<lambda>(t, _). Message MESSAGE_SET t) us"

definition apply_updates :: "(nat \<times> bytes \<times> bytes) list \<Rightarrow> (bytes \<Rightarrow> bytes option) \<Rightarrow> bytes \<Rightarrow> bytes option" where
  "apply_updates us db = foldl (\<lambda>db (_, key, stored). db(key \<mapsto> stored)) db us"

lemma completed_state_fields [simp]:
  "db_ctx (completed_state t ok k s) = db_ctx s"
  "txn (completed_state t ok k s) = txn s"
  "txn_seq (completed_state t ok k s) = txn_seq s"
  "txn_states (completed_state t ok k s) = txn_states s"
  "txn_commits (completed_state t ok k s) = txn_commits s"
  "storage_transform (completed_state t ok k s) = storage_transform s"
  "storage_formatter (completed_state t ok k s) = storage_formatter s"
  "use_idle (completed_state t ok k s) = use_idle s"
  "world (completed_state t ok k s) = world s"
  "ex_port (completed_state t ok k s) = ex_port s"
  "cn_port (completed_state t ok k s) = cn_port s"
  "next_task (completed_state t ok k s) = next_task s"
  "tasks (completed_state t ok k s) = (tasks s)(t \<mapsto> k\<lparr>task_success := ok\<rparr>)"
  by (simp_all add: completed_state_def)

lemma run_update_fields [simp]:
  "db_ctx (run_update E ctx u s) = db_ctx s" "txn (run_update E ctx u s) = txn s"
  "txn_states (run_update E ctx u s) = txn_states s" "txn_commits (run_update E ctx u s) = txn_commits s"
  "storage_transform (run_update E ctx u s) = storage_transform s"
  by (simp_all add: run_update_def split: prod.split)

lemma run_updates_fields [simp]:
  "db_ctx (run_updates E ctx us s) = db_ctx s" "txn (run_updates E ctx us s) = txn s"
  "txn_states (run_updates E ctx us s) = txn_states s" "txn_commits (run_updates E ctx us s) = txn_commits s"
  "storage_transform (run_updates E ctx us s) = storage_transform s"
  by (induction us arbitrary: s) (simp_all add: run_updates_def)

lemma run_updates_Cons: "run_updates E ctx (u # us) s = run_updates E ctx us (run_update E ctx u s)"
  by (simp add: run_updates_def)

lemma run_updates_tasks_other:
  "t \<notin> fst ` set us \<Longrightarrow> tasks (run_updates E ctx us s) t = tasks s t"
  by (induction us arbitrary: s) (auto simp: run_updates_def run_update_def)

lemma run_updates_tasks:
  "distinct (map fst us) \<Longrightarrow> u \<in> set us \<Longrightarrow> tasks s (fst u) = Some k \<Longrightarrow>
   tasks (run_updates E ctx us s) (fst u) = Some (k\<lparr>task_success := True\<rparr>)"
proof (induction us arbitrary: s)
  case (Cons v us)
  show ?case
  proof (cases "fst u = fst v")
    case True
    then have "fst u \<notin> fst ` set us" using Cons.prems(1) by simp
    moreover have "tasks (run_update E ctx v s) (fst u) = Some (k\<lparr>task_success := True\<rparr>)"
      using True Cons.prems(3) by (cases v) (simp add: run_update_def)
    ultimately show ?thesis by (simp add: run_updates_Cons run_updates_tasks_other)
  next
    case False
    then have "tasks (run_update E ctx v s) (fst u) = Some k"
      using Cons.prems(3) by (cases v) (simp add: run_update_def)
    then show ?thesis using Cons False by (auto simp: run_updates_Cons)
  qed
qed simp

lemma run_updates_contents:
  assumes "tdb_behaves E contents" "stores_succeed E"
  shows "contents (world (run_updates E ctx us s)) ctx = apply_updates us (contents (world s) ctx)"
proof (induction us arbitrary: s)
  case (Cons u us)
  obtain t key stored where u: "u = (t, key, stored)" by (cases u)
  have "contents (world (run_update E ctx u s)) ctx = (contents (world s) ctx)(key \<mapsto> stored)"
    using assms by (simp add: u run_update_def tdb_behaves_def stores_succeed_def)
  then show ?case unfolding run_updates_Cons Cons.IH by (simp add: apply_updates_def u)
qed (simp add: run_updates_def apply_updates_def)

text \<open>Updates that TDB stores in every state of the database.\<close>

definition update_goes :: "'w env \<Rightarrow> nat \<times> bytes \<times> bytes \<Rightarrow> bool" where
  "update_goes E u \<longleftrightarrow> (\<forall>ctx flag w. fst (tdb_store E ctx (fst (snd u)) (snd (snd u)) flag w) = 0)"

lemma stores_succeed_goes: "stores_succeed E \<Longrightarrow> update_goes E u"
  by (simp add: stores_succeed_def update_goes_def)

lemma handle_set_ready:
  assumes "update_ready s (txn s) u" "db_ctx s = Some ctx" "update_goes E u"
  shows "handle_set E (Message MESSAGE_SET (fst u)) s = Inr (run_update E ctx u s)"
proof -
  obtain t key stored where u: "u = (t, key, stored)" by (cases u)
  obtain k where k: "tasks s t = Some k" "task_txn_id k = txn s"
    "read_mem (task_key k) (unat (task_key_length k)) = Inr key"
    "value_written (storage_transform s) (task_data k) (task_data_length k) stored"
    using assms(1) by (auto simp: u update_ready_def)
  have "tdb_store E ctx key stored (tdb_replace E) (world s) =
      (0, snd (tdb_store E ctx key stored (tdb_replace E) (world s)))"
    using assms(3) by (simp add: update_goes_def u prod_eq_iff)
  from handle_set_stores [OF assms(2) k this] show ?thesis
    using k(1) by (simp add: u run_update_def)
qed

lemma update_ready_run:
  "update_ready s txn_id v \<Longrightarrow> fst v \<noteq> fst u \<Longrightarrow> update_ready (run_update E ctx u s) txn_id v"
  by (auto simp: update_ready_def run_update_def split: prod.splits)

lemma run_msgs_append:
  assumes "db_ctx s = Some ctx" "map_of (txn_states s) hash_key = Some st" "txn_error st = None"
    and "distinct (map fst us)" "\<And>u. u \<in> set us \<Longrightarrow> update_ready s (txn s) u" "\<And>u. u \<in> set us \<Longrightarrow> update_goes E u"
  shows "run_msgs E depth hash_key ct (set_messages us @ ms) s =
    run_msgs E depth hash_key ct ms (run_updates E ctx us s)"
  using assms
proof (induction us arbitrary: s)
  case (Cons u us)
  have h: "handle_set E (Message MESSAGE_SET (fst u)) s = Inr (run_update E ctx u s)"
    using Cons.prems by (intro handle_set_ready) simp_all
  have "run_msgs E depth hash_key ct (set_messages us @ ms) (run_update E ctx u s) =
      run_msgs E depth hash_key ct ms (run_updates E ctx us (run_update E ctx u s))"
    using Cons.prems by (intro Cons.IH) (auto intro!: update_ready_run simp: image_iff)
  then show ?case
    using h Cons.prems
    by (cases u) (simp add: set_messages_def catalina_storage_ex_handle_message.simps run_updates_Cons)
qed (simp add: set_messages_def run_updates_def)

lemma run_msgs_updates:
  assumes "stores_succeed E" "db_ctx s = Some ctx" "map_of (txn_states s) hash_key = Some st" "txn_error st = None"
    and "distinct (map fst us)" "\<And>u. u \<in> set us \<Longrightarrow> update_ready s (txn s) u"
  shows "run_msgs E depth hash_key ct (set_messages us) s = Inr (True, run_updates E ctx us s)"
  using run_msgs_append [OF assms(2-6), of E depth ct "[]"] stores_succeed_goes [OF assms(1)] by simp

section \<open>A commit that succeeds\<close>

definition transactions_succeed :: "'w env \<Rightarrow> bool" where
  "transactions_succeed E \<longleftrightarrow> stores_succeed E \<and>
     (\<forall>ctx w. fst (tdb_transaction_start E ctx w) = 0 \<and> fst (tdb_transaction_commit E ctx w) = 0)"

text \<open>A pending transaction: its state holds the messages of \<open>us\<close>, the latest first.\<close>

definition pending_txn :: "'w env \<Rightarrow> ('o, 'w) storage \<Rightarrow> gulong \<Rightarrow> (nat \<times> bytes \<times> bytes) list \<Rightarrow> bool" where
  "pending_txn E s txn_id us \<longleftrightarrow>
     (\<exists>st. map_of (txn_states s) (txn_hash_key (host E) txn_id) = Some st \<and>
        msgs st = rev (set_messages us) \<and> txn_error st = None) \<and>
     distinct (map fst us) \<and> (\<forall>u\<in>set us. update_ready s txn_id u)"

text \<open>The state after the updates of a commit, before the next one in the queue is started.\<close>

definition committed_state :: "'w env \<Rightarrow> nat \<Rightarrow> gulong \<Rightarrow> nat \<Rightarrow> 'o task \<Rightarrow> (nat \<times> bytes \<times> bytes) list
    \<Rightarrow> ('o, 'w) storage \<Rightarrow> ('o, 'w) storage" where
  "committed_state E ctx txn_id t task us s =
     (let hash_key = txn_hash_key (host E) txn_id;
          st = the (map_of (txn_states s) hash_key);
          s1 = s\<lparr>txn := txn_id, world := snd (tdb_transaction_start E ctx (world s)),
                 txn_states := AList.update hash_key (st\<lparr>msgs := set_messages us\<rparr>) (txn_states s)\<rparr>;
          s2 = run_updates E ctx us s1 in
      completed_state t True task (s2\<lparr>world := snd (tdb_transaction_commit E ctx (world s2)),
        txn_states := AList.delete hash_key (txn_states s2), txn := 0\<rparr>))"

lemma handle_txn_commit_updates:
  assumes E: "transactions_succeed E" and s: "db_ctx s = Some ctx" "txn s = 0 \<or> txn s = txn_id"
    and t: "tasks s t = Some task" "task_txn_id task = txn_id" "t \<notin> fst ` set us"
    and p: "pending_txn E s txn_id us"
  shows "handle_txn_commit E (Suc depth) (Message MESSAGE_TXN_COMMIT t) s =
    (let s' = committed_state E ctx txn_id t task us s in
     case txn_commits s of [] \<Rightarrow> Inr s'
     | m # commits \<Rightarrow> handle_txn_commit E depth m (s'\<lparr>txn_commits := commits\<rparr>))"
proof -
  let ?hk = "txn_hash_key (host E) txn_id"
  obtain st where st: "map_of (txn_states s) ?hk = Some st" "msgs st = rev (set_messages us)" "txn_error st = None"
    and d: "distinct (map fst us)" and r: "\<And>u. u \<in> set us \<Longrightarrow> update_ready s txn_id u"
    using p by (auto simp: pending_txn_def)
  obtain w1 where start: "tdb_transaction_start E ctx (world s) = (0, w1)"
    using E by (metis prod.collapse transactions_succeed_def)
  let ?s0 = "s\<lparr>txn := txn_id, world := w1\<rparr>"
  let ?s1 = "?s0\<lparr>txn_states := AList.update ?hk (st\<lparr>msgs := set_messages us\<rparr>) (txn_states s)\<rparr>"
  have succ: "stores_succeed E" using E by (simp add: transactions_succeed_def)
  have ready: "update_ready ?s1 txn_id u" if "u \<in> set us" for u
    using r [OF that] by (auto simp: update_ready_def)
  have "run_msgs E depth ?hk t (set_messages us) ?s1 = Inr (True, run_updates E ctx us ?s1)"
    using ready d s(1) st(3)
    by (intro run_msgs_updates [OF succ, where st = "st\<lparr>msgs := set_messages us\<rparr>"]) (simp_all add: update_conv)
  then have run: "txn_state_run E depth ?hk t ?s0 = Inr (True, run_updates E ctx us ?s1)"
    using st by (simp add: txn_state_run.simps Let_def)
  define s2 where "s2 = run_updates E ctx us ?s1"
  obtain w2 where commit: "tdb_transaction_commit E ctx (world s2) = (0, w2)"
    using E by (metis prod.collapse transactions_succeed_def)
  let ?s3 = "s2\<lparr>world := w2, txn_states := AList.delete ?hk (txn_states s2), txn := 0\<rparr>"
  have task: "tasks s2 t = Some task"
    using t by (simp add: run_updates_tasks_other s2_def)
  then have fin: "storage_task_succeed t ?s3 = Inr (completed_state t True task ?s3)"
    by (simp add: storage_task_succeed_eq)
  have c: "committed_state E ctx txn_id t task us s = completed_state t True task ?s3"
    using commit by (simp add: committed_state_def Let_def st(1) start s2_def)
  have f: "txn_commits s2 = txn_commits s" by (simp add: s2_def)
  show ?thesis
    unfolding c Let_def completed_state_fields using s t(1,2) st(1) run fin commit f
    by (auto simp: handle_txn_commit.simps Let_def start s2_def [symmetric])
qed

lemma committed_state_fields:
  "txn (committed_state E ctx txn_id t task us s) = 0"
  "txn_commits (committed_state E ctx txn_id t task us s) = txn_commits s"
  "map_of (txn_states (committed_state E ctx txn_id t task us s)) (txn_hash_key (host E) txn_id) = None"
  "db_ctx (committed_state E ctx txn_id t task us s) = db_ctx s"
  by (simp_all add: committed_state_def Let_def delete_conv)

lemma committed_contents:
  assumes "tdb_behaves E contents" "transactions_succeed E"
  shows "contents (world (committed_state E ctx txn_id t task us s)) ctx =
    apply_updates us (contents (world s) ctx)"
proof -
  have succ: "stores_succeed E" using assms(2) by (simp add: transactions_succeed_def)
  show ?thesis
    using assms unfolding tdb_behaves_def transactions_succeed_def
    by (simp add: committed_state_def Let_def run_updates_contents [OF assms(1) succ])
qed

end
