(* ===== verification/Storage_Machine.thy ===== *)
theory Storage_Machine
  imports Storage_Transactions "HOL-Library.Multiset"
begin

text \<open>
  The storage as a state machine: messages wait on two ports, any of them may be delivered
  next, and between deliveries the application issues requests. The invariant says that
  every message in the machine leads to its own live task, that no task is completed twice,
  and how the database handle, the current transaction and the two queues go together.

  The messages in the machine are a multiset: those on the ports, the waiting commits, and
  the queued messages of the transactions. \<open>queued K\<close> leaves out the transactions with keys
  in \<open>K\<close>: the one that is being committed still lists messages that have been handled.
\<close>

section \<open>Counting messages and completions\<close>

fun completion_task :: "completion \<Rightarrow> nat" where
  "completion_task (Signalled t) = t"
| "completion_task (In_Idle t) = t"
| "completion_task (Called t) = t"

definition done_ids :: "('o, 'w) storage \<Rightarrow> nat list" where
  "done_ids s = map completion_task (completions s)"

definition queued_in :: "32 word set \<Rightarrow> (32 word \<times> txn_state) list \<Rightarrow> message multiset" where
  "queued_in K al = mset (concat (map (msgs \<circ> snd) (filter (\<lambda>(k, _). k \<notin> K) al)))"

definition queued :: "32 word set \<Rightarrow> ('o, 'w) storage \<Rightarrow> message multiset" where
  "queued K s = queued_in K (txn_states s)"

definition in_machine :: "('o, 'w) storage \<Rightarrow> message multiset" where
  "in_machine s = mset (ex_port s) + mset (cn_port s) + mset (txn_commits s) + queued {} s"

text \<open>The messages of \<open>M\<close> lead to live tasks of their own, none of them completed.\<close>

definition sound :: "message multiset \<Rightarrow> ('o, 'w) storage \<Rightarrow> bool" where
  "sound M s \<longleftrightarrow> (\<forall>t. count (image_mset message_task M + mset (done_ids s)) t \<le> 1) \<and>
     (\<forall>m\<in>#M. tasks s (message_task m) \<noteq> None)"

lemma sound_shrinks:
  assumes "sound M s"
    and "image_mset message_task M' + mset (done_ids s') \<subseteq># image_mset message_task M + mset (done_ids s)"
    and "\<And>m. m \<in># M' \<Longrightarrow> tasks s' (message_task m) \<noteq> None"
  shows "sound M' s'"
  using assms mset_subset_eq_count [OF assms(2)] unfolding sound_def by (blast intro: order_trans)

lemma sound_mono:
  assumes "sound M s" "M' \<subseteq># M"
  shows "sound M' s"
proof (rule sound_shrinks [OF assms(1)])
  show "image_mset message_task M' + mset (done_ids s) \<subseteq># image_mset message_task M + mset (done_ids s)"
    using image_mset_subseteq_mono [OF assms(2)] by simp
  show "tasks s (message_task m) \<noteq> None" if "m \<in># M'" for m
    using assms mset_subset_eqD [OF assms(2) that] by (simp add: sound_def)
qed

lemma sound_cong:
  "done_ids s' = done_ids s \<Longrightarrow> tasks s' = tasks s \<Longrightarrow> sound M s' = sound M s"
  by (simp add: sound_def)

lemma sound_distinct_tasks:
  assumes "sound (add_mset m M) s" "m' \<in># M"
  shows "message_task m' \<noteq> message_task m"
proof
  assume e: "message_task m' = message_task m"
  have "1 \<le> count (image_mset message_task M) (message_task m')"
    using assms(2) by (simp add: Suc_le_eq)
  moreover have "count (image_mset message_task (add_mset m M) + mset (done_ids s)) (message_task m) \<le> 1"
    using assms(1) unfolding sound_def by blast
  ultimately show False using e by (auto simp: count_eq_zero_iff)
qed

lemma queued_in_simps [simp]:
  "queued_in K [] = {#}"
  "queued_in K ((k, st) # al) = (if k \<in> K then {#} else mset (msgs st)) + queued_in K al"
  by (simp_all add: queued_in_def)

lemma queued_in_update:
  "queued_in K (AList.update k st' al) +
     (if k \<in> K then {#} else case map_of al k of None \<Rightarrow> {#} | Some st \<Rightarrow> mset (msgs st)) =
   queued_in K al + (if k \<in> K then {#} else mset (msgs st'))"
  by (induction al) (auto split: option.splits)

lemma queued_in_delete: "queued_in K (AList.delete k al) = queued_in (insert k K) al"
  by (induction al) auto

lemma queued_in_insert: "queued_in (insert k K) al \<subseteq># queued_in K al"
  by (induction al) (auto intro: subset_mset.add_mono subset_mset.order_trans [OF _ mset_subset_eq_add_right])

section \<open>The effect of a handler\<close>

text \<open>
  A handler touches no task but that of its message; it completes that task or takes the
  message out of the machine or back into the queue of a transaction.
\<close>

definition effect :: "message \<Rightarrow> ('o, 'w) storage \<Rightarrow> ('o, 'w) storage \<Rightarrow> bool" where
  "effect m s s' \<longleftrightarrow>
     (\<forall>t. t \<noteq> message_task m \<longrightarrow> tasks s' t = tasks s t) \<and>
     (tasks s (message_task m) \<noteq> None \<longrightarrow> tasks s' (message_task m) \<noteq> None) \<and>
     ex_port s' = ex_port s \<and> cn_port s' = cn_port s \<and> txn_commits s' = txn_commits s \<and>
     next_task s' = next_task s \<and> storage_transform s' = storage_transform s \<and>
     (done_ids s' = done_ids s \<and> (\<forall>K. queued K s' \<subseteq># add_mset m (queued K s)) \<or>
      done_ids s' = done_ids s @ [message_task m] \<and> (\<forall>K. queued K s' \<subseteq># queued K s))"

lemma effect_sound:
  assumes "sound (add_mset m (B + queued K s)) s" "effect m s s'"
  shows "sound (B + queued K s') s'"
proof -
  let ?t = "message_task m" and ?M = "add_mset m (B + queued K s)" and ?M' = "B + queued K s'"
  from assms(1) have live: "tasks s (message_task m') \<noteq> None" if "m' \<in># ?M" for m'
    using that unfolding sound_def by blast
  have frame: "t \<noteq> ?t \<Longrightarrow> tasks s' t = tasks s t" and own: "tasks s' ?t \<noteq> None" for t
    using assms(2) live [of m] by (simp_all add: effect_def)
  consider (kept) "done_ids s' = done_ids s" "queued K s' \<subseteq># add_mset m (queued K s)"
    | (done_) "done_ids s' = done_ids s @ [?t]" "queued K s' \<subseteq># queued K s"
    using assms(2) unfolding effect_def by blast
  then show ?thesis
  proof cases
    case kept
    then have sub: "?M' \<subseteq># ?M" by simp
    show ?thesis
    proof (rule sound_shrinks [OF assms(1)])
      show "image_mset message_task ?M' + mset (done_ids s') \<subseteq># image_mset message_task ?M + mset (done_ids s)"
        unfolding kept(1) by (intro subset_mset.add_right_mono image_mset_subseteq_mono sub)
      show "tasks s' (message_task m') \<noteq> None" if "m' \<in># ?M'" for m'
        using live [OF mset_subset_eqD [OF sub that]] frame [of "message_task m'"] own by metis
    qed
  next
    case done_
    then have sub: "?M' \<subseteq># B + queued K s" by simp
    show ?thesis
    proof (rule sound_shrinks [OF assms(1)])
      show "image_mset message_task ?M' + mset (done_ids s') \<subseteq># image_mset message_task ?M + mset (done_ids s)"
        using subset_mset.add_right_mono [OF image_mset_subseteq_mono [OF sub, of message_task],
            of "mset (done_ids s) + {#?t#}"] done_(1) by simp
      show "tasks s' (message_task m') \<noteq> None" if "m' \<in># ?M'" for m'
      proof -
        have m': "m' \<in># B + queued K s" using sub that by (rule mset_subset_eqD)
        then have "message_task m' \<noteq> ?t" using assms(1) by (intro sound_distinct_tasks [where M = "B + queued K s"]) auto
        then show ?thesis using frame live [of m'] m' by simp
      qed
    qed
  qed
qed

section \<open>The effect of completing a task\<close>

text \<open>How \<^verbatim>\<open>storage_task_fail\<close> leaves the table of transactions: no queue changes.\<close>

definition propagate_error :: "'w env \<Rightarrow> 'o task \<Rightarrow> ('o, 'w) storage \<Rightarrow> (32 word \<times> txn_state) list" where
  "propagate_error E k s =
     (let hash_key = txn_hash_key (host E) (task_txn_id k) in
      if task_txn_id k \<noteq> 0 \<and> task_error k \<noteq> None
      then case map_of (txn_states s) hash_key of None \<Rightarrow> txn_states s
         | Some st \<Rightarrow> AList.update hash_key (st\<lparr>txn_error := task_error k\<rparr>) (txn_states s)
      else txn_states s)"

lemma storage_task_fail_eq:
  "tasks s t = Some k \<Longrightarrow>
   storage_task_fail E t s = Inr (completed_state t False k (s\<lparr>txn_states := propagate_error E k s\<rparr>))"
  by (auto simp: storage_task_fail_def propagate_error_def Let_def storage_task_complete_eq
      completed_state_def split: option.split)

lemma fail_with_eq:
  assumes "tasks s t = Some k"
  shows "fail_with E e t s = Inr (completed_state t False (task_set_error e k)
    (s\<lparr>txn_states := propagate_error E (task_set_error e k) s\<rparr>))"
  using assms
  by (simp add: fail_with_def upd_task_Some storage_task_fail_eq [where k = "task_set_error e k"]
      completed_state_def propagate_error_def Let_def split: option.split waiter.split)

lemma queued_propagate [simp]: "queued_in K (propagate_error E k s) = queued_in K (txn_states s)"
proof -
  let ?hk = "txn_hash_key (host E) (task_txn_id k)"
  have "queued_in K (AList.update ?hk (st\<lparr>txn_error := e\<rparr>) (txn_states s)) = queued_in K (txn_states s)"
    if "map_of (txn_states s) ?hk = Some st" for st e
    using queued_in_update [of K ?hk "st\<lparr>txn_error := e\<rparr>" "txn_states s"] that by (simp split: if_splits)
  then show ?thesis
    by (auto simp: propagate_error_def Let_def split: option.split)
qed

lemma done_completed [simp]: "done_ids (completed_state t ok k s) = done_ids s @ [t]"
  by (simp add: done_ids_def completed_state_def split: waiter.split)

lemma queued_completed [simp]: "queued K (completed_state t ok k s) = queued K s"
  by (simp add: queued_def)

text \<open>The states a handler may leave when it completes the task of its message.\<close>

lemma effect_completed:
  assumes "\<And>t. t \<noteq> message_task m \<Longrightarrow> tasks s' t = tasks s t"
    and "ex_port s' = ex_port s" "cn_port s' = cn_port s" "txn_commits s' = txn_commits s"
    and "next_task s' = next_task s" "storage_transform s' = storage_transform s"
    and "completions s' = completions s" "\<And>K. queued K s' \<subseteq># queued K s"
  shows "effect m s (completed_state (message_task m) ok k s')"
  using assms by (simp add: effect_def done_ids_def completed_state_def queued_def split: waiter.split)

lemma effect_fail_with:
  assumes "fail_with E e (message_task m) s1 = Inr s'" "tasks s1 (message_task m) \<noteq> None"
    and "\<And>t. t \<noteq> message_task m \<Longrightarrow> tasks s1 t = tasks s t"
    and "ex_port s1 = ex_port s" "cn_port s1 = cn_port s" "txn_commits s1 = txn_commits s"
    and "next_task s1 = next_task s" "storage_transform s1 = storage_transform s"
    and "completions s1 = completions s" "\<And>K. queued K s1 \<subseteq># queued K s"
  shows "effect m s s'"
proof -
  obtain k where k: "tasks s1 (message_task m) = Some k" using assms(2) by auto
  show ?thesis
    using assms(1,3-) unfolding fail_with_eq [OF k]
    by (auto intro!: effect_completed simp: queued_def)
qed


section \<open>The effect of each handler\<close>

lemma completed_of_succeed:
  assumes "storage_task_succeed t s = Inr s'"
  obtains k where "tasks s t = Some k" "s' = completed_state t True k s"
proof -
  obtain k where k: "tasks s t = Some k"
    using assms by (cases "tasks s t")
      (auto simp: storage_task_succeed_def storage_task_complete_def upd_task_def get_task_def)
  then show ?thesis using that assms by (simp add: storage_task_succeed_eq)
qed

lemma effect_succeed:
  assumes "storage_task_succeed (message_task m) s1 = Inr s'"
    and "\<And>t. t \<noteq> message_task m \<Longrightarrow> tasks s1 t = tasks s t"
    and "ex_port s1 = ex_port s" "cn_port s1 = cn_port s" "txn_commits s1 = txn_commits s"
    and "next_task s1 = next_task s" "storage_transform s1 = storage_transform s"
    and "completions s1 = completions s" "\<And>K. queued K s1 \<subseteq># queued K s"
  shows "effect m s s'"
  using assms(1)
proof (rule completed_of_succeed)
  fix k assume "s' = completed_state (message_task m) True k s1"
  then show ?thesis using assms(2-) by (simp add: effect_completed)
qed

lemma upd_task_Inr:
  "upd_task t f s = Inr s' \<longleftrightarrow> (\<exists>k. tasks s t = Some k \<and> s' = s\<lparr>tasks := (tasks s)(t \<mapsto> f k)\<rparr>)"
  by (auto simp: upd_task_def get_task_def split: option.split)

lemma get_task_Inr: "get_task s t = Inr k \<longleftrightarrow> tasks s t = Some k"
  by (simp add: get_task_def split: option.split)

lemmas handler_simps = Let_def c_bind_eq_Inr upd_task_Inr get_task_Inr

lemma effect_handle_close:
  assumes "handle_close E m s = Inr s'" "what m = MESSAGE_CLOSE" "tasks s (message_task m) = Some k"
  shows "effect m s s'"
  using assms
  by (auto simp: handle_close_def handler_simps queued_def split: option.splits prod.splits if_splits
      elim!: effect_fail_with effect_succeed)

text \<open>The state \<^verbatim>\<open>handle_open\<close> calls \<^verbatim>\<open>tdb_open\<close> in, and its flags.\<close>

definition opening_state :: "'w env \<Rightarrow> bytes \<Rightarrow> ('o, 'w) storage \<Rightarrow> ('o, 'w) storage" where
  "opening_state E path s =
     (let dir = g_path_get_dirname E path in
      s\<lparr>world := (if is_dir E dir (world s) then world s else g_mkdir_with_parents E dir (world s)),
        txn := 0, txn_states := []\<rparr>)"

definition opening_flags :: "'w env \<Rightarrow> bytes \<Rightarrow> 'w \<Rightarrow> gint \<times> gint" where
  "opening_flags E path w =
     ((if host E = Little then tdb_convert E else 0) OR tdb_nolock E,
      (if is_regular E path w then stack_word E else o_creat E) OR o_rdwr E)"

lemma handle_open_eq:
  assumes "what m = MESSAGE_OPEN" "tasks s (message_task m) = Some task" "db_ctx s = None"
    and "c_text (task_key task) = Inr path" "txn_commits s = []"
  shows "handle_open E m s =
    (let s1 = opening_state E path s;
         (tdb_flags, o_flags) = opening_flags E path (world s1);
         (ctx, w) = tdb_open E path tdb_flags o_flags (world s1) in
     case ctx of
       None \<Rightarrow> fail_with E STORAGE_ERROR_DB (message_task m) (s1\<lparr>world := w\<rparr>)
     | Some ctx \<Rightarrow> Inr (completed_state (message_task m) True task (s1\<lparr>world := w, db_ctx := Some ctx\<rparr>)))"
proof -
  let ?s1 = "opening_state E path s"
  obtain ctx w where o: "tdb_open E path (fst (opening_flags E path (world ?s1)))
      (snd (opening_flags E path (world ?s1))) (world ?s1) = (ctx, w)"
    by (metis prod.collapse)
  have "storage_task_succeed (message_task m)
      (?s1\<lparr>world := w, db_ctx := Some c, tasks := (tasks s)(message_task m \<mapsto> task\<lparr>task_success := True\<rparr>)\<rparr>) =
    Inr (completed_state (message_task m) True task (?s1\<lparr>world := w, db_ctx := Some c\<rparr>))" for c
    by (simp add: storage_task_succeed_eq [where k = "task\<lparr>task_success := True\<rparr>"] completed_state_def
        opening_state_def Let_def split: waiter.split)
  then show ?thesis
    using assms o
    by (auto simp: handle_open_def Let_def opening_state_def opening_flags_def upd_task_Some split: option.split)
qed

lemma effect_handle_open:
  assumes "handle_open E m s = Inr s'" "what m = MESSAGE_OPEN"
  shows "effect m s s'"
proof -
  obtain task where t: "tasks s (message_task m) = Some task"
    using assms by (auto simp: handle_open_def handler_simps)
  show ?thesis
  proof (cases "db_ctx s")
    case (Some ctx)
    then show ?thesis using assms t
      by (auto simp: handle_open_def handler_simps elim!: effect_fail_with)
  next
    case None
    then obtain path where p: "c_text (task_key task) = Inr path" and c: "txn_commits s = []"
      using assms t by (auto simp: handle_open_def handler_simps split: if_splits)
    let ?s1 = "opening_state E path s"
    have fr: "tasks ?s1 = tasks s" "ex_port ?s1 = ex_port s" "cn_port ?s1 = cn_port s"
      "txn_commits ?s1 = txn_commits s" "next_task ?s1 = next_task s"
      "storage_transform ?s1 = storage_transform s" "completions ?s1 = completions s" "txn_states ?s1 = []"
      by (simp_all add: opening_state_def Let_def)
    show ?thesis
      using assms(1) unfolding handle_open_eq [OF assms(2) t None p c]
      by (auto simp: Let_def t fr queued_def split: option.splits prod.splits
          elim!: effect_fail_with intro!: effect_completed)
  qed
qed

lemma handle_get_outcome:
  assumes "handle_get E m s = Inr s'" "what m = MESSAGE_GET" "tasks s (message_task m) = Some k"
  shows "(\<exists>e. fail_with E e (message_task m) s = Inr s') \<or>
    (\<exists>k'. task_waiter k' = task_waiter k \<and>
      storage_task_succeed (message_task m) (s\<lparr>tasks := (tasks s)(message_task m \<mapsto> k')\<rparr>) = Inr s')"
    (is "?out")
proof (cases "db_ctx s")
  case None
  then show ?thesis using assms by (auto simp: handle_get_def)
next
  case (Some ctx)
  let ?t = "message_task m"
  obtain key where key: "read_mem (task_key k) (unat (task_key_length k)) = Inr key"
    using assms Some by (auto simp: handle_get_def handler_simps)
  show ?thesis
  proof (cases "tdb_fetch E ctx key (world s)")
    case None
    then show ?thesis using assms Some key
      by (auto simp: handle_get_def handler_simps)
  next
    case (Some stored)
    show ?thesis
    proof (cases "storage_transform s")
      case None
      then show ?thesis using assms \<open>db_ctx s = Some ctx\<close> key Some
        by (auto simp: handle_get_def Let_def upd_task_Some)
    next
      case (Some T)
      then obtain r where r: "catalina_transform_read T (Some stored) (of_nat (length stored)) = Inr r"
        using assms \<open>db_ctx s = Some ctx\<close> key \<open>tdb_fetch E ctx key (world s) = Some stored\<close>
        by (auto simp: handle_get_def handler_simps)
      show ?thesis
        using assms \<open>db_ctx s = Some ctx\<close> key \<open>tdb_fetch E ctx key (world s) = Some stored\<close> Some r
        by (cases r) (auto simp: handle_get_def Let_def upd_task_Some split: if_splits)
    qed
  qed
qed

lemma effect_handle_get:
  assumes "handle_get E m s = Inr s'" "what m = MESSAGE_GET" "tasks s (message_task m) = Some k"
  shows "effect m s s'"
  using handle_get_outcome [OF assms] assms(3)
  by (auto simp: queued_def elim!: effect_fail_with effect_succeed)

lemma effect_handle_count_keys:
  assumes "handle_count_keys E m s = Inr s'" "what m = MESSAGE_COUNT_KEYS"
  shows "effect m s s'"
  using assms
  by (auto simp: handle_count_keys_def handler_simps queued_def split: option.splits
      elim!: effect_succeed)

lemma effect_fail:
  assumes "storage_task_fail E (message_task m) s = Inr s'"
  shows "effect m s s'"
proof -
  obtain k where k: "tasks s (message_task m) = Some k"
    using assms by (cases "tasks s (message_task m)") (auto simp: storage_task_fail_def get_task_def)
  show ?thesis
    using assms unfolding storage_task_fail_eq [OF k] by (auto intro!: effect_completed simp: queued_def)
qed

lemma queued_in_update_empty: "queued_in K (AList.update k (txn_state_new i) al) \<subseteq># queued_in K al"
proof -
  have "queued_in K (AList.update k (txn_state_new i) al) +
     (if k \<in> K then {#} else case map_of al k of None \<Rightarrow> {#} | Some st \<Rightarrow> mset (msgs st)) = queued_in K al"
    using queued_in_update [of K k "txn_state_new i" al] by (simp add: txn_state_new_def)
  then show ?thesis by (metis mset_subset_eq_add_left)
qed

lemma effect_handle_txn_begin:
  assumes "handle_txn_begin E m s = Inr s'" "what m = MESSAGE_TXN_BEGIN"
  shows "effect m s s'"
  using assms
  by (auto simp: handle_txn_begin_def handler_simps queued_def queued_in_update_empty split: if_splits
      elim!: effect_succeed intro: effect_fail)

lemma effect_handle_txn_cancel:
  assumes "handle_txn_cancel E m s = Inr s'" "what m = MESSAGE_TXN_CANCEL"
  shows "effect m s s'"
  using assms
  by (auto simp: handle_txn_cancel_def handler_simps queued_def queued_in_delete queued_in_insert split: if_splits
      elim!: effect_succeed intro: effect_fail)

lemma effect_queue:
  assumes "map_of (txn_states s) k = Some st"
  shows "effect m s (s\<lparr>txn_states := AList.update k (st\<lparr>msgs := m # msgs st\<rparr>) (txn_states s)\<rparr>)"
proof -
  have "queued_in K (AList.update k (st\<lparr>msgs := m # msgs st\<rparr>) (txn_states s)) \<subseteq># add_mset m (queued_in K (txn_states s))" for K
    using queued_in_update [of K k "st\<lparr>msgs := m # msgs st\<rparr>" "txn_states s"] assms
    by (simp split: if_splits)
  then show ?thesis by (simp add: effect_def queued_def done_ids_def)
qed

lemma effect_same: "effect m s s"
  by (simp add: effect_def)

text \<open>The three ways through \<^verbatim>\<open>handle_set\<close> on an open storage.\<close>

definition set_goes_to_queue :: "gulong \<Rightarrow> ('o, 'w) storage \<Rightarrow> bool" where
  "set_goes_to_queue txn_id s \<longleftrightarrow> txn_id \<noteq> 0 \<and> txn s \<noteq> txn_id"

definition set_is_dropped :: "gulong \<Rightarrow> ('o, 'w) storage \<Rightarrow> bool" where
  "set_is_dropped txn_id s \<longleftrightarrow> txn_id = 0 \<and> txn s \<noteq> 0"

definition store_now :: "'w env \<Rightarrow> nat \<Rightarrow> nat \<Rightarrow> 'o task \<Rightarrow> ('o, 'w) storage \<Rightarrow> ('o, 'w) storage result" where
  "store_now E ctx t task s =
     c_bind (case storage_transform s of
        None \<Rightarrow> Inr (Transformed None 0)
      | Some transform \<Rightarrow> catalina_transform_write transform (task_data task) (task_data_length task)) (\<lambda>r.
     case r of
       Transform_Failed e \<Rightarrow> fail_with E e t s
     | Transformed buffer buffer_length \<Rightarrow>
         c_bind (read_mem (task_key task) (unat (task_key_length task))) (\<lambda>db_key.
         c_bind (read_mem (if buffer \<noteq> None then buffer else task_data task)
             (unat (if buffer \<noteq> None then buffer_length else task_data_length task))) (\<lambda>dbuf.
         let (ret, w) = tdb_store E ctx db_key dbuf (tdb_replace E) (world s);
             s = s\<lparr>world := w\<rparr> in
         if ret \<noteq> 0 then fail_with E STORAGE_ERROR_NO_SUCH_KEY t s else storage_task_succeed t s)))"

lemma handle_set_cases:
  assumes "what m = MESSAGE_SET" "db_ctx s = Some ctx" "tasks s (message_task m) = Some k"
  shows "handle_set E m s =
    (if set_goes_to_queue (task_txn_id k) s
     then case map_of (txn_states s) (txn_hash_key (host E) (task_txn_id k)) of
         None \<Rightarrow> fail_with E STORAGE_ERROR_NO_SUCH_TXN (message_task m) s
       | Some st \<Rightarrow> Inr (s\<lparr>txn_states := AList.update (txn_hash_key (host E) (task_txn_id k))
           (st\<lparr>msgs := m # msgs st\<rparr>) (txn_states s)\<rparr>)
     else if set_is_dropped (task_txn_id k) s then Inr s
     else store_now E ctx (message_task m) k s)"
  using assms
  by (auto simp: handle_set_def Let_def set_goes_to_queue_def set_is_dropped_def store_now_def)

lemma store_now_outcome:
  assumes "store_now E ctx t k s = Inr s'"
  shows "\<exists>w. (\<exists>e. fail_with E e t (s\<lparr>world := w\<rparr>) = Inr s') \<or> storage_task_succeed t (s\<lparr>world := w\<rparr>) = Inr s'"
proof -
  obtain r where r: "(case storage_transform s of None \<Rightarrow> Inr (Transformed None 0)
      | Some transform \<Rightarrow> catalina_transform_write transform (task_data k) (task_data_length k)) = Inr r"
    using assms by (auto simp: store_now_def c_bind_eq_Inr)
  show ?thesis
  proof (cases r)
    case (Transform_Failed e)
    then have "fail_with E e t (s\<lparr>world := world s\<rparr>) = Inr s'" using assms r by (simp add: store_now_def)
    then show ?thesis by blast
  next
    case (Transformed buffer len)
    obtain db_key dbuf where
      "read_mem (task_key k) (unat (task_key_length k)) = Inr db_key"
      "read_mem (if buffer \<noteq> None then buffer else task_data k)
         (unat (if buffer \<noteq> None then len else task_data_length k)) = Inr dbuf"
      using assms r Transformed by (auto simp: store_now_def c_bind_eq_Inr)
    moreover obtain ret w where "tdb_store E ctx db_key dbuf (tdb_replace E) (world s) = (ret, w)"
      by (metis prod.collapse)
    ultimately have "(if ret \<noteq> 0 then fail_with E STORAGE_ERROR_NO_SUCH_KEY t (s\<lparr>world := w\<rparr>)
        else storage_task_succeed t (s\<lparr>world := w\<rparr>)) = Inr s'"
      using assms r Transformed by (simp add: store_now_def Let_def)
    then show ?thesis by (auto split: if_splits)
  qed
qed

lemma effect_store_now:
  assumes "store_now E ctx (message_task m) k s = Inr s'" "tasks s (message_task m) = Some k"
  shows "effect m s s'"
  using store_now_outcome [OF assms(1)] assms(2)
  by (auto simp: queued_def elim!: effect_fail_with effect_succeed)

lemma effect_handle_set:
  assumes "handle_set E m s = Inr s'" "what m = MESSAGE_SET" "tasks s (message_task m) = Some k"
  shows "effect m s s'"
proof (cases "db_ctx s")
  case None
  then show ?thesis using assms by (auto simp: handle_set_def queued_def elim!: effect_fail_with)
next
  case (Some ctx)
  then show ?thesis
    using assms(1) unfolding handle_set_cases [OF assms(2) Some assms(3)]
    by (auto simp: queued_def assms(3) split: option.splits if_splits intro: effect_queue effect_same
        elim!: effect_fail_with effect_store_now)
qed


section \<open>The invariant\<close>

text \<open>Faults that are not a dangling task or a misread structure.\<close>

definition benign :: "fault \<Rightarrow> bool" where
  "benign e \<longleftrightarrow> e \<noteq> Use_After_Free \<and> e \<noteq> Type_Confusion"

definition result_ok :: "('a \<Rightarrow> bool) \<Rightarrow> 'a result \<Rightarrow> bool" where
  "result_ok P r \<longleftrightarrow> (case r of Inl e \<Rightarrow> benign e | Inr x \<Rightarrow> P x)"

lemma result_ok_simps [simp]: "result_ok P (Inl e) = benign e" "result_ok P (Inr x) = P x"
  by (simp_all add: result_ok_def)

lemma result_ok_bind:
  "result_ok P r \<Longrightarrow> (\<And>x. P x \<Longrightarrow> result_ok Q (f x)) \<Longrightarrow> result_ok Q (c_bind r f)"
  by (cases r) simp_all

lemma result_okI:
  "(\<And>e. r = Inl e \<Longrightarrow> benign e) \<Longrightarrow> (\<And>x. r = Inr x \<Longrightarrow> P x) \<Longrightarrow> result_ok P r"
  by (cases r) simp_all

definition sets_only :: "('o, 'w) storage \<Rightarrow> bool" where
  "sets_only s \<longleftrightarrow> (\<forall>(k, st)\<in>set (txn_states s). \<forall>m\<in>set (msgs st). what m = MESSAGE_SET)"

definition commits_only :: "('o, 'w) storage \<Rightarrow> bool" where
  "commits_only s \<longleftrightarrow> (\<forall>m\<in>set (txn_commits s). what m = MESSAGE_TXN_COMMIT)"

text \<open>No one asks to commit transaction 0, the number that stands for no transaction.\<close>

definition commits_nonzero :: "message multiset \<Rightarrow> ('o, 'w) storage \<Rightarrow> bool" where
  "commits_nonzero M s \<longleftrightarrow> (\<forall>m\<in>#M. what m = MESSAGE_TXN_COMMIT \<longrightarrow>
     (\<exists>k. tasks s (message_task m) = Some k \<and> task_txn_id k \<noteq> 0))"

definition fresh_tasks :: "('o, 'w) storage \<Rightarrow> bool" where
  "fresh_tasks s \<longleftrightarrow> (\<forall>t\<ge>next_task s. tasks s t = None) \<and> (\<forall>t\<in>set (done_ids s). t < next_task s)"

definition transform_honest :: "('o, 'w) storage \<Rightarrow> bool" where
  "transform_honest s \<longleftrightarrow> (\<forall>T p n e. storage_transform s = Some T \<longrightarrow>
     catalina_transform_read T p n = Inl e \<or> catalina_transform_write T p n = Inl e \<longrightarrow> benign e)"

definition closed_is_idle :: "('o, 'w) storage \<Rightarrow> bool" where
  "closed_is_idle s \<longleftrightarrow> (db_ctx s = None \<longrightarrow> txn s = 0 \<and> txn_states s = [] \<and> txn_commits s = [])"

definition parts :: "32 word set \<Rightarrow> ('o, 'w) storage \<Rightarrow> message multiset" where
  "parts K s = mset (ex_port s) + mset (cn_port s) + mset (txn_commits s) + queued K s"

text \<open>
  The invariant while the messages \<open>M\<close> are being handled and the transactions in \<open>K\<close> are
  being committed.
\<close>

definition ok :: "32 word set \<Rightarrow> message multiset \<Rightarrow> ('o, 'w) storage \<Rightarrow> bool" where
  "ok K M s \<longleftrightarrow> sound (M + parts K s) s \<and> commits_nonzero (M + parts K s) s \<and> fresh_tasks s \<and>
     sets_only s \<and> commits_only s \<and> closed_is_idle s \<and> transform_honest s"

text \<open>And between two deliveries: commits wait only behind a current transaction.\<close>

definition machine_ok :: "('o, 'w) storage \<Rightarrow> bool" where
  "machine_ok s \<longleftrightarrow> ok {} {#} s \<and> (txn s = 0 \<longrightarrow> txn_commits s = [])"

lemma ok_live: "ok K (add_mset m M) s \<Longrightarrow> \<exists>k. tasks s (message_task m) = Some k"
  by (auto simp: ok_def sound_def)

lemma ok_mono: "ok K M s \<Longrightarrow> M' \<subseteq># M \<Longrightarrow> ok K M' s"
  unfolding ok_def
  by (auto intro: sound_mono simp: commits_nonzero_def dest: mset_subset_eqD)

lemma effect_fresh:
  assumes "fresh_tasks s" "effect m s s'" "tasks s (message_task m) \<noteq> None"
  shows "fresh_tasks s'"
proof -
  have "message_task m < next_task s" using assms(1,3) by (meson fresh_tasks_def not_less)
  then show ?thesis using assms(1,2) by (auto simp: fresh_tasks_def effect_def)
qed

text \<open>Handlers other than the commit, from their effect and what they do to the control state.\<close>

lemma ok_after:
  assumes ok: "ok K (add_mset m M) s" and eff: "effect m s s'"
    and m: "what m \<noteq> MESSAGE_TXN_COMMIT \<or> done_ids s' \<noteq> done_ids s" and ctl: "sets_only s'" "closed_is_idle s'"
  shows "ok K M s'"
proof -
  let ?B = "M + mset (ex_port s) + mset (cn_port s) + mset (txn_commits s)"
  have p: "add_mset m M + parts K s = add_mset m (?B + queued K s)" "M + parts K s' = ?B + queued K s'"
    using eff by (simp_all add: parts_def effect_def)
  from ok have snd: "sound (add_mset m (?B + queued K s)) s"
    and nz: "commits_nonzero (add_mset m (?B + queued K s)) s"
    unfolding ok_def p by blast+
  have "commits_nonzero (?B + queued K s') s'"
    unfolding commits_nonzero_def
  proof (intro ballI impI)
    fix m' assume m': "m' \<in># ?B + queued K s'" "what m' = MESSAGE_TXN_COMMIT"
    have "queued K s' \<subseteq># queued K s \<or> done_ids s' = done_ids s \<and> queued K s' \<subseteq># add_mset m (queued K s)"
      using eff unfolding effect_def by blast
    then have in_: "m' \<in># ?B + queued K s"
      using m m' by (auto dest: mset_subset_eqD)
    then have "message_task m' \<noteq> message_task m" using snd by (rule sound_distinct_tasks [rotated])
    then have "tasks s' (message_task m') = tasks s (message_task m')" using eff by (simp add: effect_def)
    moreover have "\<exists>k. tasks s (message_task m') = Some k \<and> task_txn_id k \<noteq> 0"
    proof -
      have "m' \<in># add_mset m (?B + queued K s)" unfolding set_mset_add_mset_insert using in_ by (rule insertI2)
      then show ?thesis using nz m'(2) unfolding commits_nonzero_def by blast
    qed
    ultimately show "\<exists>k. tasks s' (message_task m') = Some k \<and> task_txn_id k \<noteq> 0" by simp
  qed
  moreover have "fresh_tasks s'"
    using ok ok_live [OF ok] by (intro effect_fresh [OF _ eff]) (simp_all add: ok_def)
  moreover have "commits_only s'"
  proof -
    have "commits_only s" using ok by (simp add: ok_def)
    then show ?thesis using eff by (simp add: effect_def commits_only_def)
  qed
  moreover have "transform_honest s'"
  proof -
    have "transform_honest s" using ok by (simp add: ok_def)
    then show ?thesis using eff by (simp add: effect_def transform_honest_def)
  qed
  ultimately show ?thesis
    using effect_sound [OF snd eff] ctl unfolding ok_def p by blast
qed

end
