(* ===== verification/Storage_Safety.thy ===== *)
theory Storage_Safety
  imports Storage_Machine
begin

text \<open>
  The invariant of the storage machine is kept by every handler, by committing a chain of
  transactions, and by every request of the application; so in every state that can be
  reached no message leads to a freed task and no task is completed twice.
\<close>

section \<open>Faults of the handlers\<close>

lemma c_bind_eq_Inl: "c_bind m f = Inl e \<longleftrightarrow> m = Inl e \<or> (\<exists>x. m = Inr x \<and> f x = Inl e)"
  by (cases m) auto

lemma benign_simps [simp]:
  "benign Out_Of_Bounds" "benign Null_Pointer" "benign Process_Abort" "benign Stack_Exhausted"
  "benign Divergence" "\<not> benign Use_After_Free" "\<not> benign Type_Confusion"
  by (simp_all add: benign_def)

lemma benign_read_mem: "read_mem p n = Inl e \<Longrightarrow> benign e"
  by (auto simp: read_mem_def load_bytes_def split: option.splits if_splits)

lemma benign_c_string: "c_string b = Inl e \<Longrightarrow> benign e"
  by (induction b arbitrary: e) (auto simp: c_bind_eq_Inl split: if_splits)

lemma benign_c_text: "c_text p = Inl e \<Longrightarrow> benign e"
  by (auto simp: c_text_def benign_c_string split: option.splits)

lemma get_task_Inl: "get_task s t = Inl e \<longleftrightarrow> tasks s t = None \<and> e = Use_After_Free"
  by (auto simp: get_task_def split: option.split)

lemma upd_task_Inl: "upd_task t f s = Inl e \<longleftrightarrow> tasks s t = None \<and> e = Use_After_Free"
  by (auto simp: upd_task_def c_bind_eq_Inl get_task_Inl)

lemma succeed_Inl: "tasks s t \<noteq> None \<Longrightarrow> storage_task_succeed t s \<noteq> Inl e"
  by (auto simp: storage_task_succeed_eq)

lemma fail_Inl: "tasks s t \<noteq> None \<Longrightarrow> storage_task_fail E t s \<noteq> Inl e"
  by (auto simp: storage_task_fail_eq)

lemma fail_with_Inl: "tasks s t \<noteq> None \<Longrightarrow> fail_with E er t s \<noteq> Inl e"
  by (auto simp: fail_with_eq)

lemmas fault_simps = Let_def c_bind_eq_Inl c_bind_eq_Inr get_task_Inl get_task_Inr upd_task_Inl upd_task_Inr
  succeed_Inl fail_Inl fail_with_Inl

lemma benign_store_now:
  assumes "store_now E ctx t k s = Inl e" "tasks s t = Some k" "transform_honest s"
  shows "benign e"
proof -
  let ?w = "case storage_transform s of None \<Rightarrow> Inr (Transformed None 0)
    | Some transform \<Rightarrow> catalina_transform_write transform (task_data k) (task_data_length k)"
  show ?thesis
  proof (cases ?w)
    case (Inl e')
    then show ?thesis using assms by (auto simp: store_now_def transform_honest_def split: option.splits)
  next
    case (Inr r)
    then show ?thesis
      using assms by (cases r)
        (auto simp: store_now_def fault_simps case_prod_beta dest: benign_read_mem split: if_splits)
  qed
qed

lemma benign_handle_set:
  assumes "handle_set E m s = Inl e" "what m = MESSAGE_SET" "tasks s (message_task m) = Some k" "transform_honest s"
  shows "benign e"
proof (cases "db_ctx s")
  case None
  then show ?thesis using assms by (auto simp: handle_set_def fault_simps)
next
  case (Some ctx)
  then show ?thesis
    using assms(1,3,4) unfolding handle_set_cases [OF assms(2) Some assms(3)]
    by (auto simp: fault_simps split: option.splits if_splits intro: benign_store_now)
qed

lemma benign_handle_get:
  assumes "handle_get E m s = Inl e" "what m = MESSAGE_GET" "tasks s (message_task m) = Some k" "transform_honest s"
  shows "benign e"
proof (cases "db_ctx s")
  case None
  then show ?thesis using assms by (auto simp: handle_get_def fault_simps)
next
  case (Some ctx)
  note open_ = this
  show ?thesis
  proof (cases "read_mem (task_key k) (unat (task_key_length k))")
    case (Inl e')
    then show ?thesis using assms open_ by (auto simp: handle_get_def dest: benign_read_mem)
  next
    case (Inr key)
    show ?thesis
    proof (cases "tdb_fetch E ctx key (world s)")
      case None
      then show ?thesis using assms open_ Inr by (auto simp: handle_get_def fail_with_Inl)
    next
      case (Some stored)
      note found = this
      show ?thesis
      proof (cases "storage_transform s")
        case None
        then show ?thesis using assms open_ Inr found by (auto simp: handle_get_def fault_simps)
      next
        case (Some T)
        then show ?thesis using assms open_ Inr found
          by (cases "catalina_transform_read T (Some stored) (of_nat (length stored))")
            (auto simp: handle_get_def fault_simps transform_honest_def split: transform_out.splits if_splits)
      qed
    qed
  qed
qed

lemma benign_handle_count_keys:
  assumes "handle_count_keys E m s = Inl e" "tasks s (message_task m) = Some k"
  shows "benign e"
  using assms by (auto simp: handle_count_keys_def fault_simps split: option.splits if_splits)

lemma benign_handle_close:
  assumes "handle_close E m s = Inl e" "tasks s (message_task m) = Some k"
  shows "benign e"
  using assms by (auto simp: handle_close_def fault_simps split: option.splits if_splits prod.splits)

lemma benign_handle_txn_begin:
  assumes "handle_txn_begin E m s = Inl e" "tasks s (message_task m) = Some k"
  shows "benign e"
  using assms by (auto simp: handle_txn_begin_def fault_simps split: if_splits)

lemma benign_handle_txn_cancel:
  assumes "handle_txn_cancel E m s = Inl e" "tasks s (message_task m) = Some k"
  shows "benign e"
  using assms by (auto simp: handle_txn_cancel_def fault_simps split: if_splits)

lemma benign_handle_open:
  assumes "handle_open E m s = Inl e" "what m = MESSAGE_OPEN" "tasks s (message_task m) = Some k" "closed_is_idle s"
  shows "benign e"
proof (cases "db_ctx s")
  case (Some ctx)
  then show ?thesis using assms by (auto simp: handle_open_def fault_simps)
next
  case None
  then have c: "txn_commits s = []" using assms(4) by (simp add: closed_is_idle_def)
  show ?thesis
  proof (cases "c_text (task_key k)")
    case (Inl e')
    then show ?thesis using assms None by (auto simp: handle_open_def dest: benign_c_text)
  next
    case (Inr path)
    have "tasks (opening_state E path s) (message_task m) = Some k"
      using assms(3) by (simp add: opening_state_def Let_def)
    then show ?thesis
      using assms(1) unfolding handle_open_eq [OF assms(2,3) None Inr c]
      by (auto simp: Let_def fail_with_Inl split: prod.splits option.splits)
  qed
qed

section \<open>The control state after each handler\<close>

lemma in_update: "x \<in> set (AList.update k st al) \<Longrightarrow> x \<in> set al \<or> x = (k, st)"
  by (induction al) (auto split: if_splits)

lemma in_delete: "x \<in> set (AList.delete k al) \<Longrightarrow> x \<in> set al"
  by (induction al) (auto split: if_splits)

definition only_sets :: "(32 word \<times> txn_state) list \<Rightarrow> bool" where
  "only_sets al \<longleftrightarrow> (\<forall>(k, st)\<in>set al. \<forall>m\<in>set (msgs st). what m = MESSAGE_SET)"

lemma sets_only_iff: "sets_only s \<longleftrightarrow> only_sets (txn_states s)"
  by (simp add: sets_only_def only_sets_def)

lemma only_sets_update:
  "only_sets al \<Longrightarrow> (\<And>m. m \<in> set (msgs st) \<Longrightarrow> what m = MESSAGE_SET) \<Longrightarrow> only_sets (AList.update k st al)"
  by (auto simp: only_sets_def dest!: in_update)

lemma only_sets_delete: "only_sets al \<Longrightarrow> only_sets (AList.delete k al)"
  by (auto simp: only_sets_def dest!: in_delete)

lemma only_sets_msgs: "only_sets al \<Longrightarrow> map_of al k = Some st \<Longrightarrow> m \<in> set (msgs st) \<Longrightarrow> what m = MESSAGE_SET"
  by (fastforce simp: only_sets_def dest: map_of_SomeD)

lemma only_sets_propagate: "sets_only s \<Longrightarrow> only_sets (propagate_error E k s)"
  by (auto simp: propagate_error_def Let_def sets_only_iff split: option.split
      intro!: only_sets_update dest: only_sets_msgs)

lemma propagate_Nil [simp]: "txn_states s = [] \<Longrightarrow> propagate_error E k s = []"
  by (simp add: propagate_error_def Let_def)

lemma propagate_Nil_iff [simp]: "propagate_error E k s = [] \<longleftrightarrow> txn_states s = []"
  by (auto simp: propagate_error_def Let_def split: option.split)

text \<open>The control state: what a handler may change besides its task and the queues.\<close>

definition control_ok :: "('o, 'w) storage \<Rightarrow> bool" where
  "control_ok s \<longleftrightarrow> sets_only s \<and> closed_is_idle s"

lemma control_completed [simp]: "control_ok (completed_state t b k s) = control_ok s"
  by (simp add: control_ok_def sets_only_iff closed_is_idle_def)

lemma control_world [simp]: "control_ok (s\<lparr>world := w\<rparr>) = control_ok s"
  "control_ok (s\<lparr>tasks := f\<rparr>) = control_ok s"
  by (simp_all add: control_ok_def sets_only_iff closed_is_idle_def)

lemma control_succeed: "storage_task_succeed t s = Inr s' \<Longrightarrow> control_ok s \<Longrightarrow> control_ok s'"
  by (erule completed_of_succeed) simp

lemma control_fail:
  assumes "storage_task_fail E t s = Inr s'" "control_ok s"
  shows "control_ok s'"
proof -
  obtain k where k: "tasks s t = Some k"
    using assms by (cases "tasks s t") (auto simp: storage_task_fail_def get_task_def)
  then show ?thesis using assms
    by (auto simp: storage_task_fail_eq control_ok_def sets_only_iff closed_is_idle_def only_sets_propagate)
qed

lemma control_fail_with:
  assumes "fail_with E e t s = Inr s'" "control_ok s"
  shows "control_ok s'"
  using assms by (auto simp: fail_with_def fault_simps intro: control_fail)

lemma control_handle_open:
  assumes "handle_open E m s = Inr s'" "what m = MESSAGE_OPEN" "control_ok s"
  shows "control_ok s'"
proof -
  obtain task where t: "tasks s (message_task m) = Some task"
    using assms by (auto simp: handle_open_def handler_simps)
  show ?thesis
  proof (cases "db_ctx s")
    case (Some ctx)
    then show ?thesis using assms t by (auto simp: handle_open_def handler_simps intro: control_fail_with)
  next
    case None
    then obtain path where p: "c_text (task_key task) = Inr path" and c: "txn_commits s = []"
      using assms t by (auto simp: handle_open_def handler_simps split: if_splits)
    let ?s1 = "opening_state E path s"
    have "control_ok (?s1\<lparr>world := w\<rparr>)" "control_ok (?s1\<lparr>world := w, db_ctx := Some x\<rparr>)" for w x
      using c by (simp_all add: control_ok_def sets_only_def closed_is_idle_def opening_state_def Let_def)
    then show ?thesis
      using assms(1) unfolding handle_open_eq [OF assms(2) t None p c]
      by (auto simp: Let_def split: option.splits prod.splits intro: control_fail_with)
  qed
qed

lemma control_handle_close:
  assumes "handle_close E m s = Inr s'" "what m = MESSAGE_CLOSE" "control_ok s" "txn s = 0 \<Longrightarrow> txn_commits s = []"
  shows "control_ok s'"
proof -
  have "control_ok (s\<lparr>world := w, db_ctx := None, tasks := f\<rparr>)" if "txn s = 0" "txn_states s = []" for w f
    using that assms(3,4) by (simp add: control_ok_def sets_only_def closed_is_idle_def)
  then show ?thesis using assms
    by (auto simp: handle_close_def handler_simps split: option.splits prod.splits if_splits
        intro: control_fail_with control_succeed)
qed


lemma control_handle_get:
  assumes "handle_get E m s = Inr s'" "what m = MESSAGE_GET" "tasks s (message_task m) = Some k" "control_ok s"
  shows "control_ok s'"
  using handle_get_outcome [OF assms(1-3)] assms(4)
  by (auto intro: control_fail_with control_succeed)

lemma control_handle_count_keys:
  assumes "handle_count_keys E m s = Inr s'" "what m = MESSAGE_COUNT_KEYS" "control_ok s"
  shows "control_ok s'"
  using assms
  by (auto simp: handle_count_keys_def handler_simps split: option.splits elim!: control_succeed)

lemma control_states:
  "control_ok s \<Longrightarrow> db_ctx s = Some ctx \<Longrightarrow> only_sets al \<Longrightarrow> control_ok (s\<lparr>txn_states := al\<rparr>)"
  by (simp add: control_ok_def sets_only_iff closed_is_idle_def)

lemma control_handle_set:
  assumes "handle_set E m s = Inr s'" "what m = MESSAGE_SET" "tasks s (message_task m) = Some k" "control_ok s"
  shows "control_ok s'"
proof (cases "db_ctx s")
  case None
  then show ?thesis using assms by (auto simp: handle_set_def intro: control_fail_with)
next
  case (Some ctx)
  have os: "only_sets (txn_states s)" using assms(4) by (simp add: control_ok_def sets_only_iff)
  have "control_ok (s\<lparr>txn_states := AList.update hk (st\<lparr>msgs := m # msgs st\<rparr>) (txn_states s)\<rparr>)"
    if "map_of (txn_states s) hk = Some st" for hk st
    using that assms(2) by (intro control_states [OF assms(4) Some] only_sets_update os)
      (auto dest: only_sets_msgs [OF os])
  moreover have "control_ok s'" if "store_now E ctx (message_task m) k s = Inr s'"
    using store_now_outcome [OF that] assms(4) by (auto intro: control_fail_with control_succeed)
  ultimately show ?thesis
    using assms(1,4) unfolding handle_set_cases [OF assms(2) Some assms(3)]
    by (auto split: option.splits if_splits intro: control_fail_with)
qed

lemma control_handle_txn_begin:
  assumes "handle_txn_begin E m s = Inr s'" "what m = MESSAGE_TXN_BEGIN" "control_ok s"
  shows "control_ok s'"
proof (cases "db_ctx s")
  case None
  then show ?thesis using assms by (auto simp: handle_txn_begin_def intro: control_fail)
next
  case (Some ctx)
  have os: "only_sets (txn_states s)" using assms(3) by (simp add: control_ok_def sets_only_iff)
  have "control_ok (s\<lparr>txn_seq := q, tasks := f, txn_states := AList.update hk (txn_state_new i) (txn_states s)\<rparr>)" for q f hk i
    using only_sets_update [OF os, of "txn_state_new i" hk] Some
    by (simp add: control_ok_def sets_only_iff closed_is_idle_def txn_state_new_def)
  then show ?thesis using assms Some
    by (auto simp: handle_txn_begin_def handler_simps elim!: control_succeed)
qed

lemma control_handle_txn_cancel:
  assumes "handle_txn_cancel E m s = Inr s'" "what m = MESSAGE_TXN_CANCEL" "control_ok s"
  shows "control_ok s'"
proof (cases "db_ctx s")
  case None
  then show ?thesis using assms by (auto simp: handle_txn_cancel_def intro: control_fail)
next
  case (Some ctx)
  have os: "only_sets (txn_states s)" using assms(3) by (simp add: control_ok_def sets_only_iff)
  then show ?thesis using assms control_states [OF assms(3) Some only_sets_delete [OF os]]
    by (auto simp: handle_txn_cancel_def handler_simps Some split: if_splits elim!: control_succeed)
qed

section \<open>One message, other than a commit\<close>

lemma ok_parts:
  assumes "ok K M s"
  shows "sets_only s" "closed_is_idle s" "transform_honest s" "commits_only s" "fresh_tasks s" "control_ok s"
  using assms by (simp_all add: ok_def control_ok_def)

lemma handle_set_ok:
  assumes "ok K (add_mset m M) s" "what m = MESSAGE_SET"
  shows "result_ok (ok K M) (handle_set E m s)"
proof (rule result_okI)
  obtain k where k: "tasks s (message_task m) = Some k" using ok_live [OF assms(1)] by blast
  show "benign e" if "handle_set E m s = Inl e" for e
    using that assms(2) k ok_parts(3) [OF assms(1)] by (rule benign_handle_set)
  show "ok K M s'" if "handle_set E m s = Inr s'" for s'
    using control_handle_set [OF that assms(2) k ok_parts(6) [OF assms(1)]] assms(2)
    by (intro ok_after [OF assms(1) effect_handle_set [OF that assms(2) k]]) (simp_all add: control_ok_def)
qed

lemma same_txn_complete:
  "storage_task_succeed t s = Inr s' \<Longrightarrow> txn s' = txn s"
  "storage_task_fail E t s = Inr s' \<Longrightarrow> txn s' = txn s"
  "fail_with E e t s = Inr s' \<Longrightarrow> txn s' = txn s"
proof -
  show succ: "storage_task_succeed t s = Inr s' \<Longrightarrow> txn s' = txn s" by (erule completed_of_succeed) simp
  have fl: "storage_task_fail E t s = Inr s' \<Longrightarrow> txn s' = txn s" for s
    by (cases "tasks s t") (auto simp: storage_task_fail_eq, auto simp: storage_task_fail_def get_task_def)
  then show "storage_task_fail E t s = Inr s' \<Longrightarrow> txn s' = txn s" .
  show "fail_with E e t s = Inr s' \<Longrightarrow> txn s' = txn s"
    by (auto simp: fail_with_def fault_simps dest!: fl)
qed

lemma same_txn:
  assumes "tasks s (message_task m) = Some k"
  shows "handle_set E m s = Inr s' \<Longrightarrow> what m = MESSAGE_SET \<Longrightarrow> txn s' = txn s"
    and "handle_close E m s = Inr s' \<Longrightarrow> what m = MESSAGE_CLOSE \<Longrightarrow> txn s' = txn s"
    and "handle_txn_begin E m s = Inr s' \<Longrightarrow> what m = MESSAGE_TXN_BEGIN \<Longrightarrow> txn s' = txn s"
    and "handle_txn_cancel E m s = Inr s' \<Longrightarrow> what m = MESSAGE_TXN_CANCEL \<Longrightarrow> txn s' = txn s"
    and "handle_get E m s = Inr s' \<Longrightarrow> what m = MESSAGE_GET \<Longrightarrow> txn s' = txn s"
    and "handle_count_keys E m s = Inr s' \<Longrightarrow> what m = MESSAGE_COUNT_KEYS \<Longrightarrow> txn s' = txn s"
proof -
  assume h: "handle_set E m s = Inr s'" "what m = MESSAGE_SET"
  show "txn s' = txn s"
  proof (cases "db_ctx s")
    case None
    then show ?thesis using h by (auto simp: handle_set_def dest: same_txn_complete)
  next
    case (Some ctx)
    have "txn s' = txn s" if "store_now E ctx (message_task m) k s = Inr s'"
      using store_now_outcome [OF that] by (auto dest: same_txn_complete)
    then show ?thesis
      using h(1) unfolding handle_set_cases [OF h(2) Some assms]
      by (auto split: option.splits if_splits dest: same_txn_complete)
  qed
next
  assume "handle_close E m s = Inr s'" "what m = MESSAGE_CLOSE"
  then show "txn s' = txn s"
    by (auto simp: handle_close_def handler_simps split: option.splits prod.splits if_splits
        dest!: same_txn_complete)
next
  assume "handle_txn_begin E m s = Inr s'" "what m = MESSAGE_TXN_BEGIN"
  then show "txn s' = txn s"
    by (auto simp: handle_txn_begin_def handler_simps split: if_splits dest!: same_txn_complete)
next
  assume "handle_txn_cancel E m s = Inr s'" "what m = MESSAGE_TXN_CANCEL"
  then show "txn s' = txn s"
    by (auto simp: handle_txn_cancel_def handler_simps split: if_splits dest!: same_txn_complete)
next
  assume "handle_get E m s = Inr s'" "what m = MESSAGE_GET"
  from handle_get_outcome [OF this assms] show "txn s' = txn s"
    by (auto dest!: same_txn_complete)
next
  assume "handle_count_keys E m s = Inr s'" "what m = MESSAGE_COUNT_KEYS"
  then show "txn s' = txn s"
    by (auto simp: handle_count_keys_def handler_simps split: option.splits dest!: same_txn_complete)
qed

lemma txn_handle_open:
  assumes "handle_open E m s = Inr s'" "what m = MESSAGE_OPEN" "tasks s (message_task m) = Some k"
  shows "txn s' = txn s \<or> txn_commits s = []"
proof (cases "db_ctx s")
  case None
  then show ?thesis using assms by (auto simp: handle_open_def handler_simps split: if_splits)
next
  case (Some ctx)
  then show ?thesis using assms by (auto simp: handle_open_def handler_simps dest!: same_txn_complete)
qed

text \<open>Between deliveries, and what a handler keeps of it.\<close>

definition idle_ok :: "message multiset \<Rightarrow> ('o, 'w) storage \<Rightarrow> bool" where
  "idle_ok M s \<longleftrightarrow> ok {} M s \<and> (txn s = 0 \<longrightarrow> txn_commits s = [])"

lemma idle_after:
  assumes "idle_ok (add_mset m M) s" "effect m s s'" "what m \<noteq> MESSAGE_TXN_COMMIT" "control_ok s'"
    and "txn s' = txn s \<or> txn_commits s = []"
  shows "idle_ok M s'"
  using assms ok_after [of "{}" m M s s']
  by (auto simp: idle_ok_def control_ok_def effect_def)

lemma handler_ok:
  assumes i: "idle_ok (add_mset m M) s" and w: "what m \<noteq> MESSAGE_TXN_COMMIT"
    and "\<And>k e. r = Inl e \<Longrightarrow> tasks s (message_task m) = Some k \<Longrightarrow> closed_is_idle s \<Longrightarrow> transform_honest s \<Longrightarrow> benign e"
    and "\<And>k s'. r = Inr s' \<Longrightarrow> tasks s (message_task m) = Some k \<Longrightarrow> effect m s s'"
    and "\<And>k s'. r = Inr s' \<Longrightarrow> tasks s (message_task m) = Some k \<Longrightarrow> control_ok s \<Longrightarrow>
      (txn s = 0 \<longrightarrow> txn_commits s = []) \<Longrightarrow> control_ok s'"
    and "\<And>k s'. r = Inr s' \<Longrightarrow> tasks s (message_task m) = Some k \<Longrightarrow> txn s' = txn s \<or> txn_commits s = []"
  shows "result_ok (idle_ok M) r"
proof -
  have ok: "ok {} (add_mset m M) s" using i by (simp add: idle_ok_def)
  note p = ok_parts [OF ok]
  obtain k where k: "tasks s (message_task m) = Some k" using ok_live [OF ok] by blast
  have c0: "txn s = 0 \<longrightarrow> txn_commits s = []" using i by (simp add: idle_ok_def)
  show ?thesis
  proof (rule result_okI)
    show "benign e" if "r = Inl e" for e using assms(3) [OF that k p(2,3)] .
    show "idle_ok M s'" if "r = Inr s'" for s'
      using idle_after [OF i assms(4) [OF that k] w assms(5) [OF that k p(6) c0] assms(6) [OF that k]] .
  qed
qed

lemma handlers_ok:
  assumes i: "idle_ok (add_mset m M) s"
  shows "what m = MESSAGE_SET \<Longrightarrow> result_ok (idle_ok M) (handle_set E m s)"
    and "what m = MESSAGE_OPEN \<Longrightarrow> result_ok (idle_ok M) (handle_open E m s)"
    and "what m = MESSAGE_CLOSE \<Longrightarrow> result_ok (idle_ok M) (handle_close E m s)"
    and "what m = MESSAGE_TXN_BEGIN \<Longrightarrow> result_ok (idle_ok M) (handle_txn_begin E m s)"
    and "what m = MESSAGE_TXN_CANCEL \<Longrightarrow> result_ok (idle_ok M) (handle_txn_cancel E m s)"
    and "what m = MESSAGE_GET \<Longrightarrow> result_ok (idle_ok M) (handle_get E m s)"
    and "what m = MESSAGE_COUNT_KEYS \<Longrightarrow> result_ok (idle_ok M) (handle_count_keys E m s)"
  by (rule handler_ok [OF i], simp, blast intro: benign_handle_set, blast intro: effect_handle_set,
      blast intro: control_handle_set, blast dest: same_txn(1))
    (rule handler_ok [OF i], simp, blast intro: benign_handle_open, blast intro: effect_handle_open,
      blast intro: control_handle_open, blast dest: txn_handle_open,
     rule handler_ok [OF i], simp, blast intro: benign_handle_close, blast intro: effect_handle_close,
      blast intro: control_handle_close, blast dest: same_txn(2),
     rule handler_ok [OF i], simp, blast intro: benign_handle_txn_begin, blast intro: effect_handle_txn_begin,
      blast intro: control_handle_txn_begin, blast dest: same_txn(3),
     rule handler_ok [OF i], simp, blast intro: benign_handle_txn_cancel, blast intro: effect_handle_txn_cancel,
      blast intro: control_handle_txn_cancel, blast dest: same_txn(4),
     rule handler_ok [OF i], simp, blast intro: benign_handle_get, blast intro: effect_handle_get,
      blast intro: control_handle_get, blast dest: same_txn(5),
     rule handler_ok [OF i], simp, blast intro: benign_handle_count_keys, blast intro: effect_handle_count_keys,
      blast intro: control_handle_count_keys, blast dest: same_txn(6))


section \<open>Committing\<close>

text \<open>Changes between messages: tasks keep their transaction, queues lose messages at most.\<close>

lemma ok_transfer:
  assumes ok: "ok K M s"
    and t: "\<And>t. map_option task_txn_id (tasks s' t) = map_option task_txn_id (tasks s t)"
    and "ex_port s' = ex_port s" "cn_port s' = cn_port s" "txn_commits s' = txn_commits s"
    and "completions s' = completions s" "next_task s' = next_task s" "storage_transform s' = storage_transform s"
    and q: "M' + queued K' s' \<subseteq># M + queued K s" and "control_ok s'"
  shows "ok K' M' s'"
proof -
  let ?B = "mset (ex_port s) + mset (cn_port s) + mset (txn_commits s)"
  have p: "M + parts K s = M + queued K s + ?B" "M' + parts K' s' = M' + queued K' s' + ?B"
    using assms(3-5) by (simp_all add: parts_def)
  have sub: "M' + parts K' s' \<subseteq># M + parts K s"
    unfolding p using q by (rule subset_mset.add_right_mono)
  have d: "done_ids s' = done_ids s" using assms(6) by (simp add: done_ids_def)
  have alive: "tasks s' t = None \<longleftrightarrow> tasks s t = None" for t using t [of t] by (metis option.map_disc_iff)
  have ids: "(\<exists>k. tasks s' t = Some k \<and> task_txn_id k \<noteq> 0) \<longleftrightarrow> (\<exists>k. tasks s t = Some k \<and> task_txn_id k \<noteq> 0)" for t
    using t [of t] by (cases "tasks s t"; cases "tasks s' t") auto
  have "sound (M' + parts K' s') s" using ok sub by (auto simp: ok_def intro: sound_mono)
  then have "sound (M' + parts K' s') s'" by (simp add: sound_def d alive)
  moreover have "commits_nonzero (M' + parts K' s') s'"
  proof -
    have "commits_nonzero (M + parts K s) s" using ok by (simp add: ok_def)
    then show ?thesis unfolding commits_nonzero_def ids using sub by (blast dest: mset_subset_eqD)
  qed
  moreover have "fresh_tasks s'"
    using ok_parts(5) [OF ok] assms(7) by (simp add: fresh_tasks_def d alive)
  moreover have "commits_only s'" "transform_honest s'"
    using ok_parts(3,4) [OF ok] assms(5,8) by (simp_all add: commits_only_def transform_honest_def)
  ultimately show ?thesis using assms(10) by (simp add: ok_def control_ok_def)
qed

lemma keys_kept_update: "map_of al k \<noteq> None \<Longrightarrow> map_of (AList.update k' st al) k \<noteq> None"
  by (simp add: update_conv')

lemma keys_kept_propagate: "map_of (txn_states s) k \<noteq> None \<Longrightarrow> map_of (propagate_error E t s) k \<noteq> None"
  by (simp add: propagate_error_def Let_def update_conv' split: option.split)

lemma same_states_complete:
  assumes "map_of (txn_states s) hk \<noteq> None"
  shows "storage_task_succeed t s = Inr s' \<Longrightarrow> map_of (txn_states s') hk \<noteq> None \<and> db_ctx s' = db_ctx s"
    and "fail_with E e t s = Inr s' \<Longrightarrow> map_of (txn_states s') hk \<noteq> None \<and> db_ctx s' = db_ctx s"
proof -
  show "storage_task_succeed t s = Inr s' \<Longrightarrow> map_of (txn_states s') hk \<noteq> None \<and> db_ctx s' = db_ctx s"
    using assms by - (erule completed_of_succeed, simp)
  assume f: "fail_with E e t s = Inr s'"
  then obtain k where k: "tasks s t = Some k" by (auto simp: fail_with_def fault_simps)
  show "map_of (txn_states s') hk \<noteq> None \<and> db_ctx s' = db_ctx s"
    using f keys_kept_propagate [OF assms, of E "task_set_error e k"] unfolding fail_with_eq [OF k] by auto
qed

lemma handle_set_keeps:
  assumes "handle_set E m s = Inr s'" "what m = MESSAGE_SET" "tasks s (message_task m) = Some k"
    and hk: "map_of (txn_states s) hk \<noteq> None"
  shows "map_of (txn_states s') hk \<noteq> None \<and> db_ctx s' = db_ctx s"
proof (cases "db_ctx s")
  case None
  then show ?thesis using assms same_states_complete [OF hk] by (auto simp: handle_set_def)
next
  case (Some ctx)
  have "map_of (txn_states s') hk \<noteq> None \<and> db_ctx s' = db_ctx s"
    if "store_now E ctx (message_task m) k s = Inr s'"
  proof -
    note stored = that
    obtain w where "(\<exists>e. fail_with E e (message_task m) (s\<lparr>world := w\<rparr>) = Inr s') \<or>
        storage_task_succeed (message_task m) (s\<lparr>world := w\<rparr>) = Inr s'"
      using store_now_outcome [OF stored] by blast
    then show ?thesis using same_states_complete [of "s\<lparr>world := w\<rparr>" hk] hk by auto
  qed
  then show ?thesis
    using assms(1) same_states_complete(2) [OF hk] hk
    unfolding handle_set_cases [OF assms(2) Some assms(3)]
    by (auto split: option.splits if_splits simp: update_conv')
qed

lemma take_txn_error_ok:
  assumes ok: "ok K (add_mset mc M) s" and st: "map_of (txn_states s) hk = Some st" and db: "db_ctx s \<noteq> None"
  shows "result_ok (\<lambda>s'. ok K (add_mset mc M) s' \<and> txn s' = txn s \<and> db_ctx s' = db_ctx s)
    (take_txn_error hk (message_task mc) st e s)"
proof -
  obtain k where k: "tasks s (message_task mc) = Some k" using ok_live [OF ok] by blast
  let ?s' = "s\<lparr>tasks := (tasks s)(message_task mc \<mapsto> k\<lparr>task_error := Some e\<rparr>),
    txn_states := AList.update hk (st\<lparr>txn_error := None\<rparr>) (txn_states s)\<rparr>"
  have os: "only_sets (txn_states s)" using ok_parts(1) [OF ok] by (simp add: sets_only_iff)
  then have "only_sets (AList.update hk (st\<lparr>txn_error := None\<rparr>) (txn_states s))"
    by (rule only_sets_update) (use only_sets_msgs [OF os st] in simp)
  then have "control_ok ?s'" using db by (simp add: control_ok_def sets_only_iff closed_is_idle_def)
  moreover have "queued K ?s' = queued K s"
    using queued_in_update [of K hk "st\<lparr>txn_error := None\<rparr>" "txn_states s"] st
    by (simp add: queued_def split: if_splits)
  ultimately have "ok K (add_mset mc M) ?s'"
    by (intro ok_transfer [OF ok]) (simp_all add: k)
  then show ?thesis
    using ok k by (simp add: take_txn_error_def upd_task_Some)
qed

lemma run_msgs_ok:
  assumes "ok K (mset ms + add_mset mc M) s" "\<forall>m\<in>set ms. what m = MESSAGE_SET"
    and "map_of (txn_states s) hk \<noteq> None" "db_ctx s \<noteq> None"
  shows "result_ok (\<lambda>(b, s'). ok K (add_mset mc M) s' \<and> txn s' = txn s \<and> db_ctx s' = db_ctx s)
    (run_msgs E depth hk (message_task mc) ms s)"
  using assms
proof (induction ms arbitrary: s)
  case (Cons m ms)
  have w: "what m = MESSAGE_SET" using Cons.prems(2) by simp
  have ok: "ok K (add_mset m (mset ms + add_mset mc M)) s" using Cons.prems(1) by (simp add: add_mset_commute)
  obtain k where k: "tasks s (message_task m) = Some k" using ok_live [OF ok] by blast
  have ex: "catalina_storage_ex_handle_message E depth m s = handle_set E m s"
    using w by (simp add: catalina_storage_ex_handle_message.simps)
  show ?case
  proof (cases "handle_set E m s")
    case (Inl e)
    then show ?thesis using handle_set_ok [OF ok w, of E] by (simp add: ex)
  next
    case (Inr s1)
    have ok1: "ok K (mset ms + add_mset mc M) s1" using handle_set_ok [OF ok w, of E] Inr by simp
    have keep: "map_of (txn_states s1) hk \<noteq> None" "db_ctx s1 = db_ctx s"
      using handle_set_keeps [OF Inr w k Cons.prems(3)] by simp_all
    have t1: "txn s1 = txn s" using same_txn(1) [OF k Inr w] .
    obtain st where st: "map_of (txn_states s1) hk = Some st" using keep(1) by auto
    show ?thesis
    proof (cases "txn_error st")
      case None
      then show ?thesis
        using Cons.IH [OF ok1] Cons.prems(2,4) keep t1 st Inr by (simp add: ex)
    next
      case (Some e)
      have "ok K (add_mset mc M) s1" using ok1 by (rule ok_mono) simp
      from take_txn_error_ok [OF this st, of e] keep(2) Cons.prems(4)
      have "result_ok (\<lambda>(b, s'). ok K (add_mset mc M) s' \<and> txn s' = txn s \<and> db_ctx s' = db_ctx s)
          (c_bind (take_txn_error hk (message_task mc) st e s1) (\<lambda>s. Inr (False, s)))"
        by (intro result_ok_bind [where P = "\<lambda>s'. ok K (add_mset mc M) s' \<and> txn s' = txn s \<and> db_ctx s' = db_ctx s"])
          (simp_all add: t1)
      then show ?thesis using Inr st Some by (simp add: ex)
    qed
  qed
qed simp


text \<open>Completing the commit's own task.\<close>

lemma done_same [simp]:
  "done_ids (s\<lparr>txn_states := al\<rparr>) = done_ids s" "done_ids (s\<lparr>tasks := f\<rparr>) = done_ids s"
  by (simp_all add: done_ids_def)

lemma done_grows:
  "storage_task_succeed t s = Inr s' \<Longrightarrow> done_ids s' = done_ids s @ [t]"
  "fail_with E e t s = Inr s' \<Longrightarrow> done_ids s' = done_ids s @ [t]"
  "storage_task_fail E t s = Inr s' \<Longrightarrow> done_ids s' = done_ids s @ [t]"
proof -
  show "storage_task_succeed t s = Inr s' \<Longrightarrow> done_ids s' = done_ids s @ [t]"
    by (erule completed_of_succeed) simp
  have fl: "done_ids s' = done_ids s @ [t]" if "storage_task_fail E t s = Inr s'" for s
  proof -
    note failed = that
    obtain k where k: "tasks s t = Some k"
      using failed by (cases "tasks s t") (auto simp: storage_task_fail_def get_task_def)
    show ?thesis using failed unfolding storage_task_fail_eq [OF k] by auto
  qed
  then show "storage_task_fail E t s = Inr s' \<Longrightarrow> done_ids s' = done_ids s @ [t]" .
  show "fail_with E e t s = Inr s' \<Longrightarrow> done_ids s' = done_ids s @ [t]"
    by (auto simp: fail_with_def fault_simps dest!: fl)
qed

lemma complete_commit_ok:
  assumes ok: "ok K (add_mset m M) s"
  shows "result_ok (\<lambda>s'. ok K M s' \<and> txn s' = txn s \<and> txn_commits s' = txn_commits s) (storage_task_succeed (message_task m) s)"
    and "result_ok (\<lambda>s'. ok K M s' \<and> txn s' = txn s \<and> txn_commits s' = txn_commits s) (fail_with E e (message_task m) s)"
    and "result_ok (\<lambda>s'. ok K M s' \<and> txn s' = txn s \<and> txn_commits s' = txn_commits s) (storage_task_fail E (message_task m) s)"
proof -
  obtain k where k: "tasks s (message_task m) = Some k" using ok_live [OF ok] by blast
  have fin: "ok K M s' \<and> txn s' = txn s \<and> txn_commits s' = txn_commits s"
    if "effect m s s'" "done_ids s' = done_ids s @ [message_task m]" "control_ok s'" "txn s' = txn s" for s'
    using ok_after [OF ok that(1)] that by (simp add: control_ok_def effect_def)
  have 1: "effect m s s'" if "storage_task_succeed (message_task m) s = Inr s'" for s'
    using that by (rule effect_succeed) simp_all
  have 2: "effect m s s'" if "fail_with E e (message_task m) s = Inr s'" for s'
    using that by (rule effect_fail_with) (simp_all add: k)
  show "result_ok (\<lambda>s'. ok K M s' \<and> txn s' = txn s \<and> txn_commits s' = txn_commits s) (storage_task_succeed (message_task m) s)"
    by (intro result_okI fin 1 done_grows(1) control_succeed [OF _ ok_parts(6) [OF ok]] same_txn_complete(1))
      (simp_all add: succeed_Inl fail_with_Inl fail_Inl k)
  show "result_ok (\<lambda>s'. ok K M s' \<and> txn s' = txn s \<and> txn_commits s' = txn_commits s) (fail_with E e (message_task m) s)"
    by (intro result_okI fin 2 done_grows(2) control_fail_with [OF _ ok_parts(6) [OF ok]] same_txn_complete(3))
      (simp_all add: succeed_Inl fail_with_Inl fail_Inl k)
  show "result_ok (\<lambda>s'. ok K M s' \<and> txn s' = txn s \<and> txn_commits s' = txn_commits s) (storage_task_fail E (message_task m) s)"
    by (intro result_okI fin effect_fail done_grows(3) control_fail [OF _ ok_parts(6) [OF ok]] same_txn_complete(2))
      (simp_all add: succeed_Inl fail_with_Inl fail_Inl k)
qed


section \<open>Committing a chain of transactions\<close>

lemma queued_in_taken:
  "map_of al k = Some st \<Longrightarrow> k \<notin> K \<Longrightarrow> mset (msgs st) + queued_in (insert k K) al \<subseteq># queued_in K al"
proof (induction al)
  case (Cons a al)
  obtain k' st' where a: "a = (k', st')" by (cases a)
  show ?case
  proof (cases "k' = k")
    case True
    then show ?thesis using Cons.prems a queued_in_insert [of k K al] by simp
  next
    case False
    then show ?thesis using Cons a by (auto simp: subset_mset.add_mono ac_simps)
  qed
qed simp

text \<open>What follows the run of the queued messages: the end of this commit, and the next one.\<close>

definition commit_end :: "'w env \<Rightarrow> nat \<Rightarrow> 32 word \<Rightarrow> nat \<Rightarrow> bool \<Rightarrow> ('o, 'w) storage \<Rightarrow> ('o, 'w) storage result" where
  "commit_end E ctx hash_key t success s =
     (let (ret, w) = (if success then tdb_transaction_commit E ctx (world s) else (0, world s));
          s = s\<lparr>world := w\<rparr> in
      c_bind (if ret \<noteq> 0
              then c_bind (upd_task t (task_set_error STORAGE_ERROR_DB) s) (\<lambda>s. Inr (False, s))
              else Inr (success, s)) (\<lambda>(success, s).
      let s = s\<lparr>txn_states := AList.delete hash_key (txn_states s), txn := 0\<rparr> in
      if success then storage_task_succeed t s
      else storage_task_fail E t (s\<lparr>world := snd (tdb_transaction_recover E ctx (world s))\<rparr>)))"

definition commit_tail :: "'w env \<Rightarrow> nat \<Rightarrow> nat \<Rightarrow> 32 word \<Rightarrow> nat \<Rightarrow> bool \<Rightarrow> ('o, 'w) storage \<Rightarrow> ('o, 'w) storage result" where
  "commit_tail E depth ctx hash_key t success s =
     (let (ret, w) = (if success then tdb_transaction_commit E ctx (world s) else (0, world s));
          s = s\<lparr>world := w\<rparr> in
      c_bind (if ret \<noteq> 0
              then c_bind (upd_task t (task_set_error STORAGE_ERROR_DB) s) (\<lambda>s. Inr (False, s))
              else Inr (success, s)) (\<lambda>(success, s).
      let s = s\<lparr>txn_states := AList.delete hash_key (txn_states s), txn := 0\<rparr> in
      c_bind (if success then storage_task_succeed t s
              else storage_task_fail E t (s\<lparr>world := snd (tdb_transaction_recover E ctx (world s))\<rparr>)) (\<lambda>s.
      case txn_commits s of
        [] \<Rightarrow> Inr s
      | m' # commits \<Rightarrow> handle_txn_commit E depth m' (s\<lparr>txn_commits := commits\<rparr>))))"

lemma commit_tail_eq: "commit_tail E depth ctx hash_key t success s =
  c_bind (commit_end E ctx hash_key t success s) (\<lambda>s. case txn_commits s of [] \<Rightarrow> Inr s
    | m' # commits \<Rightarrow> handle_txn_commit E depth m' (s\<lparr>txn_commits := commits\<rparr>))"
  by (simp add: commit_tail_def commit_end_def Let_def c_bind_assoc split_def)

lemma next_commit:
  assumes ok: "ok {} M s" and c: "txn_commits s = m' # commits" and "txn s = 0" "db_ctx s = Some ctx"
  shows "what m' = MESSAGE_TXN_COMMIT" "ok {} (add_mset m' M) (s\<lparr>txn_commits := commits\<rparr>)"
proof -
  let ?s' = "s\<lparr>txn_commits := commits\<rparr>"
  have p: "add_mset m' M + parts {} ?s' = M + parts {} s" by (simp add: parts_def queued_def c)
  show "what m' = MESSAGE_TXN_COMMIT" using ok_parts(4) [OF ok] c by (simp add: commits_only_def)
  show "ok {} (add_mset m' M) ?s'"
    using ok c assms(4) unfolding ok_def p
    by (simp add: sound_def commits_nonzero_def fresh_tasks_def sets_only_def
        commits_only_def closed_is_idle_def transform_honest_def done_ids_def)
qed

lemma commit_end_ok:
  fixes s :: "('o, 'w) storage"
  assumes ok: "ok {hk} (add_mset m M) s" and db: "db_ctx s = Some ctx"
  shows "result_ok (\<lambda>s'. ok {} M s' \<and> txn s' = 0 \<and> db_ctx s' = Some ctx) (commit_end E ctx hk (message_task m) success s)"
proof -
  let ?t = "message_task m"
  obtain k where k: "tasks s ?t = Some k" using ok_live [OF ok] by blast
  obtain ret w where rw: "(if success then tdb_transaction_commit E ctx (world s) else (0, world s)) = (ret, w)"
    by (metis prod.collapse)
  define f where "f = (if ret \<noteq> 0 then task_set_error STORAGE_ERROR_DB else id :: 'o task \<Rightarrow> 'o task)"
  let ?s1 = "s\<lparr>world := w, tasks := (tasks s)(?t \<mapsto> f k), txn_states := AList.delete hk (txn_states s), txn := 0\<rparr>"
  have c1: "control_ok (?s1\<lparr>world := w'\<rparr>)" for w'
    using db only_sets_delete ok_parts(1) [OF ok] by (simp add: control_ok_def sets_only_iff closed_is_idle_def)
  have ok1: "ok {} (add_mset m M) (?s1\<lparr>world := w'\<rparr>)" for w'
    by (rule ok_transfer [OF ok _ _ _ _ _ _ _ _ c1])
      (simp_all add: k f_def task_set_error_def queued_def queued_in_delete)
  have "?s1\<lparr>world := w\<rparr> = ?s1" by simp
  then have okw: "ok {} (add_mset m M) ?s1" using ok1 [of w] by metis
  have db1: "storage_task_succeed ?t ?s1 = Inr s' \<Longrightarrow> db_ctx s' = Some ctx"
    "storage_task_fail E ?t (?s1\<lparr>world := w'\<rparr>) = Inr s' \<Longrightarrow> db_ctx s' = Some ctx" for s' w'
    using db by (auto simp: storage_task_succeed_eq [where k = "f k"] storage_task_fail_eq [where k = "f k"])
  have "result_ok (\<lambda>s'. ok {} M s' \<and> txn s' = 0 \<and> db_ctx s' = Some ctx) (storage_task_succeed ?t ?s1)"
    using complete_commit_ok(1) [OF okw] db1(1) by (cases "storage_task_succeed ?t ?s1") auto
  moreover have "result_ok (\<lambda>s'. ok {} M s' \<and> txn s' = 0 \<and> db_ctx s' = Some ctx)
      (storage_task_fail E ?t (?s1\<lparr>world := w'\<rparr>))" for w'
    using complete_commit_ok(3) [OF ok1 [of w'], of E] db1(2)
    by (cases "storage_task_fail E ?t (?s1\<lparr>world := w'\<rparr>)") auto
  moreover have "s\<lparr>world := w, tasks := tasks s\<rparr> = s\<lparr>world := w\<rparr>" by simp
  ultimately show ?thesis
    using k by (cases "ret = 0")
      (auto simp: commit_end_def rw upd_task_Some f_def fun_upd_idem Let_def cong: if_cong)
qed

lemma commit_tail_ok:
  fixes s :: "('o, 'w) storage"
  assumes IH: "\<And>m (s :: ('o, 'w) storage). ok {} (add_mset m M) s \<Longrightarrow> what m = MESSAGE_TXN_COMMIT \<Longrightarrow>
      result_ok (idle_ok M) (handle_txn_commit E depth m s)"
    and ok: "ok {hk} (add_mset m M) s" and db: "db_ctx s = Some ctx"
  shows "result_ok (idle_ok M) (commit_tail E depth ctx hk (message_task m) success s)"
  unfolding commit_tail_eq using commit_end_ok [OF ok db]
  by (rule result_ok_bind) (auto simp: idle_ok_def split: list.split intro: IH next_commit)

text \<open>The updates of a transaction, taken out of its state to be run.\<close>

lemma commit_taken:
  assumes ok: "ok {} (add_mset m M) s" and db: "db_ctx s = Some ctx" and st: "map_of (txn_states s) hk = Some st"
  shows "ok {hk} (mset (rev (msgs st)) + add_mset m M) (s\<lparr>txn := i, world := w,
    txn_states := AList.update hk (st\<lparr>msgs := rev (msgs st)\<rparr>) (txn_states s)\<rparr>)"
proof -
  let ?s2 = "s\<lparr>txn := i, world := w, txn_states := AList.update hk (st\<lparr>msgs := rev (msgs st)\<rparr>) (txn_states s)\<rparr>"
  have os: "only_sets (txn_states s)" using ok_parts(1) [OF ok] by (simp add: sets_only_iff)
  have c2: "control_ok ?s2"
    using only_sets_update [OF os, of "st\<lparr>msgs := rev (msgs st)\<rparr>"] only_sets_msgs [OF os st] db
    by (simp add: control_ok_def sets_only_iff closed_is_idle_def)
  have q2: "queued {hk} ?s2 = queued_in {hk} (txn_states s)"
    using queued_in_update [of "{hk}" hk "st\<lparr>msgs := rev (msgs st)\<rparr>" "txn_states s"] by (simp add: queued_def)
  show ?thesis
  proof (rule ok_transfer [OF ok _ _ _ _ _ _ _ _ c2])
    show "mset (rev (msgs st)) + add_mset m M + queued {hk} ?s2 \<subseteq># add_mset m M + queued {} s"
      using queued_in_taken [OF st, of "{}"] unfolding q2 by (simp add: queued_def ac_simps)
  qed simp_all
qed

lemma commit_queued_ok:
  assumes ok: "ok {} (add_mset m M) s" and "what m = MESSAGE_TXN_COMMIT" "db_ctx s = Some ctx" "txn s \<noteq> 0"
  shows "idle_ok M (s\<lparr>txn_commits := txn_commits s @ [m]\<rparr>)"
proof -
  let ?s' = "s\<lparr>txn_commits := txn_commits s @ [m]\<rparr>"
  have "M + parts {} ?s' = add_mset m M + parts {} s" by (simp add: parts_def queued_def)
  then have "ok {} M ?s'"
    using assms by (simp add: ok_def sound_def commits_nonzero_def fresh_tasks_def sets_only_def
        commits_only_def closed_is_idle_def transform_honest_def done_ids_def)
  then show ?thesis using assms(4) by (simp add: idle_ok_def)
qed

lemma commit_started_ok:
  assumes ok: "ok {} (add_mset m M) s" and db: "db_ctx s = Some ctx"
  shows "ok {} (add_mset m M) (s\<lparr>txn := i\<rparr>)" "ok {} (add_mset m M) (s\<lparr>txn := i, world := w\<rparr>)"
proof -
  have c: "control_ok (s\<lparr>txn := i\<rparr>)" "control_ok (s\<lparr>txn := i, world := w\<rparr>)"
    using ok_parts(6) [OF ok] db by (simp_all add: control_ok_def sets_only_iff closed_is_idle_def)
  show "ok {} (add_mset m M) (s\<lparr>txn := i\<rparr>)"
    by (rule ok_transfer [OF ok _ _ _ _ _ _ _ _ c(1)]) (simp_all add: queued_def)
  show "ok {} (add_mset m M) (s\<lparr>txn := i, world := w\<rparr>)"
    by (rule ok_transfer [OF ok _ _ _ _ _ _ _ _ c(2)]) (simp_all add: queued_def)
qed

lemma commit_run_ok:
  assumes ok: "ok {} (add_mset m M) s" and db: "db_ctx s = Some ctx" and st: "map_of (txn_states s) hk = Some st"
  shows "result_ok (\<lambda>(b, s'). ok {hk} (add_mset m M) s' \<and> db_ctx s' = Some ctx)
    (txn_state_run E depth hk (message_task m) (s\<lparr>txn := i, world := w\<rparr>))"
proof -
  let ?t = "message_task m" and ?msgs = "rev (msgs st)"
  let ?s1 = "s\<lparr>txn := i, world := w\<rparr>"
  let ?s2 = "?s1\<lparr>txn_states := AList.update hk (st\<lparr>msgs := ?msgs\<rparr>) (txn_states s)\<rparr>"
  have os: "only_sets (txn_states s)" using ok_parts(1) [OF ok] by (simp add: sets_only_iff)
  have ok2: "ok {hk} (mset ?msgs + add_mset m M) ?s2" using commit_taken [OF ok db st] .
  have run: "txn_state_run E depth hk ?t ?s1 = run_msgs E depth hk ?t ?msgs ?s2"
    using st by (simp add: txn_state_run.simps Let_def)
  have "result_ok (\<lambda>(b, s'). ok {hk} (add_mset m M) s' \<and> txn s' = txn ?s2 \<and> db_ctx s' = db_ctx ?s2)
      (run_msgs E depth hk ?t ?msgs ?s2)"
    using only_sets_msgs [OF os st] db by (intro run_msgs_ok [OF ok2]) (simp_all add: update_conv')
  then show ?thesis
    unfolding run using db by (cases "run_msgs E depth hk ?t ?msgs ?s2") auto
qed

lemma handle_txn_commit_ok:
  "ok {} (add_mset m M) s \<Longrightarrow> what m = MESSAGE_TXN_COMMIT \<Longrightarrow>
   result_ok (idle_ok M) (handle_txn_commit E depth m s)"
proof (induction depth arbitrary: m s)
  case (Suc depth)
  note ok = Suc.prems(1) and w = Suc.prems(2) and p = ok_parts [OF Suc.prems(1)]
  let ?t = "message_task m"
  obtain task where k: "tasks s ?t = Some task" using ok_live [OF ok] by blast
  let ?id = "task_txn_id task" and ?hk = "txn_hash_key (host E) (task_txn_id task)"
  have id: "?id \<noteq> 0" using ok w k by (auto simp: ok_def commits_nonzero_def)
  have stuck: "result_ok (idle_ok M) (fail_with E e ?t s1)"
    if "ok {} (add_mset m M) s1" "txn s1 \<noteq> 0 \<or> txn_commits s1 = []" for s1 e
    using complete_commit_ok(2) [OF that(1), of E e] that(2)
    by (cases "fail_with E e ?t s1") (auto simp: idle_ok_def)
  consider "db_ctx s = None" | ctx where "db_ctx s = Some ctx" "txn s \<noteq> 0 \<and> txn s \<noteq> ?id"
    | ctx where "db_ctx s = Some ctx" "\<not> (txn s \<noteq> 0 \<and> txn s \<noteq> ?id)" "map_of (txn_states s) ?hk = None"
    | ctx st where "db_ctx s = Some ctx" "\<not> (txn s \<noteq> 0 \<and> txn s \<noteq> ?id)" "map_of (txn_states s) ?hk = Some st"
    by (cases "db_ctx s"; cases "map_of (txn_states s) ?hk") blast+
  then show ?case
  proof cases
    case 1
    then have "txn_commits s = []" using p(2) by (simp add: closed_is_idle_def)
    then show ?thesis using stuck [OF ok] 1 w by (simp add: handle_txn_commit.simps)
  next
    case 2
    then show ?thesis using commit_queued_ok [OF ok w] k w by (simp add: handle_txn_commit.simps)
  next
    case 3
    then show ?thesis
      using stuck [OF commit_started_ok(1) [OF ok]] id k w by (auto simp: handle_txn_commit.simps Let_def)
  next
    case 4
    obtain r1 w1 where start: "tdb_transaction_start E ctx (world s) = (r1, w1)" by (metis prod.collapse)
    show ?thesis
    proof (cases "r1 = 0")
      case False
      then show ?thesis
        using stuck [OF commit_started_ok(2) [OF ok 4(1)]] id k w start 4
        by (auto simp: handle_txn_commit.simps Let_def)
    next
      case True
      have "result_ok (idle_ok M) (c_bind (txn_state_run E depth ?hk ?t (s\<lparr>txn := ?id, world := w1\<rparr>))
          (\<lambda>(b, s'). commit_tail E depth ctx ?hk ?t b s'))"
        using commit_run_ok [OF ok 4(1,3)] by (rule result_ok_bind) (auto intro: commit_tail_ok [OF Suc.IH])
      then show ?thesis
        using k w start True 4 by (auto simp: handle_txn_commit.simps Let_def commit_tail_def [abs_def])
    qed
  qed
qed (simp add: handle_txn_commit.simps)

end
