(* ===== verification/Storage_Depth.thy ===== *)
theory Storage_Depth
  imports Storage_Safety
begin

text \<open>
  How deep the recursion of a commit goes: \<^verbatim>\<open>handle_txn_commit\<close> calls itself once for every
  commit that waits behind it, so one level more than there are waiting commits is enough.
\<close>

definition not_exhausted :: "('a \<Rightarrow> bool) \<Rightarrow> 'a result \<Rightarrow> bool" where
  "not_exhausted P r \<longleftrightarrow> (case r of Inl e \<Rightarrow> e \<noteq> Stack_Exhausted | Inr x \<Rightarrow> P x)"

lemma not_exhausted_simps [simp]:
  "not_exhausted P (Inl e) = (e \<noteq> Stack_Exhausted)" "not_exhausted P (Inr x) = P x"
  by (simp_all add: not_exhausted_def)

lemma not_exhausted_bind:
  "not_exhausted P r \<Longrightarrow> (\<And>x. P x \<Longrightarrow> not_exhausted Q (f x)) \<Longrightarrow> not_exhausted Q (c_bind r f)"
  by (cases r) simp_all

lemma bind_not_exhausted:
  "not_exhausted P r \<Longrightarrow> (\<And>x. P x \<Longrightarrow> f x \<noteq> Inl Stack_Exhausted) \<Longrightarrow> c_bind r f \<noteq> Inl Stack_Exhausted"
  by (cases r) simp_all

lemma not_exhaustedI:
  "(r \<noteq> Inl Stack_Exhausted) \<Longrightarrow> (\<And>x. r = Inr x \<Longrightarrow> P x) \<Longrightarrow> not_exhausted P r"
  by (cases r) simp_all

definition transform_shallow :: "('o, 'w) storage \<Rightarrow> bool" where
  "transform_shallow s \<longleftrightarrow> (\<forall>T p n. storage_transform s = Some T \<longrightarrow> catalina_transform_write T p n \<noteq> Inl Stack_Exhausted)"

text \<open>What a commit relies on while it runs: an open storage whose queues hold only updates.\<close>

definition committing :: "nat \<Rightarrow> message list \<Rightarrow> ('o, 'w) storage \<Rightarrow> bool" where
  "committing ctx commits s \<longleftrightarrow> control_ok s \<and> db_ctx s = Some ctx \<and> txn_commits s = commits \<and> transform_shallow s"

lemma read_mem_shallow: "read_mem p n \<noteq> Inl Stack_Exhausted"
  by (auto simp: read_mem_def load_bytes_def split: option.splits)

lemma completing_shallow:
  "storage_task_succeed t s \<noteq> Inl Stack_Exhausted" "storage_task_fail E t s \<noteq> Inl Stack_Exhausted"
  "fail_with E e t s \<noteq> Inl Stack_Exhausted" "upd_task t f s \<noteq> Inl Stack_Exhausted" "get_task s t \<noteq> Inl Stack_Exhausted"
proof -
  have "storage_task_succeed t s \<noteq> Inl Stack_Exhausted \<and> storage_task_fail E t s \<noteq> Inl Stack_Exhausted" for s
    by (cases "tasks s t") (auto simp: storage_task_succeed_eq storage_task_fail_eq,
        auto simp: storage_task_succeed_def storage_task_complete_def storage_task_fail_def upd_task_def get_task_def)
  then show "storage_task_succeed t s \<noteq> Inl Stack_Exhausted" "storage_task_fail E t s \<noteq> Inl Stack_Exhausted"
    "fail_with E e t s \<noteq> Inl Stack_Exhausted"
    by (auto simp: fail_with_def c_bind_eq_Inl upd_task_Inl)
  show "upd_task t f s \<noteq> Inl Stack_Exhausted" "get_task s t \<noteq> Inl Stack_Exhausted"
    by (simp_all add: upd_task_Inl get_task_Inl)
qed

lemma store_now_shallow:
  assumes "transform_shallow s"
  shows "store_now E ctx t k s \<noteq> Inl Stack_Exhausted"
proof
  assume f: "store_now E ctx t k s = Inl Stack_Exhausted"
  let ?w = "case storage_transform s of None \<Rightarrow> Inr (Transformed None 0)
    | Some transform \<Rightarrow> catalina_transform_write transform (task_data k) (task_data_length k)"
  show False
  proof (cases ?w)
    case (Inl e')
    then show False using f assms by (auto simp: store_now_def transform_shallow_def split: option.splits)
  next
    case (Inr r)
    then show False using f
      by (cases r) (auto simp: store_now_def c_bind_eq_Inl Let_def case_prod_beta read_mem_shallow completing_shallow split: if_splits)
  qed
qed

lemma handle_set_live:
  assumes "handle_set E m s = Inr s'" "what m = MESSAGE_SET"
  shows "\<exists>k. tasks s (message_task m) = Some k"
  using assms by (auto simp: handle_set_def handler_simps fail_with_def split: option.splits)

lemma handle_set_shallow:
  assumes "transform_shallow s" "what m = MESSAGE_SET"
  shows "handle_set E m s \<noteq> Inl Stack_Exhausted"
proof (cases "tasks s (message_task m)")
  case None
  then show ?thesis using assms(2)
    by (auto simp: handle_set_def Let_def fail_with_def c_bind_eq_Inl get_task_Inl upd_task_Inl get_task_def upd_task_def
        split: option.split)
next
  case (Some k)
  show ?thesis
  proof (cases "db_ctx s")
    case None
    then show ?thesis using assms by (simp add: handle_set_def completing_shallow)
  next
    case (Some ctx)
    then show ?thesis
      unfolding handle_set_cases [OF assms(2) Some \<open>tasks s (message_task m) = Some k\<close>]
      using store_now_shallow [OF assms(1)] by (auto simp: completing_shallow split: option.split)
  qed
qed

lemma handle_set_committing:
  assumes "committing ctx commits s" "what m = MESSAGE_SET" "map_of (txn_states s) hk \<noteq> None"
  shows "not_exhausted (\<lambda>s'. committing ctx commits s' \<and> map_of (txn_states s') hk \<noteq> None) (handle_set E m s)"
proof (rule not_exhaustedI)
  show "handle_set E m s \<noteq> Inl Stack_Exhausted"
    using assms by (intro handle_set_shallow) (simp_all add: committing_def)
  fix s' assume h: "handle_set E m s = Inr s'"
  obtain k where k: "tasks s (message_task m) = Some k" using handle_set_live [OF h assms(2)] by blast
  have "effect m s s'" using h assms(2) k by (rule effect_handle_set)
  moreover have "control_ok s'" using control_handle_set [OF h assms(2) k] assms(1) by (simp add: committing_def)
  moreover note handle_set_keeps [OF h assms(2) k assms(3)]
  ultimately show "committing ctx commits s' \<and> map_of (txn_states s') hk \<noteq> None"
    using assms(1) by (simp add: committing_def transform_shallow_def effect_def)
qed

lemma take_txn_error_committing:
  assumes "committing ctx commits s" "map_of (txn_states s) hk = Some st"
  shows "not_exhausted (committing ctx commits) (take_txn_error hk t st e s)"
proof -
  have os: "only_sets (txn_states s)" using assms(1) by (simp add: committing_def control_ok_def sets_only_iff)
  have "only_sets (AList.update hk (st\<lparr>txn_error := None\<rparr>) (txn_states s))"
    using os by (rule only_sets_update) (use only_sets_msgs [OF os assms(2)] in simp)
  then show ?thesis
    using assms(1) by (cases "tasks s t")
      (simp_all add: take_txn_error_def upd_task_Some committing_def control_ok_def sets_only_iff
        closed_is_idle_def transform_shallow_def get_task_def)
qed

lemma run_msgs_committing:
  fixes s :: "('o, 'w) storage"
  assumes "committing ctx commits s" "\<forall>m\<in>set ms. what m = MESSAGE_SET" "map_of (txn_states s) hk \<noteq> None"
  shows "not_exhausted (\<lambda>(b, s'). committing ctx commits s') (run_msgs E depth hk t ms s)"
  using assms
proof (induction ms arbitrary: s)
  case (Cons m ms)
  have w: "what m = MESSAGE_SET" using Cons.prems(2) by simp
  have rest: "not_exhausted (\<lambda>(b, s'). committing ctx commits s') (case map_of (txn_states s1) hk of
       None \<Rightarrow> Inl Use_After_Free
     | Some state \<Rightarrow> (case txn_error state of None \<Rightarrow> run_msgs E depth hk t ms s1
          | Some e \<Rightarrow> c_bind (take_txn_error hk t state e s1) (\<lambda>s. Inr (False, s))))"
    if "committing ctx commits s1 \<and> map_of (txn_states s1) hk \<noteq> None" for s1 :: "('o, 'w) storage"
  proof -
    note c = that
    then obtain st where st: "map_of (txn_states s1) hk = Some st" by blast
    show ?thesis
    proof (cases "txn_error st")
      case None
      then show ?thesis using Cons.IH [of s1] Cons.prems(2) c st by simp
    next
      case (Some e)
      have "not_exhausted (\<lambda>(b, s'). committing ctx commits s')
          (c_bind (take_txn_error hk t st e s1) (\<lambda>s. Inr (False, s)))"
        using take_txn_error_committing [OF _ st] c by (intro not_exhausted_bind [where P = "committing ctx commits"]) auto
      then show ?thesis using st Some by simp
    qed
  qed
  show ?case
    unfolding run_msgs.simps catalina_storage_ex_handle_message.simps w
    using not_exhausted_bind [OF handle_set_committing [OF Cons.prems(1) w Cons.prems(3), of E] rest] by simp
qed simp

lemma completing_committing:
  assumes "committing ctx commits s"
  shows "not_exhausted (committing ctx commits) (storage_task_succeed t s)"
    and "not_exhausted (committing ctx commits) (storage_task_fail E t s)"
proof -
  show "not_exhausted (committing ctx commits) (storage_task_succeed t s)"
    using assms by (intro not_exhaustedI) (auto simp: completing_shallow committing_def transform_shallow_def elim!: completed_of_succeed)
  show "not_exhausted (committing ctx commits) (storage_task_fail E t s)"
  proof (rule not_exhaustedI)
    fix s' assume f: "storage_task_fail E t s = Inr s'"
    then obtain k where "tasks s t = Some k" by (auto simp: storage_task_fail_def handler_simps)
    then show "committing ctx commits s'"
      using f control_fail [OF f] assms by (auto simp: storage_task_fail_eq committing_def transform_shallow_def)
  qed (simp add: completing_shallow)
qed


lemma next_commit_shallow:
  fixes s :: "('o, 'w) storage"
  assumes IH: "\<And>m (s :: ('o, 'w) storage). control_ok s \<Longrightarrow> transform_shallow s \<Longrightarrow> length (txn_commits s) < depth \<Longrightarrow>
      handle_txn_commit E depth m s \<noteq> Inl Stack_Exhausted"
    and c: "committing ctx commits s" and d: "length commits \<le> depth"
  shows "(case txn_commits s of [] \<Rightarrow> Inr s
    | m' # commits \<Rightarrow> handle_txn_commit E depth m' (s\<lparr>txn_commits := commits\<rparr>)) \<noteq> Inl Stack_Exhausted"
proof (cases "txn_commits s")
  case (Cons m' commits')
  have "control_ok (s\<lparr>txn_commits := commits'\<rparr>)" "transform_shallow (s\<lparr>txn_commits := commits'\<rparr>)"
    using c by (simp_all add: committing_def control_ok_def sets_only_iff closed_is_idle_def transform_shallow_def)
  moreover have "length commits' < depth" using c d Cons by (metis Suc_le_eq committing_def length_Cons)
  ultimately show ?thesis using IH [of "s\<lparr>txn_commits := commits'\<rparr>" m'] Cons by simp
qed simp

lemma commit_tail_shallow:
  fixes s :: "('o, 'w) storage"
  assumes IH: "\<And>m (s :: ('o, 'w) storage). control_ok s \<Longrightarrow> transform_shallow s \<Longrightarrow> length (txn_commits s) < depth \<Longrightarrow>
      handle_txn_commit E depth m s \<noteq> Inl Stack_Exhausted"
    and c: "committing ctx commits s" and d: "length commits \<le> depth"
  shows "commit_tail E depth ctx hk t success s \<noteq> Inl Stack_Exhausted"
proof -
  let ?next = "\<lambda>s. case txn_commits s of [] \<Rightarrow> Inr s
    | m' # commits \<Rightarrow> handle_txn_commit E depth m' (s\<lparr>txn_commits := commits\<rparr>)"
  obtain ret w where rw: "(if success then tdb_transaction_commit E ctx (world s) else (0, world s)) = (ret, w)"
    by (metis prod.collapse)
  have fin: "c_bind r ?next \<noteq> Inl Stack_Exhausted" if "not_exhausted (committing ctx commits) r" for r :: "('o, 'w) storage result"
  proof (cases r)
    case (Inr s')
    then have "committing ctx commits s'" using that by simp
    from next_commit_shallow [OF IH this d] show ?thesis using Inr by simp
  qed (use that in simp)
  have reset: "committing ctx commits (s1\<lparr>txn_states := AList.delete hk (txn_states s1), txn := 0\<rparr>)"
    "committing ctx commits (s1\<lparr>txn_states := AList.delete hk (txn_states s1), txn := 0, world := w'\<rparr>)"
    if "committing ctx commits s1" for s1 :: "('o, 'w) storage" and w'
    using that only_sets_delete
    by (auto simp: committing_def control_ok_def sets_only_iff closed_is_idle_def transform_shallow_def)
  have tail: "c_bind (if success then storage_task_succeed t (s1\<lparr>txn_states := AList.delete hk (txn_states s1), txn := 0\<rparr>)
      else storage_task_fail E t (s1\<lparr>txn_states := AList.delete hk (txn_states s1), txn := 0, world := w'\<rparr>)) ?next
      \<noteq> Inl Stack_Exhausted"
    if "committing ctx commits s1" for s1 :: "('o, 'w) storage" and w' success
    using completing_committing [OF reset(1) [OF that]] completing_committing [OF reset(2) [OF that]]
    by (intro fin) simp
  have w: "not_exhausted (\<lambda>(b, s'). committing ctx commits s') (if ret \<noteq> 0
      then c_bind (upd_task t (task_set_error STORAGE_ERROR_DB) (s\<lparr>world := w\<rparr>)) (\<lambda>s. Inr (False, s))
      else Inr (success, s\<lparr>world := w\<rparr>))"
    using c by (cases "tasks s t") (simp_all add: upd_task_def get_task_def committing_def transform_shallow_def)
  show ?thesis
    unfolding commit_tail_def rw Let_def prod.case
  proof (rule bind_not_exhausted [OF w])
    fix x :: "bool \<times> ('o, 'w) storage" assume "case x of (b, s') \<Rightarrow> committing ctx commits s'"
    then obtain b s1 where "x = (b, s1)" "committing ctx commits s1" by (cases x) auto
    then show "(case x of (success, s) \<Rightarrow> c_bind (if success
        then storage_task_succeed t (s\<lparr>txn_states := AList.delete hk (txn_states s), txn := 0\<rparr>)
        else storage_task_fail E t (s\<lparr>txn_states := AList.delete hk (txn_states s), txn := 0,
          world := snd (tdb_transaction_recover E ctx
            (world (s\<lparr>txn_states := AList.delete hk (txn_states s), txn := 0\<rparr>)))\<rparr>)) ?next) \<noteq> Inl Stack_Exhausted"
      using tail by simp
  qed
qed

lemma handle_txn_commit_shallow:
  "control_ok s \<Longrightarrow> transform_shallow s \<Longrightarrow> length (txn_commits s) < depth \<Longrightarrow>
   handle_txn_commit E depth m s \<noteq> Inl Stack_Exhausted"
proof (induction depth arbitrary: m s)
  case (Suc depth)
  let ?t = "message_task m"
  show ?case
  proof (cases "what m = MESSAGE_TXN_COMMIT \<and> tasks s ?t \<noteq> None \<and> db_ctx s \<noteq> None")
    case False
    then consider "what m \<noteq> MESSAGE_TXN_COMMIT" | "db_ctx s = None" | "tasks s ?t = None" by blast
    then show ?thesis
      by cases (auto simp: handle_txn_commit.simps Let_def completing_shallow get_task_def split: option.split)
  next
    case True
    then obtain task ctx where w: "what m = MESSAGE_TXN_COMMIT" and k: "tasks s ?t = Some task" and db: "db_ctx s = Some ctx"
      by auto
    let ?id = "task_txn_id task" and ?hk = "txn_hash_key (host E) (task_txn_id task)"
    obtain r1 w1 where start: "tdb_transaction_start E ctx (world s) = (r1, w1)" by (metis prod.collapse)
    let ?s1 = "s\<lparr>txn := ?id, world := w1\<rparr>"
    have run: "not_exhausted (\<lambda>(b, s'). committing ctx (txn_commits s) s') (txn_state_run E depth ?hk ?t ?s1)"
      if "map_of (txn_states s) ?hk = Some st" for st
    proof -
      note st = that
      let ?s2 = "?s1\<lparr>txn_states := AList.update ?hk (st\<lparr>msgs := rev (msgs st)\<rparr>) (txn_states s)\<rparr>"
      have os: "only_sets (txn_states s)" using Suc.prems(1) by (simp add: control_ok_def sets_only_iff)
      have "committing ctx (txn_commits s) ?s2"
        using only_sets_update [OF os, of "st\<lparr>msgs := rev (msgs st)\<rparr>"] only_sets_msgs [OF os st] db Suc.prems(2)
        by (simp add: committing_def control_ok_def sets_only_iff closed_is_idle_def transform_shallow_def)
      then show ?thesis
        using run_msgs_committing [of ctx "txn_commits s" ?s2 "rev (msgs st)" ?hk E depth ?t] only_sets_msgs [OF os st] st
        by (simp add: txn_state_run.simps Let_def update_conv')
    qed
    have "c_bind (txn_state_run E depth ?hk ?t ?s1) (\<lambda>(b, s'). commit_tail E depth ctx ?hk ?t b s') \<noteq> Inl Stack_Exhausted"
      if "map_of (txn_states s) ?hk = Some st" for st
    proof (cases "txn_state_run E depth ?hk ?t ?s1")
      case (Inl e)
      then show ?thesis using run [OF that] by simp
    next
      case (Inr r)
      obtain b s' where r: "r = (b, s')" by (cases r)
      then have "committing ctx (txn_commits s) s'" using run [OF that] Inr by simp
      then have "commit_tail E depth ctx ?hk ?t b s' \<noteq> Inl Stack_Exhausted"
        using Suc.prems(3) by (intro commit_tail_shallow [OF Suc.IH]) (simp_all add: less_Suc_eq_le)
      then show ?thesis using Inr r by simp
    qed
    then show ?thesis
      using k w db start
      by (auto simp: handle_txn_commit.simps Let_def commit_tail_def [abs_def] completing_shallow split: option.splits)
  qed
qed simp

end
