(* ===== verification/Storage_Frames.thy ===== *)
theory Storage_Frames
  imports Storage_Safety
begin

text \<open>
  What no handler does, with all the commits that run behind it: a task that was completed
  stays so, no task changes hands (the thread or the callback that waits for it), none is
  made. The relation \<open>grows\<close> says that of two states, \<open>completes t\<close> moreover that the second
  one has one completion more.
\<close>

section \<open>Completions are only added\<close>

definition waiters :: "('o, 'w) storage \<Rightarrow> nat \<Rightarrow> waiter option" where
  "waiters s = (\<lambda>t. map_option task_waiter (tasks s t))"

definition grows :: "('o, 'w) storage \<Rightarrow> ('o, 'w) storage \<Rightarrow> bool" where
  "grows s s' \<longleftrightarrow> set (done_ids s) \<subseteq> set (done_ids s') \<and> waiters s' = waiters s \<and> next_task s' = next_task s"

lemma grows_refl [simp]: "grows s s"
  by (simp add: grows_def)

lemma grows_trans: "grows s s1 \<Longrightarrow> grows s1 s' \<Longrightarrow> grows s s'"
  by (auto simp: grows_def)

lemma done_ids_control [simp]:
  "done_ids (s\<lparr>world := w\<rparr>) = done_ids s" "done_ids (s\<lparr>txn := n\<rparr>) = done_ids s"
  "done_ids (s\<lparr>db_ctx := c\<rparr>) = done_ids s" "done_ids (s\<lparr>txn_commits := ms\<rparr>) = done_ids s"
  "done_ids (s\<lparr>txn_seq := n\<rparr>) = done_ids s" "done_ids (s\<lparr>ex_port := ms\<rparr>) = done_ids s"
  by (simp_all add: done_ids_def)

lemma waiters_simps [simp]:
  "waiters (s\<lparr>world := w\<rparr>) = waiters s" "waiters (s\<lparr>txn := n\<rparr>) = waiters s"
  "waiters (s\<lparr>db_ctx := c\<rparr>) = waiters s" "waiters (s\<lparr>txn_commits := ms\<rparr>) = waiters s"
  "waiters (s\<lparr>txn_seq := n\<rparr>) = waiters s" "waiters (s\<lparr>ex_port := ms\<rparr>) = waiters s"
  "waiters (s\<lparr>cn_port := ms\<rparr>) = waiters s" "waiters (s\<lparr>txn_states := sts\<rparr>) = waiters s"
  "waiters (s\<lparr>completions := cs\<rparr>) = waiters s" "waiters (s\<lparr>next_task := j\<rparr>) = waiters s"
  "waiters (s\<lparr>flags := f\<rparr>) = waiters s"
  by (simp_all add: waiters_def)

lemma task_set_error_fields [simp]:
  "task_waiter (task_set_error e k) = task_waiter k" "task_txn_id (task_set_error e k) = task_txn_id k"
  by (simp_all add: task_set_error_def)

lemmas same_waiters = waiters_def fun_eq_iff

lemma waiters_at: "tasks s t = Some k \<Longrightarrow> waiters s t = Some (task_waiter k)"
  by (simp add: waiters_def)

lemma waiters_completed:
  assumes "waiters s t = Some (task_waiter k)"
  shows "waiters (completed_state t b k s) = waiters s"
  using assms by (auto simp: waiters_def completed_state_def fun_eq_iff split: waiter.split)

text \<open>A handler that ends in one of these has completed its task.\<close>

definition completes :: "nat \<Rightarrow> ('o, 'w) storage \<Rightarrow> ('o, 'w) storage \<Rightarrow> bool" where
  "completes t s s' \<longleftrightarrow> done_ids s' = done_ids s @ [t] \<and> waiters s' = waiters s \<and> next_task s' = next_task s"

lemma completes_grows: "completes t s s' \<Longrightarrow> grows s s'" "completes t s s' \<Longrightarrow> t \<in> set (done_ids s')"
  by (auto simp: completes_def grows_def)

lemma completed_completes:
  "waiters s t = Some (task_waiter k) \<Longrightarrow> completes t s (completed_state t b k s)"
  by (simp add: completes_def waiters_completed)

lemma completing:
  "storage_task_succeed t s = Inr s' \<Longrightarrow> completes t s s'"
  "storage_task_fail E t s = Inr s' \<Longrightarrow> completes t s s'"
  "fail_with E e t s = Inr s' \<Longrightarrow> completes t s s'"
proof -
  show "storage_task_succeed t s = Inr s' \<Longrightarrow> completes t s s'"
    by (erule completed_of_succeed) (simp add: completed_completes waiters_at)
  show "completes t s s'" if failed: "storage_task_fail E t s = Inr s'"
  proof -
    obtain k where k: "tasks s t = Some k"
      using failed by (cases "tasks s t") (auto simp: storage_task_fail_def get_task_def)
    show ?thesis using failed k unfolding storage_task_fail_eq [OF k]
      by (auto simp: completes_def waiters_completed waiters_at)
  qed
  show "completes t s s'" if failed: "fail_with E e t s = Inr s'"
  proof -
    obtain k where k: "tasks s t = Some k"
      using failed by (cases "tasks s t") (auto simp: fail_with_def upd_task_def get_task_def)
    show ?thesis using failed k unfolding fail_with_eq [OF k]
      by (auto simp: completes_def waiters_completed waiters_at)
  qed
qed

lemma completes_same:
  "done_ids s1 = done_ids s \<Longrightarrow> waiters s1 = waiters s \<Longrightarrow> next_task s1 = next_task s \<Longrightarrow> completes t s1 s' = completes t s s'"
  by (simp add: completes_def)

lemma handle_open_completes:
  assumes "handle_open E m s = Inr s'" "what m = MESSAGE_OPEN"
  shows "completes (message_task m) s s'"
proof -
  obtain task where t: "tasks s (message_task m) = Some task"
    using assms by (auto simp: handle_open_def handler_simps)
  show ?thesis
  proof (cases "db_ctx s")
    case (Some ctx)
    then show ?thesis using assms t by (auto simp: handle_open_def handler_simps intro: completing)
  next
    case None
    then obtain path where p: "c_text (task_key task) = Inr path" and c: "txn_commits s = []"
      using assms t by (auto simp: handle_open_def handler_simps split: if_splits)
    have "done_ids (opening_state E path s) = done_ids s" "tasks (opening_state E path s) = tasks s"
      "next_task (opening_state E path s) = next_task s"
      by (simp_all add: opening_state_def Let_def done_ids_def)
    then show ?thesis
      using assms(1) unfolding handle_open_eq [OF assms(2) t None p c]
      by (auto simp: Let_def completes_def t same_waiters waiters_completed split: option.splits prod.splits dest!: completing)
  qed
qed

lemma handler_completes:
  "handle_close E m s = Inr s' \<Longrightarrow> what m = MESSAGE_CLOSE \<Longrightarrow> completes (message_task m) s s'"
  "handle_txn_begin E m s = Inr s' \<Longrightarrow> what m = MESSAGE_TXN_BEGIN \<Longrightarrow> completes (message_task m) s s'"
  "handle_txn_cancel E m s = Inr s' \<Longrightarrow> what m = MESSAGE_TXN_CANCEL \<Longrightarrow> completes (message_task m) s s'"
  "handle_count_keys E m s = Inr s' \<Longrightarrow> what m = MESSAGE_COUNT_KEYS \<Longrightarrow> completes (message_task m) s s'"
     apply (auto simp: handle_close_def handler_simps completes_def same_waiters split: if_splits option.splits prod.splits dest!: completing)[]
    apply (auto simp: handle_txn_begin_def handler_simps completes_def same_waiters split: if_splits dest!: completing)[]
   apply (auto simp: handle_txn_cancel_def handler_simps completes_def same_waiters split: if_splits dest!: completing)[]
  apply (auto simp: handle_count_keys_def handler_simps completes_def same_waiters split: option.splits dest!: completing)
  done

lemma handle_get_completes:
  assumes "handle_get E m s = Inr s'" "what m = MESSAGE_GET" "tasks s (message_task m) = Some k"
  shows "completes (message_task m) s s'"
  using handle_get_outcome [OF assms] assms(3) by (auto simp: completes_def same_waiters dest!: completing)

lemma store_now_completes: "store_now E ctx t k s = Inr s' \<Longrightarrow> completes t s s'"
  by (auto dest!: store_now_outcome completing simp: completes_def)

text \<open>An update is carried out or refused, waits in its transaction, or is dropped.\<close>

lemma handle_set_result:
  assumes "handle_set E m s = Inr s'" "what m = MESSAGE_SET" "tasks s (message_task m) = Some k"
  shows "completes (message_task m) s s' \<or>
    (done_ids s' = done_ids s \<and> task_txn_id k \<noteq> 0 \<and> txn s \<noteq> task_txn_id k \<and>
      waiters s' = waiters s \<and> next_task s' = next_task s \<and>
      (\<exists>st. map_of (txn_states s') (txn_hash_key (host E) (task_txn_id k)) = Some st \<and> m \<in> set (msgs st))) \<or>
    (s' = s \<and> task_txn_id k = 0 \<and> txn s \<noteq> 0)"
proof (cases "db_ctx s")
  case None
  then have "completes (message_task m) s s'"
    using assms by (auto simp: handle_set_def completes_def dest!: completing)
  then show ?thesis ..
next
  case (Some ctx)
  show ?thesis
    using assms(1) unfolding handle_set_cases [OF assms(2) Some assms(3)]
    by (auto simp: set_goes_to_queue_def set_is_dropped_def update_conv' split: if_splits option.splits
        dest: store_now_completes completing)
qed

lemma handle_set_live_task: "handle_set E m s = Inr s' \<Longrightarrow> what m = MESSAGE_SET \<Longrightarrow> \<exists>k. tasks s (message_task m) = Some k"
  by (cases "tasks s (message_task m)")
    (auto simp: handle_set_def handler_simps fail_with_def get_task_def split: option.splits)

lemma handle_set_grows:
  assumes "handle_set E m s = Inr s'"
  shows "grows s s'"
proof (cases "what m = MESSAGE_SET")
  case True
  then obtain k where "tasks s (message_task m) = Some k" using handle_set_live_task [OF assms] by blast
  from handle_set_result [OF assms True this] show ?thesis
    using completes_grows(1) by (auto simp: grows_def)
qed (use assms in \<open>simp add: handle_set_def\<close>)

lemma take_txn_error_grows: "take_txn_error hk ct st e s = Inr s' \<Longrightarrow> grows s s'"
  by (auto simp: take_txn_error_def handler_simps grows_def same_waiters split: if_splits)

text \<open>A commit is put aside, refused, or run.\<close>

lemma commit_cases:
  assumes "handle_txn_commit E (Suc depth) m s = Inr s'" "what m = MESSAGE_TXN_COMMIT"
  obtains (aside) "txn s \<noteq> 0" "s' = s\<lparr>txn_commits := txn_commits s @ [m]\<rparr>"
  | (refused) i w e where "fail_with E e (message_task m) (s\<lparr>txn := i, world := w\<rparr>) = Inr s'"
  | (run) i w hk ctx b s2 where "txn_state_run E depth hk (message_task m) (s\<lparr>txn := i, world := w\<rparr>) = Inr (b, s2)"
      "commit_tail E depth ctx hk (message_task m) b s2 = Inr s'"
proof (cases "db_ctx s")
  case None
  then show ?thesis using assms refused [where e = STORAGE_ERROR_STATE and i = "txn s" and w = "world s"] by (simp add: handle_txn_commit.simps Let_def)
next
  case (Some ctx)
  note db = this
  obtain task where k: "tasks s (message_task m) = Some task"
    using assms db by (auto simp: handle_txn_commit.simps handler_simps)
  let ?id = "task_txn_id task" and ?hk = "txn_hash_key (host E) (task_txn_id task)"
  show ?thesis
  proof (cases "txn s \<noteq> 0 \<and> txn s \<noteq> ?id")
    case True
    then show ?thesis using assms db k aside by (simp add: handle_txn_commit.simps Let_def)
  next
    case False
    show ?thesis
    proof (cases "map_of (txn_states s) ?hk")
      case None
      then show ?thesis
        using assms db k False refused [where e = STORAGE_ERROR_STATE and i = ?id and w = "world s"]
        by (auto simp: handle_txn_commit.simps Let_def)
    next
      case (Some st)
      obtain ret w where start: "tdb_transaction_start E ctx (world s) = (ret, w)" by (metis prod.collapse)
      let ?s1 = "s\<lparr>txn := ?id, world := w\<rparr>"
      show ?thesis
      proof (cases "ret = 0")
        case True
        then have "c_bind (txn_state_run E depth ?hk (message_task m) ?s1)
            (\<lambda>(b, s'). commit_tail E depth ctx ?hk (message_task m) b s') = Inr s'"
          using assms db k False Some start by (auto simp: handle_txn_commit.simps Let_def commit_tail_def [abs_def])
        then show ?thesis using run by (auto simp: c_bind_eq_Inr)
      next
        case nonzero: False
        then show ?thesis
          using assms db k False Some start refused [where e = STORAGE_ERROR_DB and i = ?id and w = w]
          by (auto simp: handle_txn_commit.simps Let_def)
      qed
    qed
  qed
qed

lemma commit_end_completes:
  assumes "commit_end E ctx hk t b s = Inr s'"
  shows "completes t s s'"
proof -
  obtain ret w where rw: "(if b then tdb_transaction_commit E ctx (world s) else (0, world s)) = (ret, w)"
    by (metis prod.collapse)
  let ?closed = "\<lambda>s. s\<lparr>txn_states := AList.delete hk (txn_states s), txn := 0\<rparr>"
  obtain b1 s0 where first: "(if ret \<noteq> 0 then c_bind (upd_task t (task_set_error STORAGE_ERROR_DB) (s\<lparr>world := w\<rparr>))
        (\<lambda>s. Inr (False, s)) else Inr (b, s\<lparr>world := w\<rparr>)) = Inr (b1, s0)"
    and second: "(if b1 then storage_task_succeed t (?closed s0)
        else storage_task_fail E t (?closed s0\<lparr>world := snd (tdb_transaction_recover E ctx (world (?closed s0)))\<rparr>)) = Inr s'"
    using assms unfolding commit_end_def rw Let_def prod.case by (auto simp: c_bind_eq_Inr)
  have "done_ids s0 = done_ids s" "waiters s0 = waiters s" "next_task s0 = next_task s"
    using first by (auto simp: c_bind_eq_Inr upd_task_Inr same_waiters split: if_splits)
  then show ?thesis using second by (auto simp: completes_def split: if_splits dest!: completing)
qed

lemma commit_tail_result:
  assumes "commit_tail E depth ctx hk t b s = Inr s'"
  obtains s1 where "completes t s s1" "s' = s1 \<or>
    (\<exists>m' commits. txn_commits s1 = m' # commits \<and> handle_txn_commit E depth m' (s1\<lparr>txn_commits := commits\<rparr>) = Inr s')"
proof -
  obtain s1 where "commit_end E ctx hk t b s = Inr s1" and rest: "(case txn_commits s1 of [] \<Rightarrow> Inr s1
      | m' # commits \<Rightarrow> handle_txn_commit E depth m' (s1\<lparr>txn_commits := commits\<rparr>)) = Inr s'"
    using assms by (auto simp: commit_tail_eq c_bind_eq_Inr)
  then have "completes t s s1" by (intro commit_end_completes)
  then show ?thesis by (rule that) (use rest in \<open>auto split: list.splits\<close>)
qed

text \<open>Whatever a handler of the exclusive port does, with all the commits behind it.\<close>

lemma simple_grows:
  assumes "catalina_storage_ex_handle_message E depth m s = Inr s'"
    and "what m = MESSAGE_TXN_COMMIT \<Longrightarrow> handle_txn_commit E depth m s = Inr s' \<Longrightarrow> grows s s'"
  shows "grows s s'"
  using assms handle_set_grows [of E m s s'] handle_open_completes [of E m s s'] handler_completes [where m = m and s = s and s' = s' and E = E]
  by (cases "what m") (auto simp: catalina_storage_ex_handle_message.simps completes_grows(1))

lemma run_msgs_grows:
  fixes s :: "('o, 'w) storage"
  assumes "\<And>m (s :: ('o, 'w) storage) s'. handle_txn_commit E depth m s = Inr s' \<Longrightarrow> grows s s'"
  shows "run_msgs E depth hk ct ms s = Inr (b, s') \<Longrightarrow> grows s s'"
proof (induction ms arbitrary: s)
  case (Cons m ms)
  then obtain s1 where s1: "catalina_storage_ex_handle_message E depth m s = Inr s1" by (auto simp: c_bind_eq_Inr)
  then have g: "grows s s1" by (rule simple_grows) (erule assms)
  show ?case
    using Cons.prems s1 grows_trans [OF g] Cons.IH [of s1] take_txn_error_grows [of hk ct _ _ s1]
    by (fastforce simp: c_bind_eq_Inr split: option.splits)
qed simp

lemma handle_txn_commit_grows: "handle_txn_commit E depth m s = Inr s' \<Longrightarrow> grows s s'"
proof (induction depth arbitrary: m s s')
  case 0
  then show ?case by (simp add: handle_txn_commit.simps)
next
  case (Suc depth)
  show ?case
  proof (cases "what m = MESSAGE_TXN_COMMIT")
    case True
    from Suc.prems True show ?thesis
    proof (cases rule: commit_cases)
      case aside
      then show ?thesis by (simp add: grows_def)
    next
      case (refused i w e)
      then show ?thesis by (auto simp: grows_def completes_def dest!: completing)
    next
      case (run i w hk ctx b s2)
      have "grows s s2"
        using run(1) run_msgs_grows [OF Suc.IH]
        by (fastforce simp: txn_state_run.simps Let_def grows_def split: option.splits)
      moreover have "grows s2 s'"
        using run(2)
      proof (rule commit_tail_result)
        fix s3 assume "completes (message_task m) s2 s3" "s' = s3 \<or> (\<exists>m' commits. txn_commits s3 = m' # commits \<and>
            handle_txn_commit E depth m' (s3\<lparr>txn_commits := commits\<rparr>) = Inr s')"
        then show ?thesis
          using completes_grows(1) Suc.IH by (fastforce simp: grows_def)
      qed
      ultimately show ?thesis by (rule grows_trans)
    qed
  qed (use Suc.prems in \<open>simp add: handle_txn_commit.simps\<close>)
qed

lemma exclusive_grows: "catalina_storage_ex_handle_message E depth m s = Inr s' \<Longrightarrow> grows s s'"
  by (rule simple_grows) (auto intro: handle_txn_commit_grows)

lemma concurrent_grows:
  assumes "catalina_storage_cn_handle_message E m s = Inr s'"
  shows "grows s s'"
proof -
  have "\<exists>k. tasks s (message_task m) = Some k" if "handle_get E m s = Inr s'" "what m = MESSAGE_GET"
    using that by (cases "tasks s (message_task m)")
      (auto simp: handle_get_def handler_simps fail_with_def get_task_def split: option.splits)
  then show ?thesis
    using assms handle_get_completes [of E m s s'] handler_completes(4) [of E m s s']
    by (cases "what m") (auto simp: catalina_storage_cn_handle_message_def completes_grows(1))
qed

end
