(* ===== verification/Storage_Chains.thy ===== *)
theory Storage_Chains
  imports Storage_Frames
begin

text \<open>
  The tasks that are chained behind another one. An asynchronous request for a typed value has a
  task of its own, the outer one, which no message carries: it is completed by the callback of
  the library that waits for the raw request, the inner task. As long as the inner task is
  there, the outer one is in the hands of that callback, which the invariant counts like a
  message being handled: \<open>outers\<close> are these messages, of a kind no handler knows.
\<close>

section \<open>Outer tasks\<close>

fun outer_of :: "waiter \<Rightarrow> nat option" where
  "outer_of (Async_Result (Get_Value_Async_Cb outer) tag) = Some outer"
| "outer_of (Async_Result (Set_Value_Async_Cb outer) tag) = Some outer"
| "outer_of w = None"

definition held :: "waiter option \<Rightarrow> message list" where
  "held w = (case Option.bind w outer_of of None \<Rightarrow> [] | Some outer \<Rightarrow> [Message MESSAGE_0 outer])"

lemma held_simps [simp]:
  "held None = []" "outer_of w = None \<Longrightarrow> held (Some w) = []"
  "outer_of w = Some outer \<Longrightarrow> held (Some w) = [Message MESSAGE_0 outer]"
  by (simp_all add: held_def)

definition outers :: "('o, 'w) storage \<Rightarrow> message multiset" where
  "outers s = mset (concat (map (\<lambda>t. held (waiters s t)) [0..<next_task s]))"

lemma outers_cong: "waiters s' = waiters s \<Longrightarrow> next_task s' = next_task s \<Longrightarrow> outers s' = outers s"
  by (simp add: outers_def)

lemma outers_new:
  assumes "waiters s' = (waiters s)(next_task s \<mapsto> w)" "next_task s' = Suc (next_task s)"
  shows "outers s' = mset (held (Some w)) + outers s"
proof -
  have old: "map (\<lambda>t. held (waiters s' t)) [0..<next_task s] = map (\<lambda>t. held (waiters s t)) [0..<next_task s]"
    by (simp add: assms(1))
  have new: "waiters s' (next_task s) = Some w" by (simp add: assms(1))
  show ?thesis unfolding outers_def assms(2) upt_Suc by (simp add: old new)
qed

lemma mset_concat_upd:
  assumes "distinct xs" "t \<in> set xs"
  shows "mset (concat (map f xs)) = mset (f t) + mset (concat (map (f(t := [])) xs))"
proof -
  obtain ys zs where xs: "xs = ys @ t # zs" using split_list [OF assms(2)] by blast
  have same: "map (f(t := [])) ys = map f ys" "map (f(t := [])) zs = map f zs" using assms(1) xs by auto
  show ?thesis unfolding xs map_append list.map same by simp
qed

lemma outers_freed:
  assumes "waiters s' = (waiters s)(t := None)" "next_task s' = next_task s" "t < next_task s"
  shows "outers s = mset (held (waiters s t)) + outers s'"
proof -
  have "(\<lambda>u. held (waiters s' u)) = (\<lambda>u. held (waiters s u))(t := [])" using assms(1) by auto
  then show ?thesis
    unfolding outers_def assms(2) using mset_concat_upd [of "[0..<next_task s]" t "\<lambda>u. held (waiters s u)"] assms(3)
    by simp
qed

text \<open>The callbacks of the library are registered with the tag of the request behind them.\<close>

fun tag_fits :: "waiter \<Rightarrow> bool" where
  "tag_fits (Async_Result (Get_Value_Async_Cb outer) tag) = (tag = Tag_Get)"
| "tag_fits (Async_Result (Set_Value_Async_Cb outer) tag) = (tag = Tag_Set)"
| "tag_fits w = True"

definition linked :: "('o, 'w) storage \<Rightarrow> bool" where
  "linked s \<longleftrightarrow> idle_ok (outers s) s \<and> (\<forall>t w. waiters s t = Some w \<longrightarrow> tag_fits w)"

section \<open>The invariant and messages in other hands\<close>

lemma idle_mono: "idle_ok M s \<Longrightarrow> M' \<subseteq># M \<Longrightarrow> idle_ok M' s"
  by (auto simp: idle_ok_def intro: ok_mono)

lemma idle_drop: "idle_ok (add_mset m M) s \<Longrightarrow> idle_ok M s"
  by (rule idle_mono [of "add_mset m M"]) simp_all

lemma idle_commit:
  "idle_ok (add_mset m M) s \<Longrightarrow> what m = MESSAGE_TXN_COMMIT \<Longrightarrow> result_ok (idle_ok M) (handle_txn_commit E depth m s)"
  by (rule handle_txn_commit_ok) (simp_all add: idle_ok_def)

lemma ex_handle_message_ok:
  assumes "idle_ok (add_mset m M) s"
  shows "result_ok (idle_ok M) (catalina_storage_ex_handle_message E depth m s)"
  using handlers_ok [OF assms] idle_commit [OF assms] idle_drop [OF assms]
  by (cases "what m") (simp_all add: catalina_storage_ex_handle_message.simps)

lemma cn_handle_message_ok:
  assumes "idle_ok (add_mset m M) s"
  shows "result_ok (idle_ok M) (catalina_storage_cn_handle_message E m s)"
  using handlers_ok(6,7) [OF assms] idle_drop [OF assms]
  by (cases "what m") (simp_all add: catalina_storage_cn_handle_message_def)

lemma machine_idle: "machine_ok s = idle_ok {#} s"
  by (simp add: machine_ok_def idle_ok_def)

lemma linked_machine: "linked s \<Longrightarrow> machine_ok s"
  unfolding machine_idle linked_def by (blast intro: idle_mono empty_le)

text \<open>Taking a message off a port puts it into the hands of its handler.\<close>

lemma idle_take:
  assumes "idle_ok M s"
  shows "m \<in> set (ex_port s) \<Longrightarrow> idle_ok (add_mset m M) (s\<lparr>ex_port := remove1 m (ex_port s)\<rparr>)"
    and "m \<in> set (cn_port s) \<Longrightarrow> idle_ok (add_mset m M) (s\<lparr>cn_port := remove1 m (cn_port s)\<rparr>)"
proof -
  have move: "idle_ok (add_mset m M) s'"
    if p: "add_mset m (parts {} s') = parts {} s" and same: "tasks s' = tasks s" "done_ids s' = done_ids s"
      "next_task s' = next_task s" "txn_states s' = txn_states s" "txn_commits s' = txn_commits s"
      "db_ctx s' = db_ctx s" "txn s' = txn s" "storage_transform s' = storage_transform s" for s'
  proof -
    have e: "add_mset m M + parts {} s' = M + parts {} s" using p by simp
    show ?thesis
      using assms same unfolding idle_ok_def ok_def e sound_cong [OF same(2,1)]
      by (simp add: commits_nonzero_def fresh_tasks_def sets_only_def
          commits_only_def closed_is_idle_def transform_honest_def)
  qed
  show "idle_ok (add_mset m M) (s\<lparr>ex_port := remove1 m (ex_port s)\<rparr>)" if "m \<in> set (ex_port s)"
    using that by (intro move) (simp_all add: parts_def queued_def done_ids_def)
  show "idle_ok (add_mset m M) (s\<lparr>cn_port := remove1 m (cn_port s)\<rparr>)" if "m \<in> set (cn_port s)"
    using that by (intro move) (simp_all add: parts_def queued_def done_ids_def)
qed

text \<open>What only changes the settings, or the content of a task but not its transaction.\<close>

lemma idle_settings:
  assumes "idle_ok M s"
  shows "idle_ok M (s\<lparr>use_idle := b\<rparr>)" "idle_ok M (s\<lparr>storage_formatter := F\<rparr>)" "idle_ok M (s\<lparr>flags := f\<rparr>)"
    "(\<And>U p n e. T = Some U \<Longrightarrow> catalina_transform_read U p n = Inl e \<or> catalina_transform_write U p n = Inl e \<Longrightarrow> benign e)
      \<Longrightarrow> idle_ok M (s\<lparr>storage_transform := T\<rparr>)"
  using assms
  by (auto simp: idle_ok_def ok_def sound_def commits_nonzero_def fresh_tasks_def sets_only_def commits_only_def
      closed_is_idle_def transform_honest_def parts_def queued_def done_ids_def)

lemma idle_task:
  assumes "idle_ok M s" "tasks s t = Some k" "task_txn_id k' = task_txn_id k"
  shows "idle_ok M (s\<lparr>tasks := (tasks s)(t \<mapsto> k')\<rparr>)"
  using assms
  by (auto simp: idle_ok_def ok_def sound_def commits_nonzero_def fresh_tasks_def sets_only_def commits_only_def
      closed_is_idle_def transform_honest_def parts_def queued_def done_ids_def)

text \<open>Completing the task of a message in hand.\<close>

lemma completing_idle:
  assumes i: "idle_ok (add_mset m M) s" and w: "what m \<noteq> MESSAGE_TXN_COMMIT"
  shows "result_ok (idle_ok M) (storage_task_succeed (message_task m) s)"
    and "result_ok (idle_ok M) (storage_task_fail E (message_task m) s)"
    and "result_ok (idle_ok M) (fail_with E e (message_task m) s)"
proof -
  have live: "tasks s (message_task m) \<noteq> None" using i ok_live by (fastforce simp: idle_ok_def)
  have c: "control_ok s" "transform_honest s" using i by (simp_all add: idle_ok_def ok_def control_ok_def)
  have done_: "idle_ok M s'" if "effect m s s'" "control_ok s'" "txn s' = txn s" for s'
    using idle_after [OF i that(1) w that(2)] that(3) by blast
  show "result_ok (idle_ok M) (storage_task_succeed (message_task m) s)"
    using live by (intro result_okI done_) (auto simp: succeed_Inl intro: effect_succeed control_succeed c same_txn_complete)
  show "result_ok (idle_ok M) (storage_task_fail E (message_task m) s)"
    using live by (intro result_okI done_) (auto simp: fail_Inl intro: effect_fail control_fail c same_txn_complete)
  show "result_ok (idle_ok M) (fail_with E e (message_task m) s)"
    using live by (intro result_okI done_) (auto simp: fail_with_Inl intro: effect_fail_with control_fail_with c same_txn_complete)
qed

section \<open>Requests and finishes\<close>

lemma with_task_machine [simp]: "done_ids (with_task k s) = done_ids s" "parts K (with_task k s) = parts K s"
  by (simp_all add: done_ids_def parts_def queued_def)

lemma waiters_with_task: "waiters (with_task k s) = (waiters s)(next_task s \<mapsto> task_waiter k)"
  by (auto simp: waiters_def)

text \<open>A new task is in the hands of the code that made it.\<close>

lemma idle_new:
  assumes i: "idle_ok M s" and c: "ty = MESSAGE_TXN_COMMIT \<Longrightarrow> task_txn_id k \<noteq> 0"
  shows "idle_ok (add_mset (Message ty (next_task s)) M) (with_task k s)"
proof -
  let ?t = "next_task s" and ?s = "with_task k s"
  have o: "ok {} M s" using i by (simp add: idle_ok_def)
  have fresh: "tasks s ?t = None" "\<forall>t\<in>set (done_ids s). t < ?t"
    using o by (simp_all add: ok_def fresh_tasks_def)
  have live: "message_task m \<noteq> ?t" if "m \<in># M + parts {} s" for m
    using o that fresh(1) unfolding ok_def sound_def by metis
  have "?t \<notin># image_mset message_task (M + parts {} s) + mset (done_ids s)"
    using live fresh(2) unfolding set_mset_union set_image_mset set_mset_mset by fastforce
  then have one: "count (image_mset message_task (M + parts {} s) + mset (done_ids s)) ?t = 0"
    by (rule count_eq_zero_iff [THEN iffD2])
  have "sound (add_mset (Message ty ?t) (M + parts {} s)) ?s"
    unfolding sound_def
  proof (intro conjI allI ballI)
    show "count (image_mset message_task (add_mset (Message ty ?t) (M + parts {} s)) + mset (done_ids ?s)) t \<le> 1" for t
      using o one by (cases "t = ?t") (auto simp: ok_def sound_def)
    show "tasks ?s (message_task m) \<noteq> None" if "m \<in># add_mset (Message ty ?t) (M + parts {} s)" for m
      using o that by (auto simp: ok_def sound_def)
  qed
  moreover have "commits_nonzero (add_mset (Message ty ?t) (M + parts {} s)) ?s"
    using o c live unfolding commits_nonzero_def by (auto simp: ok_def commits_nonzero_def)
  moreover have "fresh_tasks ?s" using o fresh(2) by (auto simp: ok_def fresh_tasks_def less_Suc_eq)
  ultimately show ?thesis
    using i o
    by (simp add: idle_ok_def ok_def sets_only_def commits_only_def closed_is_idle_def transform_honest_def)
qed

text \<open>A request: a new task, and its message on a port.\<close>

definition requested :: "message_type \<Rightarrow> 'o task \<Rightarrow> ('o, 'w) storage \<Rightarrow> ('o, 'w) storage \<Rightarrow> bool" where
  "requested ty k s s' \<longleftrightarrow>
     s' = post_ex ty (next_task s) (with_task k s) \<or> s' = post_cn ty (next_task s) (with_task k s)"

lemma idle_posted:
  assumes "idle_ok (add_mset (Message ty t) M) s"
  shows "idle_ok M (post_ex ty t s)" "idle_ok M (post_cn ty t s)"
proof -
  have posted: "idle_ok M s'"
    if p: "parts {} s' = add_mset (Message ty t) (parts {} s)" and same: "tasks s' = tasks s" "done_ids s' = done_ids s"
      "next_task s' = next_task s" "txn_states s' = txn_states s" "txn_commits s' = txn_commits s"
      "db_ctx s' = db_ctx s" "txn s' = txn s" "storage_transform s' = storage_transform s" for s'
  proof -
    have e: "M + parts {} s' = add_mset (Message ty t) M + parts {} s" using p by simp
    show ?thesis
      using assms same unfolding idle_ok_def ok_def e sound_cong [OF same(2,1)]
      by (simp add: commits_nonzero_def fresh_tasks_def sets_only_def
          commits_only_def closed_is_idle_def transform_honest_def)
  qed
  show "idle_ok M (post_ex ty t s)" by (rule posted) (simp_all add: post_ex_def parts_def queued_def done_ids_def)
  show "idle_ok M (post_cn ty t s)" by (rule posted) (simp_all add: post_cn_def parts_def queued_def done_ids_def)
qed

lemma requested_idle:
  assumes "idle_ok M s" "requested ty k s s'" "ty = MESSAGE_TXN_COMMIT \<Longrightarrow> task_txn_id k \<noteq> 0"
  shows "idle_ok M s'"
  using assms(2) idle_posted [OF idle_new [OF assms(1,3)]] unfolding requested_def by blast

lemma requested_waiters:
  "requested ty k s s' \<Longrightarrow> waiters s' = (waiters s)(next_task s \<mapsto> task_waiter k) \<and> next_task s' = Suc (next_task s)"
  by (auto simp: requested_def post_ex_def post_cn_def waiters_with_task)

text \<open>A finish frees a completed task, or leaves it.\<close>

definition finished :: "nat \<Rightarrow> ('o, 'w) storage \<Rightarrow> ('o, 'w) storage \<Rightarrow> bool" where
  "finished t s s' \<longleftrightarrow> s' = s \<or> (\<exists>f. s' = s\<lparr>flags := f, tasks := (tasks s)(t := None)\<rparr>)"

lemma done_not_queued:
  assumes "ok {} M s" "t \<in> set (done_ids s)" "m \<in># M + parts {} s"
  shows "message_task m \<noteq> t"
proof
  assume e: "message_task m = t"
  have "count (image_mset message_task (M + parts {} s) + mset (done_ids s)) t \<le> 1"
    using assms(1) unfolding ok_def sound_def by blast
  moreover have "0 < count (image_mset message_task (M + parts {} s)) t" "0 < count (mset (done_ids s)) t"
    unfolding count_greater_zero_iff set_image_mset set_mset_mset using assms(2,3) e by blast+
  ultimately show False unfolding count_union by linarith
qed

lemma freed_idle:
  assumes i: "idle_ok M s" and d: "t \<in> set (done_ids s)"
  shows "idle_ok M (s\<lparr>tasks := (tasks s)(t := None)\<rparr>)"
proof -
  let ?s = "s\<lparr>tasks := (tasks s)(t := None)\<rparr>"
  have o: "ok {} M s" using i by (simp add: idle_ok_def)
  have p: "parts {} ?s = parts {} s" "done_ids ?s = done_ids s"
    by (simp_all add: parts_def queued_def done_ids_def)
  have t: "tasks ?s (message_task m) = tasks s (message_task m)" if "m \<in># M + parts {} s" for m
    using done_not_queued [OF o d that] by simp
  have "sound (M + parts {} s) s" "commits_nonzero (M + parts {} s) s" using o by (simp_all add: ok_def)
  then have "sound (M + parts {} ?s) ?s" "commits_nonzero (M + parts {} ?s) ?s"
    unfolding sound_def commits_nonzero_def p using t by (simp_all del: fun_upd_apply)
  moreover have "fresh_tasks ?s" "sets_only ?s" "commits_only ?s" "closed_is_idle ?s" "transform_honest ?s"
    using o p(2) by (simp_all add: ok_def fresh_tasks_def sets_only_def commits_only_def closed_is_idle_def transform_honest_def)
  ultimately show ?thesis using i by (simp add: idle_ok_def ok_def)
qed

lemma finished_idle:
  assumes "idle_ok M s" "finished t s s'" "t \<in> set (done_ids s)"
  shows "idle_ok M s'"
  using assms(2) freed_idle [OF idle_settings(3) [OF assms(1)]] assms(1,3)
  by (auto simp: finished_def done_ids_def)

section \<open>The library's callbacks\<close>

text \<open>A formatter that does not reach for freed memory.\<close>

definition formatter_honest :: "('o, 'w) storage \<Rightarrow> bool" where
  "formatter_honest s \<longleftrightarrow> (\<forall>F v p n e. storage_formatter s = Some F \<longrightarrow>
     catalina_formatter_deserialize F v p n = Inl e \<longrightarrow> benign e)"

text \<open>In a callback: the inner task is gone, the outer one is in hand.\<close>

definition in_callback :: "nat \<Rightarrow> ('o, 'w) storage \<Rightarrow> bool" where
  "in_callback outer s \<longleftrightarrow> idle_ok (add_mset (Message MESSAGE_0 outer) (outers s)) s \<and>
     (\<forall>t w. waiters s t = Some w \<longrightarrow> tag_fits w)"

lemma in_callback_live: "in_callback outer s \<Longrightarrow> \<exists>k. tasks s outer = Some k"
  unfolding in_callback_def idle_ok_def using ok_live by fastforce

lemma in_callback_upd:
  assumes "in_callback outer s" "tasks s t = Some k" "task_waiter k' = task_waiter k" "task_txn_id k' = task_txn_id k"
  shows "in_callback outer (s\<lparr>tasks := (tasks s)(t \<mapsto> k')\<rparr>)"
proof -
  let ?s = "s\<lparr>tasks := (tasks s)(t \<mapsto> k')\<rparr>"
  have w: "waiters ?s = waiters s" using assms(2,3) by (auto simp: same_waiters)
  then have o: "outers ?s = outers s" by (rule outers_cong) simp
  show ?thesis using assms(1) idle_task [OF _ assms(2,4)] unfolding in_callback_def w o by blast
qed

lemma completed_linked:
  assumes "in_callback outer s" "completes outer s s'" "idle_ok (outers s) s'"
  shows "linked s'"
proof -
  have w: "waiters s' = waiters s" "next_task s' = next_task s" using assms(2) by (simp_all add: completes_def)
  show ?thesis using assms(1,3) unfolding linked_def in_callback_def outers_cong [OF w] w by blast
qed

lemma callback_ends:
  assumes c: "in_callback outer s"
  shows "result_ok linked (storage_task_succeed outer s)" "result_ok linked (storage_task_fail E outer s)"
    "result_ok linked (fail_with E e outer s)"
proof -
  have i: "idle_ok (add_mset (Message MESSAGE_0 outer) (outers s)) s" using c by (simp add: in_callback_def)
  have ends: "result_ok linked r" if "result_ok (idle_ok (outers s)) r" "\<And>s'. r = Inr s' \<Longrightarrow> completes outer s s'" for r
    using that completed_linked [OF c] by (cases r) auto
  show "result_ok linked (storage_task_succeed outer s)"
    using completing_idle(1) [OF i] completing(1) by (intro ends) auto
  show "result_ok linked (storage_task_fail E outer s)"
    using completing_idle(2) [OF i, of E] completing(2) by (intro ends) auto
  show "result_ok linked (fail_with E e outer s)"
    using completing_idle(3) [OF i, of E e] completing(3) by (intro ends) auto
qed

lemma inner_freed:
  assumes l: "linked s" and t: "t \<in> set (done_ids s)" and k: "tasks s t = Some k" "outer_of (task_waiter k) = Some outer"
  defines "s1 \<equiv> s\<lparr>tasks := (tasks s)(t := None)\<rparr>"
  shows "in_callback outer s1" "tasks s1 outer = tasks s outer" "tag_fits (task_waiter k)"
proof -
  have i: "idle_ok (outers s) s" using l by (simp add: linked_def)
  have "t < next_task s" using i t by (simp add: idle_ok_def ok_def fresh_tasks_def)
  moreover have w: "waiters s1 = (waiters s)(t := None)" by (auto simp: s1_def waiters_def)
  ultimately have "outers s = mset (held (waiters s t)) + outers s1" by (intro outers_freed) (simp_all add: s1_def)
  then have o: "outers s = add_mset (Message MESSAGE_0 outer) (outers s1)" using k by (simp add: waiters_def)
  show "in_callback outer s1"
    using freed_idle [OF i t] l o w by (auto simp: in_callback_def linked_def s1_def split: if_splits)
  then have "outer \<noteq> t" using in_callback_live [of outer s1] by (auto simp: s1_def)
  then show "tasks s1 outer = tasks s outer" by (simp add: s1_def)
  show "tag_fits (task_waiter k)" using l waiters_at [OF k(1)] by (simp add: linked_def)
qed

lemma get_finish_frees:
  assumes "tasks s t = Some k" "result_is_valid Tag_Get k"
  shows "\<exists>x. catalina_storage_get_finish t old error s = Inr (x, s\<lparr>tasks := (tasks s)(t := None)\<rparr>)"
  using assms by (simp add: catalina_storage_get_finish_def storage_task_free_def Let_def)

lemma set_finish_frees:
  assumes "tasks s t = Some k" "result_is_valid Tag_Set k"
  shows "\<exists>x. catalina_storage_set_finish t error s = Inr (x, s\<lparr>tasks := (tasks s)(t := None)\<rparr>)"
  using assms by (simp add: catalina_storage_set_finish_def storage_task_free_def Let_def)

lemma result_ok_upd:
  assumes "in_callback outer s" "\<And>k. task_waiter (f k) = task_waiter k \<and> task_txn_id (f k) = task_txn_id k"
    and "\<And>s'. in_callback outer s' \<Longrightarrow> storage_formatter s' = storage_formatter s \<Longrightarrow> result_ok linked (g s')"
  shows "result_ok linked (c_bind (upd_task outer f s) g)"
proof -
  obtain k where k: "tasks s outer = Some k" using in_callback_live [OF assms(1)] by blast
  show ?thesis using assms(2) in_callback_upd [OF assms(1) k, of "f k"] assms(3) by (simp add: upd_task_Some [OF k])
qed

text \<open>The state in which the callbacks go on once they have finished the raw request.\<close>

definition callback_state :: "nat \<Rightarrow> nat \<Rightarrow> ('o, 'w) storage \<Rightarrow> ('o, 'w) storage \<Rightarrow> bool" where
  "callback_state t outer s s2 \<longleftrightarrow> in_callback outer s2 \<and> storage_formatter s2 = storage_formatter s \<and>
     waiters s2 = (waiters s)(t := None) \<and> next_task s2 = next_task s \<and> done_ids s2 = done_ids s"

lemma callback_stateI:
  fixes s :: "('o, 'w) storage" and t :: nat
  defines "s1 \<equiv> s\<lparr>tasks := (tasks s)(t := None)\<rparr>"
  assumes "in_callback outer s1" "tasks s1 outer = Some k" "task_waiter k' = task_waiter k" "task_txn_id k' = task_txn_id k"
  shows "callback_state t outer s (s1\<lparr>tasks := (tasks s1)(outer \<mapsto> k')\<rparr>)"
  using in_callback_upd [OF assms(2-)] assms(3,4)
  by (auto simp: callback_state_def done_ids_def waiters_def s1_def split: if_splits)

lemma set_value_async_cb_eq:
  assumes "linked s" "t \<in> set (done_ids s)" "tasks s t = Some k" "task_waiter k = Async_Result (Set_Value_Async_Cb outer) tag"
  obtains s2 success where "callback_state t outer s s2" "catalina_storage_set_value_async_cb E t outer s =
    (if success then storage_task_succeed outer s2 else storage_task_fail E outer s2)"
proof -
  have o: "outer_of (task_waiter k) = Some outer" using assms(4) by simp
  note inner = inner_freed [OF assms(1-3) o]
  have v: "result_is_valid Tag_Set k" using inner(3) assms(4) by (simp add: result_is_valid_def)
  let ?s1 = "s\<lparr>tasks := (tasks s)(t := None)\<rparr>"
  obtain k1 where k1: "tasks s outer = Some k1" "tasks ?s1 outer = Some k1"
    using in_callback_live [OF inner(1)] inner(2) by auto
  obtain success er where f: "catalina_storage_set_finish t (Some (task_error k1)) s = Inr ((success, er), ?s1)"
    using set_finish_frees [OF assms(3) v] by (metis prod.collapse)
  let ?k2 = "k1\<lparr>task_error := (case er of None \<Rightarrow> None | Some e \<Rightarrow> e)\<rparr>"
  show ?thesis
  proof (rule that)
    show "callback_state t outer s (?s1\<lparr>tasks := (tasks ?s1)(outer \<mapsto> ?k2)\<rparr>)"
      by (rule callback_stateI [OF inner(1) k1(2)]) simp_all
    show "catalina_storage_set_value_async_cb E t outer s =
      (if success then storage_task_succeed outer (?s1\<lparr>tasks := (tasks ?s1)(outer \<mapsto> ?k2)\<rparr>)
       else storage_task_fail E outer (?s1\<lparr>tasks := (tasks ?s1)(outer \<mapsto> ?k2)\<rparr>))"
      using f upd_task_Some [OF k1(2)] k1(1) by (simp add: catalina_storage_set_value_async_cb_def get_task_def)
  qed
qed

lemma get_value_async_cb_eq:
  assumes "linked s" "t \<in> set (done_ids s)" "tasks s t = Some k" "task_waiter k = Async_Result (Get_Value_Async_Cb outer) tag"
  obtains s2 success buffer len v0 where "callback_state t outer s s2"
    "catalina_storage_get_value_async_cb E t outer s =
     (if \<not> success then storage_task_fail E outer s2
      else case storage_formatter s of
        None \<Rightarrow> fail_with E STORAGE_ERROR_STATE outer s2
      | Some F \<Rightarrow> c_bind (catalina_formatter_deserialize F (Some (v0)) (block buffer) len) (\<lambda>(ok, v, e).
          c_bind (upd_task outer (\<lambda>k. (case e of None \<Rightarrow> k | Some e \<Rightarrow> task_set_error (FORMATTER_ERROR e) k)
              \<lparr>task_value := (case v of None \<Rightarrow> v0 | Some v \<Rightarrow> v)\<rparr>) s2) (\<lambda>s.
          if ok then storage_task_succeed outer s else storage_task_fail E outer s)))"
proof -
  have o: "outer_of (task_waiter k) = Some outer" using assms(4) by simp
  note inner = inner_freed [OF assms(1-3) o]
  have v: "result_is_valid Tag_Get k" using inner(3) assms(4) by (simp add: result_is_valid_def)
  let ?s1 = "s\<lparr>tasks := (tasks s)(t := None)\<rparr>"
  obtain k1 where k1: "tasks s outer = Some k1" "tasks ?s1 outer = Some k1"
    using in_callback_live [OF inner(1)] inner(2) by auto
  obtain success buffer len er where f: "catalina_storage_get_finish t (None, 0) (Some (task_error k1)) s =
      Inr (((success, buffer, len), er), ?s1)"
    using get_finish_frees [OF assms(3) v] by (metis prod.collapse)
  let ?k2 = "k1\<lparr>task_error := (case er of None \<Rightarrow> None | Some e \<Rightarrow> e)\<rparr>"
  have s2: "callback_state t outer s (?s1\<lparr>tasks := (tasks ?s1)(outer \<mapsto> ?k2)\<rparr>)"
    by (rule callback_stateI [OF inner(1) k1(2)]) simp_all
  show ?thesis
    by (rule that [OF s2, of success "task_value k1" buffer len])
      (use f upd_task_Some [OF k1(2)] k1(1) in \<open>simp add: catalina_storage_get_value_async_cb_def get_task_def split: option.split\<close>)
qed

lemma call_back_eq:
  assumes "tasks s t = Some k"
  shows "task_waiter k = Async_Result (Get_Value_Async_Cb outer) tag \<Longrightarrow>
      call_back E t s = catalina_storage_get_value_async_cb E t outer s"
    and "task_waiter k = Async_Result (Set_Value_Async_Cb outer) tag \<Longrightarrow>
      call_back E t s = catalina_storage_set_value_async_cb E t outer s"
    and "outer_of (task_waiter k) = None \<Longrightarrow> call_back E t s = Inr s"
  using assms by (auto simp: call_back_def get_task_def split: waiter.split callback.split)

lemma outer_of_cases:
  assumes "outer_of w = Some outer"
  obtains (get) tag where "w = Async_Result (Get_Value_Async_Cb outer) tag"
    | (set) tag where "w = Async_Result (Set_Value_Async_Cb outer) tag"
  using assms by (cases w rule: outer_of.cases) auto

lemma call_back_ok:
  assumes "linked s" "t \<in> set (done_ids s)" "tasks s t \<noteq> None"
    and h: "formatter_honest s \<or> (\<exists>s'. call_back E t s = Inr s')"
  shows "result_ok linked (call_back E t s)"
proof -
  obtain k where k: "tasks s t = Some k" using assms(3) by blast
  show ?thesis
  proof (cases "outer_of (task_waiter k)")
    case None
    then show ?thesis using assms(1) call_back_eq(3) [OF k] by simp
  next
    case (Some outer)
    then show ?thesis
    proof (cases rule: outer_of_cases)
      case (set tag)
      obtain s2 success where s2: "callback_state t outer s s2" "catalina_storage_set_value_async_cb E t outer s =
          (if success then storage_task_succeed outer s2 else storage_task_fail E outer s2)"
        using set_value_async_cb_eq [OF assms(1,2) k set] by metis
      then show ?thesis
        unfolding call_back_eq(2) [OF k set] using callback_ends [of outer s2] by (simp add: callback_state_def)
    next
      case (get tag)
      note call = call_back_eq(1) [OF k get, of E]
      show ?thesis
        using assms(1,2) k get
      proof (rule get_value_async_cb_eq [where E = E])
        fix s2 success buffer len v0
        assume s2: "callback_state t outer s s2" and cb: "catalina_storage_get_value_async_cb E t outer s =
         (if \<not> success then storage_task_fail E outer s2
          else case storage_formatter s of
            None \<Rightarrow> fail_with E STORAGE_ERROR_STATE outer s2
          | Some F \<Rightarrow> c_bind (catalina_formatter_deserialize F (Some (v0)) (block buffer) len) (\<lambda>(ok, v, e).
              c_bind (upd_task outer (\<lambda>k. (case e of None \<Rightarrow> k | Some e \<Rightarrow> task_set_error (FORMATTER_ERROR e) k)
                  \<lparr>task_value := (case v of None \<Rightarrow> v0 | Some v \<Rightarrow> v)\<rparr>) s2) (\<lambda>s.
              if ok then storage_task_succeed outer s else storage_task_fail E outer s)))"
        have c: "in_callback outer s2" using s2 by (simp add: callback_state_def)
        show ?thesis
        proof (cases "success \<and> storage_formatter s \<noteq> None")
          case False
          then show ?thesis unfolding call cb using callback_ends [OF c] by auto
        next
          case True
          then obtain F where F: "storage_formatter s = Some F" by blast
          show ?thesis
          proof (cases "catalina_formatter_deserialize F (Some (v0)) (block buffer) len")
            case (Inl e)
            then have "call_back E t s = Inl e" using True F by (simp add: cb call)
            then show ?thesis using h Inl F by (auto simp: formatter_honest_def)
          next
            case (Inr x)
            then show ?thesis
              unfolding call cb using True F
              by (cases x) (auto intro!: result_ok_upd [OF c] callback_ends split: option.split)
          qed
        qed
      qed
    qed
  qed
qed

text \<open>A callback that returns has completed the outer task, and the inner one is gone.\<close>

lemma call_back_completes:
  assumes "linked s" "t \<in> set (done_ids s)" "tasks s t = Some k" "outer_of (task_waiter k) = Some outer"
    and r: "call_back E t s = Inr s'"
  shows "done_ids s' = done_ids s @ [outer] \<and> waiters s' = (waiters s)(t := None)"
proof -
  have done_: "done_ids s' = done_ids s @ [outer] \<and> waiters s' = (waiters s)(t := None)"
    if "callback_state t outer s s2" "completes outer s3 s'" "waiters s3 = waiters s2" "done_ids s3 = done_ids s2" for s2 s3
    using that by (simp add: callback_state_def completes_def)
  show ?thesis
    using assms(4)
  proof (cases rule: outer_of_cases)
    case (set tag)
    obtain s2 success where s2: "callback_state t outer s s2" "catalina_storage_set_value_async_cb E t outer s =
        (if success then storage_task_succeed outer s2 else storage_task_fail E outer s2)"
      using set_value_async_cb_eq [OF assms(1-3) set] by metis
    then have "completes outer s2 s'"
      using r completing [where t = outer and s = s2 and s' = s'] unfolding call_back_eq(2) [OF assms(3) set] by (simp split: if_splits)
    then show ?thesis using done_ [OF s2(1)] by blast
  next
    case (get tag)
    show ?thesis
      using assms(1-3) get
    proof (rule get_value_async_cb_eq [where E = E])
      fix s2 success buffer len v0
      assume s2: "callback_state t outer s s2" and cb: "catalina_storage_get_value_async_cb E t outer s =
         (if \<not> success then storage_task_fail E outer s2
          else case storage_formatter s of
            None \<Rightarrow> fail_with E STORAGE_ERROR_STATE outer s2
          | Some F \<Rightarrow> c_bind (catalina_formatter_deserialize F (Some (v0)) (block buffer) len) (\<lambda>(ok, v, e).
              c_bind (upd_task outer (\<lambda>k. (case e of None \<Rightarrow> k | Some e \<Rightarrow> task_set_error (FORMATTER_ERROR e) k)
                  \<lparr>task_value := (case v of None \<Rightarrow> v0 | Some v \<Rightarrow> v)\<rparr>) s2) (\<lambda>s.
              if ok then storage_task_succeed outer s else storage_task_fail E outer s)))"
      note r' = r [unfolded call_back_eq(1) [OF assms(3) get] cb]
      have "\<exists>s3. completes outer s3 s' \<and> waiters s3 = waiters s2 \<and> done_ids s3 = done_ids s2"
      proof (cases "success \<and> storage_formatter s \<noteq> None")
        case False
        then have "completes outer s2 s'" using r' by (auto intro: completing split: if_splits)
        then show ?thesis by blast
      next
        case True
        then obtain F where F: "storage_formatter s = Some F" by blast
        obtain ok v e where "catalina_formatter_deserialize F (Some (v0)) (block buffer) len = Inr (ok, v, e)"
          using r' True F by (auto simp: c_bind_eq_Inr)
        then obtain s3 where s3: "upd_task outer (\<lambda>k. (case e of None \<Rightarrow> k | Some e \<Rightarrow> task_set_error (FORMATTER_ERROR e) k)
              \<lparr>task_value := (case v of None \<Rightarrow> v0 | Some v \<Rightarrow> v)\<rparr>) s2 = Inr s3"
          "(if ok then storage_task_succeed outer s3 else storage_task_fail E outer s3) = Inr s'"
          using r' True F by (auto simp: c_bind_eq_Inr)
        have "completes outer s3 s'" using s3(2) by (auto split: if_splits intro: completing)
        moreover have "waiters s3 = waiters s2" "done_ids s3 = done_ids s2"
          using s3(1) by (auto simp: upd_task_Inr same_waiters done_ids_def split: option.split)
        ultimately show ?thesis by blast
      qed
      then show ?thesis using done_ [OF s2] by blast
    qed
  qed
qed

end
