(* ===== verification/Storage_Steps.thy ===== *)
theory Storage_Steps
  imports Storage_Chains
begin

text \<open>
  The runs of a storage. A step delivers a message waiting on one of the two ports, or is a
  call of the application: a request, a change of the configuration, or the finish of a
  request whose task is completed; or it is the main loop calling the callback of a completed
  task. Any waiting message may be delivered next, and any callback called next, so what holds
  of every run holds for whatever order the schedulers pick.

  Application code is held to three rules the library does not check: it finishes completed
  requests of its own only, it does not ask to commit transaction 0, and its callbacks are not
  those of the library.
\<close>

section \<open>Requests and finishes of the application\<close>

text \<open>A completed request that is not the inner one of a typed request.\<close>

definition ready :: "nat \<Rightarrow> ('o, 'w) storage \<Rightarrow> bool" where
  "ready t s \<longleftrightarrow> t \<in> set (done_ids s) \<and> (\<forall>k. tasks s t = Some k \<longrightarrow> outer_of (task_waiter k) = None)"

lemma bind_task_free: "c_bind (storage_task_free t s) f = Inr x \<longleftrightarrow>
   tasks s t \<noteq> None \<and> f (s\<lparr>tasks := (tasks s)(t := None)\<rparr>) = Inr x"
  by (auto simp: storage_task_free_def get_task_def split: option.split)

lemma tasks_upd_same [simp]: "s\<lparr>flags := flags s, tasks := f\<rparr> = s\<lparr>tasks := f\<rparr>"
  by simp

lemma finishedI: "finished t s s" "finished t s (s\<lparr>tasks := (tasks s)(t := None)\<rparr>)"
  "finished t s (s\<lparr>flags := f, tasks := (tasks s)(t := None)\<rparr>)"
  by (auto simp: finished_def) (metis storage.surjective storage.update_convs(3))

lemmas finish_simps = c_bind_eq_Inr bind_task_free get_task_Inr Let_def storage_task_wait_def wait_and_free_def

text \<open>Every finish frees a task at most.\<close>

lemma finishes:
  "catalina_storage_open_finish t e s = Inr (r1, s') \<Longrightarrow> finished t s s'"
  "catalina_storage_close_finish t e s = Inr (r1, s') \<Longrightarrow> finished t s s'"
  "catalina_storage_get_finish t v e s = Inr (r2, s') \<Longrightarrow> finished t s s'"
  "catalina_storage_set_finish t e s = Inr (r1, s') \<Longrightarrow> finished t s s'"
  "catalina_storage_transaction_begin_finish t s = Inr (i, s') \<Longrightarrow> finished t s s'"
  "catalina_storage_transaction_commit_finish t e s = Inr (r1, s') \<Longrightarrow> finished t s s'"
  "catalina_storage_transaction_cancel_finish t s = Inr s' \<Longrightarrow> finished t s s'"
  "catalina_storage_open_return t s = Inr (r3, s') \<Longrightarrow> finished t s s'"
  "catalina_storage_close_return t s = Inr (r3, s') \<Longrightarrow> finished t s s'"
  "catalina_storage_get_return t v s = Inr (r4, s') \<Longrightarrow> finished t s s'"
  "catalina_storage_set_return t s = Inr (r3, s') \<Longrightarrow> finished t s s'"
  "catalina_storage_count_keys_return t s = Inr (n, s') \<Longrightarrow> finished t s s'"
  "catalina_storage_get_value_finish t gv e s = Inr (r5, s') \<Longrightarrow> finished t s s'"
  "catalina_storage_get_value_return t gv s = Inr (r6, s') \<Longrightarrow> finished t s s'"
  "catalina_storage_set_value_finish t e s = Inr (r1, s') \<Longrightarrow> finished t s s'"
  by (auto simp: catalina_storage_open_finish_def finish_simps split: if_splits option.splits intro: finishedI)
    (auto simp: catalina_storage_close_finish_def catalina_storage_get_finish_def
      catalina_storage_set_finish_def catalina_storage_transaction_begin_finish_def
      catalina_storage_transaction_commit_finish_def catalina_storage_transaction_cancel_finish_def
      catalina_storage_open_return_def catalina_storage_close_return_def catalina_storage_get_return_def
      catalina_storage_set_return_def catalina_storage_count_keys_return_def catalina_storage_get_value_finish_def
      catalina_storage_get_value_return_def catalina_storage_set_value_finish_def
      storage_task_free_def finish_simps split: if_splits option.splits intro: finishedI)


text \<open>
  Every request is refused or posts a message for a fresh task; \<open>w\<close> is who waits for it.
\<close>

definition asks :: "waiter \<Rightarrow> ('o, 'w) storage \<Rightarrow> ('o, 'w) storage \<Rightarrow> bool" where
  "asks w s s' \<longleftrightarrow> s' = s \<or>
     (\<exists>ty k. requested ty k s s' \<and> task_waiter k = w \<and> (ty = MESSAGE_TXN_COMMIT \<longrightarrow> task_txn_id k \<noteq> 0))"

lemma asks_same: "asks w s s"
  by (simp add: asks_def)

lemma asks_ex: "task_waiter k = w \<Longrightarrow> ty \<noteq> MESSAGE_TXN_COMMIT \<or> task_txn_id k \<noteq> 0 \<Longrightarrow>
  asks w s (post_ex ty (next_task s) (s\<lparr>tasks := (tasks s)(next_task s \<mapsto> k), next_task := Suc (next_task s)\<rparr>))"
  unfolding asks_def requested_def with_task_def by blast

lemma asks_cn: "task_waiter k = w \<Longrightarrow> ty \<noteq> MESSAGE_TXN_COMMIT \<Longrightarrow>
  asks w s (post_cn ty (next_task s) (s\<lparr>tasks := (tasks s)(next_task s \<mapsto> k), next_task := Suc (next_task s)\<rparr>))"
  unfolding asks_def requested_def with_task_def by blast

text \<open>The two updates come in either order.\<close>

lemma storage_swap: "s\<lparr>next_task := n, tasks := f\<rparr> = s\<lparr>tasks := f, next_task := n\<rparr>"
  by (rule storage.equality) simp_all

lemmas asks_ex' = asks_ex [folded storage_swap]
lemmas asks_cn' = asks_cn [folded storage_swap]

lemmas ask_simps = storage_task_new_def Let_def c_bind_eq_Inr upd_task_Inr

lemma asks_requests:
  "catalina_storage_open_async E d n cb s = Inr (r, s') \<Longrightarrow> asks (Async_Result cb Tag_Open) s s'"
  "catalina_storage_open_post E d n s = Inr (r, s') \<Longrightarrow> asks Mutex_Cond s s'"
  "asks (Async_Result cb Tag_Close) s (snd (catalina_storage_close_async cb s))"
  "asks Mutex_Cond s (snd (catalina_storage_close_post s))"
  "catalina_storage_get_async k l cb s = Inr (r, s') \<Longrightarrow> asks (Async_Result cb Tag_Get) s s'"
  "catalina_storage_get_post k l s = Inr (r, s') \<Longrightarrow> asks Mutex_Cond s s'"
  "asks Mutex_Cond s (snd (catalina_storage_count_keys_post s))"
  "asks (Async_Result cb Tag_Begin) s (snd (catalina_storage_transaction_begin_async cb s))"
  "i \<noteq> 0 \<Longrightarrow> catalina_storage_transaction_commit_async i cb s = Inr (r', s') \<Longrightarrow> asks (Async_Result cb Tag_Commit) s s'"
  "catalina_storage_transaction_cancel_async i cb s = Inr (r', s') \<Longrightarrow> asks (Async_Result cb Tag_Cancel) s s'"
  by (auto simp: catalina_storage_open_async_def catalina_storage_open_post_def open_task_def
      catalina_storage_close_async_def catalina_storage_close_post_def
      catalina_storage_get_async_def catalina_storage_get_post_def get_task_post_def
      catalina_storage_count_keys_post_def catalina_storage_transaction_begin_async_def
      catalina_storage_transaction_commit_async_def catalina_storage_transaction_cancel_async_def
      ask_simps asks_same split: if_splits intro!: asks_ex asks_cn asks_ex' asks_cn')

lemma asks_sets:
  "catalina_storage_set_async i k l v vl cb s = Inr (r, s') \<Longrightarrow> asks (Async_Result cb Tag_Set) s s'"
  "catalina_storage_set_post i k l v vl s = Inr (r, s') \<Longrightarrow> asks Mutex_Cond s s'"
  by (auto simp: catalina_storage_set_async_def catalina_storage_set_post_def ask_simps asks_same
      split: if_splits intro!: asks_ex asks_ex')

lemma asks_values:
  "catalina_storage_get_value_post k l s = Inr (re, s') \<Longrightarrow> asks Mutex_Cond s s'"
  "catalina_storage_set_value_post i k l gv s = Inr (re, s') \<Longrightarrow> asks Mutex_Cond s s'"
  by (auto simp: catalina_storage_get_value_post_def catalina_storage_set_value_post_def c_bind_eq_Inr asks_same
      split: if_splits option.splits intro: asks_requests(6) asks_sets(2))

section \<open>The invariant is kept\<close>

lemma linked_delivered:
  fixes s :: "('o, 'w) storage"
  assumes "linked s"
  shows "m \<in> set (ex_port s) \<Longrightarrow> result_ok linked
      (catalina_storage_ex_handle_message E depth m (s\<lparr>ex_port := remove1 m (ex_port s)\<rparr>))"
    and "m \<in> set (cn_port s) \<Longrightarrow> result_ok linked
      (catalina_storage_cn_handle_message E m (s\<lparr>cn_port := remove1 m (cn_port s)\<rparr>))"
proof -
  have i: "idle_ok (outers s) s" using assms by (simp add: linked_def)
  have keep: "result_ok linked r" if "result_ok (idle_ok (outers s)) r" "\<And>s'. r = Inr s' \<Longrightarrow> grows sa s'"
    "waiters sa = waiters s" "next_task sa = next_task s" for r and sa :: "('o, 'w) storage"
  proof (cases r)
    case (Inr s')
    then have w: "waiters s' = waiters s" "next_task s' = next_task s" using that by (simp_all add: grows_def)
    show ?thesis using that(1) assms unfolding Inr result_ok_simps linked_def outers_cong [OF w] w by blast
  qed (use that(1) in simp)
  show "result_ok linked (catalina_storage_ex_handle_message E depth m (s\<lparr>ex_port := remove1 m (ex_port s)\<rparr>))"
    if "m \<in> set (ex_port s)"
    by (rule keep [where sa = "s\<lparr>ex_port := remove1 m (ex_port s)\<rparr>",
        OF ex_handle_message_ok [OF idle_take(1) [OF i that]]]) (auto intro: exclusive_grows)
  show "result_ok linked (catalina_storage_cn_handle_message E m (s\<lparr>cn_port := remove1 m (cn_port s)\<rparr>))"
    if "m \<in> set (cn_port s)"
    by (rule keep [where sa = "s\<lparr>cn_port := remove1 m (cn_port s)\<rparr>",
        OF cn_handle_message_ok [OF idle_take(2) [OF i that]]]) (auto intro: concurrent_grows)
qed

lemma linked_settings:
  fixes s :: "('o, 'w) storage"
  assumes "linked s"
  shows "linked (catalina_storage_set_use_idle b s)" "linked (catalina_storage_set_formatter F s)"
    "(\<And>p n e. catalina_transform_read T p n = Inl e \<or> catalina_transform_write T p n = Inl e \<Longrightarrow> benign e) \<Longrightarrow>
      linked (catalina_storage_set_transform T s)"
proof -
  have keep: "linked s'" if "idle_ok (outers s) s'" "waiters s' = waiters s" "next_task s' = next_task s"
    for s' :: "('o, 'w) storage"
    using assms that unfolding linked_def outers_cong [OF that(2,3)] that(2) by blast
  have i: "idle_ok (outers s) s" using assms by (simp add: linked_def)
  show "linked (catalina_storage_set_use_idle b s)" "linked (catalina_storage_set_formatter F s)"
    "(\<And>p n e. catalina_transform_read T p n = Inl e \<or> catalina_transform_write T p n = Inl e \<Longrightarrow> benign e) \<Longrightarrow>
      linked (catalina_storage_set_transform T s)"
    by (rule keep; auto simp: catalina_storage_set_use_idle_def catalina_storage_set_formatter_def
      catalina_storage_set_transform_def waiters_def intro: idle_settings [OF i])+
qed

lemma outer_None_fits: "outer_of w = None \<Longrightarrow> tag_fits w"
  by (cases w rule: outer_of.cases) auto

lemma linked_asks:
  assumes "linked s" "asks w s s'" "outer_of w = None"
  shows "linked s'"
proof (cases "s' = s")
  case False
  then obtain ty k where r: "requested ty k s s'" "task_waiter k = w" "ty = MESSAGE_TXN_COMMIT \<longrightarrow> task_txn_id k \<noteq> 0"
    using assms(2) by (auto simp: asks_def)
  note w = requested_waiters [OF r(1), unfolded r(2)]
  have "outers s' = outers s" using outers_new [of s' s w] w assms(3) by simp
  moreover have "idle_ok (outers s) s'" using requested_idle [OF _ r(1)] r(3) assms(1) by (simp add: linked_def)
  ultimately show ?thesis using assms w outer_None_fits by (auto simp: linked_def split: if_splits)
qed (use assms in simp)

lemma linked_finished:
  assumes "linked s" "finished t s s'" "ready t s"
  shows "linked s'"
proof (cases "s' = s")
  case False
  then have w: "waiters s' = (waiters s)(t := None)" "next_task s' = next_task s"
    using assms(2) by (auto simp: finished_def waiters_def)
  have i: "idle_ok (outers s) s" "t < next_task s"
    using assms by (auto simp: linked_def idle_ok_def ok_def fresh_tasks_def ready_def)
  have "held (waiters s t) = []"
    using assms(3) by (cases "tasks s t") (auto simp: ready_def waiters_def)
  then have "outers s' = outers s" using outers_freed [OF w i(2)] by simp
  then show ?thesis
    using assms finished_idle [OF i(1) assms(2)] w by (auto simp: linked_def ready_def split: if_splits)
qed (use assms in simp)

text \<open>The asynchronous requests for values: an outer task, and a raw request that may be refused.\<close>

lemma outer_made:
  assumes "linked s" "task_waiter k = Async_Result (User_Callback c) tag"
  shows "in_callback (next_task s) (with_task k s)"
proof -
  have "outers (with_task k s) = outers s"
    using outers_new [of "with_task k s" s "task_waiter k"] assms(2) by (simp add: waiters_with_task)
  then show ?thesis
    using assms idle_new [of "outers s" s MESSAGE_0 k]
    by (auto simp: in_callback_def linked_def waiters_with_task split: if_splits)
qed

lemma linked_chained:
  assumes c: "in_callback outer s" and a: "asks w s s'" and w: "outer_of w = Some outer" "tag_fits w"
  shows "linked s'"
proof (cases "s' = s")
  case True
  then show ?thesis using c idle_drop by (auto simp: in_callback_def linked_def)
next
  case False
  then obtain ty k where r: "requested ty k s s'" "task_waiter k = w" "ty = MESSAGE_TXN_COMMIT \<longrightarrow> task_txn_id k \<noteq> 0"
    using a by (auto simp: asks_def)
  note w' = requested_waiters [OF r(1), unfolded r(2)]
  have "outers s' = add_mset (Message MESSAGE_0 outer) (outers s)" using outers_new [of s' s w] w' w(1) by simp
  moreover have "idle_ok (add_mset (Message MESSAGE_0 outer) (outers s)) s'"
    using requested_idle [OF _ r(1)] r(3) c by (simp add: in_callback_def)
  ultimately show ?thesis using c w(2) w' by (auto simp: linked_def in_callback_def split: if_splits)
qed

lemma linked_get_value_async:
  fixes s :: "('o, 'w) storage"
  assumes "linked s" "catalina_storage_get_value_async k l (User_Callback c) s = Inr (r, s')"
  shows "linked s'"
proof -
  let ?k = "new_task\<lparr>task_waiter := Async_Result (User_Callback c) Tag_Get_Value\<rparr> :: 'o task"
  obtain r' where "catalina_storage_get_async k l (Get_Value_Async_Cb (next_task s)) (with_task ?k s) = Inr (r', s')"
    using assms(2) by (auto simp: catalina_storage_get_value_async_def storage_task_new_eq c_bind_eq_Inr)
  from asks_requests(5) [OF this] show ?thesis
    by (rule linked_chained [OF outer_made [OF assms(1), of ?k c Tag_Get_Value, simplified]]) simp_all
qed

lemma linked_failed_and_freed:
  assumes c: "in_callback outer s" and r: "result_ok linked r" "r = Inr s1" "completes outer s s1"
    and f: "storage_task_free outer s1 = Inr s'" and u: "waiters s outer = Some (Async_Result (User_Callback c) tag)"
  shows "linked s'"
proof -
  have l: "linked s1" using r by simp
  have d: "outer \<in> set (done_ids s1)" "waiters s1 outer = Some (Async_Result (User_Callback c) tag)"
    using r(3) u by (simp_all add: completes_def)
  have "ready outer s1" using d by (auto simp: ready_def waiters_def)
  moreover have "finished outer s1 s'" using f finishedI by (auto simp: storage_task_free_def c_bind_eq_Inr)
  ultimately show ?thesis using linked_finished [OF l] by blast
qed

lemma linked_set_value_async:
  fixes s :: "('o, 'w) storage"
  assumes l: "linked s" and r: "catalina_storage_set_value_async E i k l gv (User_Callback c) s = Inr (r, s')"
  shows "linked s'"
proof -
  let ?k = "new_task\<lparr>task_waiter := Async_Result (User_Callback c) Tag_Set_Value\<rparr> :: 'o task"
  let ?s1 = "with_task ?k s"
  note c1 = outer_made [OF l, of ?k c Tag_Set_Value, simplified]
  have u: "waiters ?s1 (next_task s) = Some (Async_Result (User_Callback c) Tag_Set_Value)"
    by (simp add: waiters_with_task)
  show ?thesis
  proof (cases "storage_formatter s")
    case None
    then obtain s1 where "fail_with E STORAGE_ERROR_STATE (next_task s) ?s1 = Inr s1"
      "storage_task_free (next_task s) s1 = Inr s'"
      using r by (auto simp: catalina_storage_set_value_async_def storage_task_new_eq c_bind_eq_Inr)
    then show ?thesis
      using linked_failed_and_freed [OF c1 callback_ends(3) [OF c1] _ completing(3) _ u] by blast
  next
    case (Some F)
    then obtain ok buffer len where f: "catalina_formatter_serialize F gv = Inr (ok, buffer, len)"
      using r by (auto simp: catalina_storage_set_value_async_def storage_task_new_eq c_bind_eq_Inr)
    show ?thesis
    proof (cases ok)
      case True
      then obtain r' where "catalina_storage_set_async i k l (Some buffer) len (Set_Value_Async_Cb (next_task s)) ?s1 = Inr (r', s')"
        using r Some f by (auto simp: catalina_storage_set_value_async_def storage_task_new_eq c_bind_eq_Inr)
      from asks_sets(1) [OF this] show ?thesis by (rule linked_chained [OF c1]) simp_all
    next
      case False
      then obtain s1 where "storage_task_fail E (next_task s) ?s1 = Inr s1" "storage_task_free (next_task s) s1 = Inr s'"
        using r Some f by (auto simp: catalina_storage_set_value_async_def storage_task_new_eq c_bind_eq_Inr)
      then show ?thesis
        using linked_failed_and_freed [OF c1 callback_ends(2) [OF c1] _ completing(2) _ u] by blast
    qed
  qed
qed

lemma linked_call_back:
  assumes "linked s" "t \<in> set (done_ids s)" "call_back E t s = Inr s'"
  shows "linked s'"
proof -
  have "tasks s t \<noteq> None" using assms(3) by (cases "tasks s t") (auto simp: call_back_def get_task_def)
  then show ?thesis using call_back_ok [OF assms(1,2), of E] assms(3) by simp
qed

section \<open>The steps\<close>

inductive step :: "'w env \<Rightarrow> nat \<Rightarrow> ('o, 'w) storage \<Rightarrow> ('o, 'w) storage \<Rightarrow> bool" for E depth where
  deliver_ex: "m \<in> set (ex_port s) \<Longrightarrow>
    catalina_storage_ex_handle_message E depth m (s\<lparr>ex_port := remove1 m (ex_port s)\<rparr>) = Inr s' \<Longrightarrow> step E depth s s'"
| deliver_cn: "m \<in> set (cn_port s) \<Longrightarrow>
    catalina_storage_cn_handle_message E m (s\<lparr>cn_port := remove1 m (cn_port s)\<rparr>) = Inr s' \<Longrightarrow> step E depth s s'"
| set_use_idle: "step E depth s (catalina_storage_set_use_idle b s)"
| set_transform: "(\<And>p n e. catalina_transform_read T p n = Inl e \<or> catalina_transform_write T p n = Inl e \<Longrightarrow> benign e) \<Longrightarrow>
    step E depth s (catalina_storage_set_transform T s)"
| set_formatter: "step E depth s (catalina_storage_set_formatter F s)"
| open_async: "catalina_storage_open_async E d n (User_Callback c) s = Inr (r, s') \<Longrightarrow> step E depth s s'"
| open_post: "catalina_storage_open_post E d n s = Inr (r, s') \<Longrightarrow> step E depth s s'"
| close_async: "step E depth s (snd (catalina_storage_close_async (User_Callback c) s))"
| close_post: "step E depth s (snd (catalina_storage_close_post s))"
| get_async: "catalina_storage_get_async k l (User_Callback c) s = Inr (r, s') \<Longrightarrow> step E depth s s'"
| get_post: "catalina_storage_get_post k l s = Inr (r, s') \<Longrightarrow> step E depth s s'"
| set_async: "catalina_storage_set_async i k l v vl (User_Callback c) s = Inr (r, s') \<Longrightarrow> step E depth s s'"
| set_post: "catalina_storage_set_post i k l v vl s = Inr (r, s') \<Longrightarrow> step E depth s s'"
| count_keys_post: "step E depth s (snd (catalina_storage_count_keys_post s))"
| begin_async: "step E depth s (snd (catalina_storage_transaction_begin_async (User_Callback c) s))"
| commit_async: "i \<noteq> 0 \<Longrightarrow> catalina_storage_transaction_commit_async i (User_Callback c) s = Inr (r, s') \<Longrightarrow> step E depth s s'"
| cancel_async: "catalina_storage_transaction_cancel_async i (User_Callback c) s = Inr (r, s') \<Longrightarrow> step E depth s s'"
| open_finish: "ready t s \<Longrightarrow> catalina_storage_open_finish t e s = Inr (r, s') \<Longrightarrow> step E depth s s'"
| close_finish: "ready t s \<Longrightarrow> catalina_storage_close_finish t e s = Inr (r, s') \<Longrightarrow> step E depth s s'"
| get_finish: "ready t s \<Longrightarrow> catalina_storage_get_finish t v e s = Inr (r, s') \<Longrightarrow> step E depth s s'"
| set_finish: "ready t s \<Longrightarrow> catalina_storage_set_finish t e s = Inr (r, s') \<Longrightarrow> step E depth s s'"
| begin_finish: "ready t s \<Longrightarrow> catalina_storage_transaction_begin_finish t s = Inr (i, s') \<Longrightarrow> step E depth s s'"
| commit_finish: "ready t s \<Longrightarrow> catalina_storage_transaction_commit_finish t e s = Inr (r, s') \<Longrightarrow> step E depth s s'"
| cancel_finish: "ready t s \<Longrightarrow> catalina_storage_transaction_cancel_finish t s = Inr s' \<Longrightarrow> step E depth s s'"
| open_return: "ready t s \<Longrightarrow> catalina_storage_open_return t s = Inr (r, s') \<Longrightarrow> step E depth s s'"
| close_return: "ready t s \<Longrightarrow> catalina_storage_close_return t s = Inr (r, s') \<Longrightarrow> step E depth s s'"
| get_return: "ready t s \<Longrightarrow> catalina_storage_get_return t v s = Inr (r, s') \<Longrightarrow> step E depth s s'"
| set_return: "ready t s \<Longrightarrow> catalina_storage_set_return t s = Inr (r, s') \<Longrightarrow> step E depth s s'"
| call_back: "t \<in> set (done_ids s) \<Longrightarrow> call_back E t s = Inr s' \<Longrightarrow> step E depth s s'"
| get_value_async: "catalina_storage_get_value_async k l (User_Callback c) s = Inr (r, s') \<Longrightarrow> step E depth s s'"
| get_value_post: "catalina_storage_get_value_post k l s = Inr (re, s') \<Longrightarrow> step E depth s s'"
| set_value_async: "catalina_storage_set_value_async E i k l gv (User_Callback c) s = Inr (r, s') \<Longrightarrow> step E depth s s'"
| set_value_post: "catalina_storage_set_value_post i k l gv s = Inr (re, s') \<Longrightarrow> step E depth s s'"
| get_value_finish: "ready t s \<Longrightarrow> catalina_storage_get_value_finish t gv e s = Inr (r, s') \<Longrightarrow> step E depth s s'"
| get_value_return: "ready t s \<Longrightarrow> catalina_storage_get_value_return t gv s = Inr (r, s') \<Longrightarrow> step E depth s s'"
| set_value_finish: "ready t s \<Longrightarrow> catalina_storage_set_value_finish t e s = Inr (r, s') \<Longrightarrow> step E depth s s'"
| count_keys_return: "ready t s \<Longrightarrow> catalina_storage_count_keys_return t s = Inr (n, s') \<Longrightarrow> step E depth s s'"

inductive reachable :: "'w env \<Rightarrow> nat \<Rightarrow> ('o, 'w) storage \<Rightarrow> bool" for E depth where
  started: "reachable E depth (catalina_storage_init w)"
| stepped: "reachable E depth s \<Longrightarrow> step E depth s s' \<Longrightarrow> reachable E depth s'"

section \<open>The invariant in every reachable state\<close>

lemma linked_requests:
  assumes "linked s"
  shows "catalina_storage_open_async E d n (User_Callback c) s = Inr (r, s') \<Longrightarrow> linked s'"
    and "catalina_storage_open_post E d n s = Inr (r, s') \<Longrightarrow> linked s'"
    and "linked (snd (catalina_storage_close_async (User_Callback c) s))"
    and "linked (snd (catalina_storage_close_post s))"
    and "catalina_storage_get_async k l (User_Callback c) s = Inr (r, s') \<Longrightarrow> linked s'"
    and "catalina_storage_get_post k l s = Inr (r, s') \<Longrightarrow> linked s'"
    and "linked (snd (catalina_storage_count_keys_post s))"
    and "linked (snd (catalina_storage_transaction_begin_async (User_Callback c) s))"
    and "i \<noteq> 0 \<Longrightarrow> catalina_storage_transaction_commit_async i (User_Callback c) s = Inr (r', s') \<Longrightarrow> linked s'"
    and "catalina_storage_transaction_cancel_async i (User_Callback c) s = Inr (r', s') \<Longrightarrow> linked s'"
    and "catalina_storage_set_async i k l v vl (User_Callback c) s = Inr (r, s') \<Longrightarrow> linked s'"
    and "catalina_storage_set_post i k l v vl s = Inr (r, s') \<Longrightarrow> linked s'"
    and "catalina_storage_get_value_post k l s = Inr (re, s') \<Longrightarrow> linked s'"
    and "catalina_storage_set_value_post i k l gv s = Inr (re, s') \<Longrightarrow> linked s'"
  by (rule linked_asks [OF assms asks_requests(1)], assumption, simp,
    rule linked_asks [OF assms asks_requests(2)], assumption, simp,
    rule linked_asks [OF assms asks_requests(3)], simp,
    rule linked_asks [OF assms asks_requests(4)], simp,
    rule linked_asks [OF assms asks_requests(5)], assumption, simp,
    rule linked_asks [OF assms asks_requests(6)], assumption, simp,
    rule linked_asks [OF assms asks_requests(7)], simp,
    rule linked_asks [OF assms asks_requests(8)], simp,
    rule linked_asks [OF assms asks_requests(9)], assumption, assumption, simp,
    rule linked_asks [OF assms asks_requests(10)], assumption, simp,
    rule linked_asks [OF assms asks_sets(1)], assumption, simp,
    rule linked_asks [OF assms asks_sets(2)], assumption, simp,
    rule linked_asks [OF assms asks_values(1)], assumption, simp,
    rule linked_asks [OF assms asks_values(2)], assumption, simp)

lemma step_linked:
  "step E depth s s' \<Longrightarrow> linked s \<Longrightarrow> linked s'"
proof (induction rule: step.induct)
  case (deliver_ex m s s')
  then show ?case using linked_delivered(1) [of s m E depth] by simp
next
  case (deliver_cn m s s')
  then show ?case using linked_delivered(2) [of s m E] by simp
qed (blast intro: linked_settings linked_requests linked_finished finishes
      linked_get_value_async linked_set_value_async linked_call_back)+

lemma init_linked: "linked (catalina_storage_init w)"
  by (simp add: linked_def outers_def waiters_def idle_ok_def ok_def sound_def commits_nonzero_def fresh_tasks_def sets_only_def
      commits_only_def closed_is_idle_def transform_honest_def parts_def queued_def done_ids_def catalina_storage_init_def)

lemma reachable_linked: "reachable E depth s \<Longrightarrow> linked s"
  by (induction rule: reachable.induct) (auto intro: init_linked step_linked)

lemma reachable_machine_ok: "reachable E depth s \<Longrightarrow> machine_ok s"
  by (rule linked_machine [OF reachable_linked])

lemma reachable_idle: "reachable E depth s \<Longrightarrow> idle_ok {#} s"
  using reachable_machine_ok by (simp add: machine_idle)

end
