(* ===== verification/Storage_Example.thy ===== *)
theory Storage_Example
  imports Storage_Sync Storage_Transactions Storage_Depth Storage_Steps
begin

text \<open>
  A small environment on which the properties of the storage can be run: one database, kept
  in memory, whose calls all succeed, and one that refuses to store a given key. The
  constants are those of TDB and Linux.
\<close>

definition memory_env :: "endian \<Rightarrow> (bytes \<times> bytes) list env" where
  "memory_env h =
     \<lparr>host = h, stack_word = 0, tdb_convert = 16, tdb_nolock = 4, tdb_replace = 1, o_creat = 64, o_rdwr = 2,
      g_path_get_dirname = (\<lambda>_. [46]), g_build_filename = (\<lambda>d n. d @ 47 # n),
      is_dir = (\<lambda>_ _. True), is_regular = (\<lambda>_ _. False), g_mkdir_with_parents = (\<lambda>_ w. w),
      tdb_open = (\<lambda>_ _ _ w. (Some 0, w)), tdb_close = (\<lambda>_ w. (0, w)),
      tdb_fetch = (\<lambda>_ k w. map_of w k), tdb_store = (\<lambda>_ k v _ w. (0, AList.update k v w)),
      tdb_traverse = (\<lambda>_ w. AList.clearjunk w),
      tdb_transaction_start = (\<lambda>_ w. (0, w)), tdb_transaction_commit = (\<lambda>_ w. (0, w)),
      tdb_transaction_recover = (\<lambda>_ w. (0, w))\<rparr>"

definition refusing_env :: "bytes \<Rightarrow> (bytes \<times> bytes) list env" where
  "refusing_env bad = (memory_env Little)\<lparr>tdb_store := (\<lambda>_ k v _ w. if k = bad then (- 1, w) else (0, AList.update k v w))\<rparr>"

definition memory_contents :: "(bytes \<times> bytes) list \<Rightarrow> nat \<Rightarrow> bytes \<Rightarrow> bytes option" where
  "memory_contents w ctx = map_of w"

lemma memory_env_behaves: "tdb_behaves (memory_env h) memory_contents"
  by (simp add: tdb_behaves_def memory_env_def memory_contents_def update_conv' distinct_clearjunk
      AList.dom_clearjunk dom_map_of_conv_image_fst [symmetric] map_of_clearjunk)

lemma memory_env_succeeds: "stores_succeed (memory_env h)" "transactions_succeed (memory_env h)"
  by (simp_all add: stores_succeed_def transactions_succeed_def memory_env_def)

text \<open>An open storage without transactions, and one whose transaction 1 has just begun.\<close>

definition open_storage :: "(bytes \<times> bytes) list \<Rightarrow> ('o, (bytes \<times> bytes) list) storage" where
  "open_storage db = (catalina_storage_init db)\<lparr>db_ctx := Some 0\<rparr>"

lemma open_storage_fields [simp]:
  "db_ctx (open_storage db) = Some 0" "txn (open_storage db) = 0" "txn_states (open_storage db) = []"
  "txn_commits (open_storage db) = []" "storage_transform (open_storage db) = None" "txn_seq (open_storage db) = 0"
  "storage_formatter (open_storage db) = None"
  "world (open_storage db) = db" "tasks_fresh (open_storage db)" "next_task (open_storage db) = 0"
  by (simp_all add: open_storage_def catalina_storage_init_def tasks_fresh_def)

end
