(* ===== verification/Storage_Ids.thy ===== *)
theory Storage_Ids
  imports Storage_Example
begin

text \<open>
  Transaction numbers: \<^verbatim>\<open>g_atomic_int_inc\<close> and the hash table see the first four bytes of a
  \<^verbatim>\<open>gulong\<close> only, its low half on a little-endian host and its high half on a big-endian one.
\<close>

unbundle bit_operations_syntax

definition other_half :: "endian \<Rightarrow> gulong \<Rightarrow> 32 word" where
  "other_half h n = (case h of Little \<Rightarrow> ucast (drop_bit 32 n) | Big \<Rightarrow> ucast n)"

lemma halves_eq: "txn_hash_key h m = txn_hash_key h n \<Longrightarrow> other_half h m = other_half h n \<Longrightarrow> m = n"
proof -
  have eq: "m = n" if lo: "ucast m = (ucast n :: 32 word)" and hi: "ucast (drop_bit 32 m) = (ucast (drop_bit 32 n) :: 32 word)"
    for m n :: gulong
  proof (rule bit_word_eqI)
    fix i assume "i < LENGTH(64)"
    show "bit m i = bit n i"
    proof (cases "i < 32")
      case True
      then show ?thesis using arg_cong [OF lo, of "\<lambda>w. bit w i"] by (simp add: bit_simps)
    next
      case False
      then obtain j where "i = 32 + j" using le_Suc_ex not_less by blast
      then show ?thesis using arg_cong [OF hi, of "\<lambda>w. bit w j"] \<open>i < LENGTH(64)\<close> by (simp add: bit_simps)
    qed
  qed
  assume "txn_hash_key h m = txn_hash_key h n" "other_half h m = other_half h n"
  then show "m = n" using eq by (cases h) (auto simp: txn_hash_key_def other_half_def)
qed

lemma atomic_int_inc_halves:
  "txn_hash_key h (atomic_int_inc h n) = txn_hash_key h n + 1"
  "other_half h (atomic_int_inc h n) = other_half h n"
proof -
  have lo: "ucast (push_bit 32 (drop_bit 32 n) OR ucast x :: gulong) = x" for x :: "32 word"
    by (rule bit_word_eqI) (simp add: bit_simps)
  have hi: "ucast (drop_bit 32 (push_bit 32 (drop_bit 32 n) OR ucast x :: gulong)) = (ucast (drop_bit 32 n) :: 32 word)"
    for x :: "32 word"
    by (rule bit_word_eqI) (auto simp: bit_simps dest: bit_imp_le_length)
  have big: "ucast (drop_bit 32 (n + 2 ^ 32)) = (ucast (drop_bit 32 n) :: 32 word) + 1"
  proof (rule word_unat_eq_iff [THEN iffD2])
    have "unat (ucast (drop_bit 32 (n + 2 ^ 32)) :: 32 word) = ((unat n + 2 ^ 32) mod 2 ^ 64) div 2 ^ 32"
      by (simp add: unsigned_ucast_eq unsigned_drop_bit_eq unat_word_ariths drop_bit_eq_div take_bit_eq_mod)
    also have "\<dots> = ((unat n + 2 ^ 32) div 2 ^ 32) mod 2 ^ 32"
      using drop_bit_take_bit [of 32 64 "unat n + 2 ^ 32"] by (simp add: drop_bit_eq_div take_bit_eq_mod)
    also have "\<dots> = (unat n div 2 ^ 32 + 1) mod 2 ^ 32"
      by (metis div_add_self2 power_not_zero zero_neq_numeral)
    also have "\<dots> = unat ((ucast (drop_bit 32 n) :: 32 word) + 1)"
      using le_less_trans [OF div_le_dividend unsigned_less [of n], of "2 ^ 32"]
      by (simp add: unsigned_ucast_eq unsigned_drop_bit_eq unat_word_ariths drop_bit_eq_div take_bit_eq_mod mod_simps)
    finally show "unat (ucast (drop_bit 32 (n + 2 ^ 32)) :: 32 word) = unat ((ucast (drop_bit 32 n) :: 32 word) + 1)" .
  qed
  have big': "ucast (n + 2 ^ 32) = (ucast n :: 32 word)"
    by (rule word_unat_eq_iff [THEN iffD2]) (simp add: unsigned_ucast_eq unat_word_ariths take_bit_eq_mod mod_mod_cancel mod_simps)
  show "txn_hash_key h (atomic_int_inc h n) = txn_hash_key h n + 1"
    using lo big by (cases h) (simp_all add: txn_hash_key_def atomic_int_inc_def)
  show "other_half h (atomic_int_inc h n) = other_half h n"
    using hi big' by (cases h) (simp_all add: other_half_def atomic_int_inc_def)
qed

lemma atomic_int_inc_iterate:
  "txn_hash_key h ((atomic_int_inc h ^^ i) n) = txn_hash_key h n + of_nat i"
  "other_half h ((atomic_int_inc h ^^ i) n) = other_half h n"
  by (induction i) (simp_all add: atomic_int_inc_halves algebra_simps)

text \<open>
  C25: the numbers that 2 ^ 32 begins in a row hand out, and the hash keys of their
  transactions, are all different; the next begin repeats the first.
\<close>

theorem transaction_ids_cycle:
  "inj_on (\<lambda>i. txn_hash_key h ((atomic_int_inc h ^^ i) n)) {..<2 ^ 32} \<and>
   inj_on (\<lambda>i. (atomic_int_inc h ^^ i) n) {..<2 ^ 32} \<and> (atomic_int_inc h ^^ (2 ^ 32)) n = n"
proof (intro conjI)
  show k: "inj_on (\<lambda>i. txn_hash_key h ((atomic_int_inc h ^^ i) n)) {..<2 ^ 32}"
    by (rule inj_onI) (auto simp: atomic_int_inc_iterate word_of_nat_eq_iff take_bit_nat_eq_self)
  then show "inj_on (\<lambda>i. (atomic_int_inc h ^^ i) n) {..<2 ^ 32}"
    by (rule inj_on_imageI2 [of "txn_hash_key h", unfolded comp_def])
  have "(of_nat (2 ^ 32) :: 32 word) = 0" by (subst word_of_nat_eq_0_iff) simp
  then show "(atomic_int_inc h ^^ (2 ^ 32)) n = n"
    by (intro halves_eq [of h]) (simp_all only: atomic_int_inc_iterate add_0_right)
qed

end
