(* ===== verification/Storage_Properties.thy ===== *)
theory Storage_Properties
  imports Storage_Ids
begin

text \<open>
  The properties of the storage: what a caller sees of single requests, what a transaction
  does to the database, and what goes wrong on the error paths.
\<close>

section \<open>Single requests\<close>

text \<open>
  C8: a value that is set outside of transactions is stored under its key and under no
  other, and \<^verbatim>\<open>catalina_storage_get\<close> returns it with its length, whatever transform is
  configured, as long as the transform restores what it writes.
\<close>

theorem set_then_get:
  fixes s :: "('o, 'w) storage"
  assumes "tdb_behaves E contents" "stores_succeed E" "tasks_fresh s" "db_ctx s = Some ctx" "txn s = 0"
    and "key \<noteq> []" "length key < 2 ^ 63" "length val < 2 ^ 63" "storage_keeps (storage_transform s) val stored"
  shows "\<exists>s' s''.
    catalina_storage_set E depth 0 (Some key) (of_nat (length key)) (Some val) (of_nat (length val)) s =
      Inr ((True, None), s') \<and>
    contents (world s') ctx = (contents (world s) ctx)(key \<mapsto> stored) \<and>
    catalina_storage_get E (Some key) (of_nat (length key)) old s' =
      Inr (((True, Some val, of_nat (length val)), None), s'') \<and>
    world s'' = world s'"
proof -
  obtain w where w: "tdb_store E ctx key stored (tdb_replace E) (world s) = (0, w)"
    using assms(2) by (metis prod.collapse stores_succeed_def)
  let ?s' = "after_call (s\<lparr>world := w\<rparr>)"
  have c: "contents w ctx = (contents (world s) ctx)(key \<mapsto> stored)"
    using assms(1) w unfolding tdb_behaves_def by (metis fst_conv snd_conv)
  then have "tdb_fetch E ctx key w = Some stored"
    using assms(1) by (simp add: tdb_behaves_def)
  then have "catalina_storage_get E (Some key) (of_nat (length key)) old ?s' =
      Inr (((True, Some val, of_nat (length val)), None), after_call ?s')"
    using assms by (intro get_call [where stored = stored and ctx = ctx]) (simp_all add: storage_keeps_def)
  moreover have "catalina_storage_set E depth 0 (Some key) (of_nat (length key)) (Some val) (of_nat (length val)) s =
      Inr ((True, None), ?s')"
    using assms w by (intro set_call) (simp_all add: storage_keeps_def)
  ultimately show ?thesis using c by simp
qed

theorem set_then_get_witness:
  "\<exists>s' s''.
    catalina_storage_set (memory_env Little) 1 0 (Some [65]) 1 (Some [7, 8]) 2
      (open_storage [] :: (unit, (bytes \<times> bytes) list) storage) = Inr ((True, None), s') \<and>
    catalina_storage_get (memory_env Little) (Some [65]) 1 (None, 0) s' = Inr (((True, Some [7, 8], 2), None), s'')"
  using set_then_get [OF memory_env_behaves memory_env_succeeds(1), of
      "open_storage [] :: (unit, (bytes \<times> bytes) list) storage" 0 "[65]" "[7, 8]" "[7, 8]" Little 1 "(None, 0)"]
    keeps_without_transform [of "[7, 8]"]
  by auto

text \<open>
  \<^verbatim>\<open>catalina_storage_count_keys\<close> returns the number of keys in the database, and 0 for a
  storage that is closed.
\<close>

theorem count_keys_counts:
  fixes s :: "('o, 'w) storage"
  assumes "tdb_behaves E contents" "tasks_fresh s"
  shows "\<exists>s'. catalina_storage_count_keys E s =
    Inr (case db_ctx s of None \<Rightarrow> 0 | Some ctx \<Rightarrow> of_nat (card (dom (contents (world s) ctx))), s')"
  using count_keys_call [OF assms(2), of E] traverse_counts [OF assms(1)] by (cases "db_ctx s") simp_all

theorem count_keys_counts_witness:
  "\<exists>s'. catalina_storage_count_keys (memory_env Big)
      (open_storage [([1], [5]), ([2], [6]), ([1], [7])] :: (unit, (bytes \<times> bytes) list) storage) = Inr (2, s')"
  using count_keys_counts [OF memory_env_behaves,
      of "open_storage [([1], [5]), ([2], [6]), ([1], [7])] :: (unit, (bytes \<times> bytes) list) storage" Big]
  by (simp add: memory_contents_def card_insert_if)

section \<open>Transactions\<close>

text \<open>
  \<^verbatim>\<open>handle_txn_begin\<close> hands out the next sequence number and starts a transaction with no
  messages under it; the database is not touched.
\<close>

theorem begin_starts_empty:
  fixes s :: "('o, 'w) storage"
  assumes "db_ctx s = Some ctx" "tasks s t = Some k"
  shows "\<exists>s' txn_id. catalina_storage_ex_handle_message E depth (Message MESSAGE_TXN_BEGIN t) s = Inr s' \<and>
    tasks s' t = Some (k\<lparr>task_value := VULong txn_id, task_txn_id := txn_id, task_success := True\<rparr>) \<and>
    txn_seq s' = txn_id \<and> txn_hash_key (host E) txn_id = txn_hash_key (host E) (txn_seq s) + 1 \<and>
    pending_txn E s' txn_id [] \<and> world s' = world s \<and> txn s' = txn s"
proof -
  let ?id = "atomic_int_inc (host E) (txn_seq s)"
  let ?k = "k\<lparr>task_value := VULong ?id, task_txn_id := ?id\<rparr>"
  show ?thesis
    using assms
    by (auto simp: catalina_storage_ex_handle_message.simps handle_txn_begin_def Let_def upd_task_Some
        storage_task_succeed_eq [where k = ?k] txn_state_new_def pending_txn_def set_messages_def update_conv'
        atomic_int_inc_halves intro!: exI [of _ ?id])
qed

theorem begin_starts_empty_witness:
  "\<exists>s' txn_id. catalina_storage_ex_handle_message (memory_env Little) 1 (Message MESSAGE_TXN_BEGIN 0)
      (with_task new_task (open_storage [] :: (unit, (bytes \<times> bytes) list) storage)) = Inr s' \<and>
    pending_txn (memory_env Little) s' txn_id []"
  using begin_starts_empty [of "with_task new_task (open_storage [] :: (unit, (bytes \<times> bytes) list) storage)" 0 0 new_task
      "memory_env Little" 1]
  by auto

text \<open>
  an update for a transaction that is pending is appended to its updates and nothing
  else happens: neither the database nor the set of completed tasks changes.
\<close>

theorem queued_set_waits:
  fixes s :: "('o, 'w) storage"
  assumes "db_ctx s = Some ctx" "txn_id \<noteq> 0" "txn s \<noteq> txn_id"
    and p: "pending_txn E s txn_id us" and u: "update_ready s txn_id u" "fst u \<notin> fst ` set us"
  shows "\<exists>s'. catalina_storage_ex_handle_message E depth (Message MESSAGE_SET (fst u)) s = Inr s' \<and>
    pending_txn E s' txn_id (us @ [u]) \<and> world s' = world s \<and> completions s' = completions s \<and> tasks s' = tasks s"
proof -
  obtain t key stored where t: "u = (t, key, stored)" by (cases u)
  obtain k where k: "tasks s t = Some k" "task_txn_id k = txn_id" using u(1) by (auto simp: t update_ready_def)
  obtain st where st: "map_of (txn_states s) (txn_hash_key (host E) txn_id) = Some st"
      "msgs st = rev (set_messages us)" "txn_error st = None"
    and d: "distinct (map fst us)" and r: "\<forall>u\<in>set us. update_ready s txn_id u"
    using p by (auto simp: pending_txn_def)
  let ?s' = "s\<lparr>txn_states := AList.update (txn_hash_key (host E) txn_id)
      (st\<lparr>msgs := Message MESSAGE_SET t # msgs st\<rparr>) (txn_states s)\<rparr>"
  have "handle_set E (Message MESSAGE_SET t) s = Inr ?s'"
    using handle_set_queues [OF assms(1) k(1), of E st] k(2) assms(2,3) st(1) by simp
  moreover have "update_ready ?s' txn_id v = update_ready s txn_id v" for v
    by (simp add: update_ready_def split: prod.split)
  ultimately show ?thesis
    using st d r u
    by (simp add: t catalina_storage_ex_handle_message.simps pending_txn_def set_messages_def update_conv')
qed

text \<open>Transaction 1 with two updates of the same key, as the messages of tasks 0 and 1 leave it.\<close>

definition updating_task :: "gulong \<Rightarrow> bytes \<Rightarrow> bytes \<Rightarrow> 'o task" where
  "updating_task txn_id key val = new_task\<lparr>task_txn_id := txn_id, task_key := Some key,
     task_key_length := of_nat (length key), task_data := Some val, task_data_length := of_nat (length val)\<rparr>"

definition two_updates :: "(unit, (bytes \<times> bytes) list) storage" where
  "two_updates = (open_storage [])\<lparr>tasks := (\<lambda>t. if t = 0 then Some (updating_task 1 [65] [7])
       else if t = 1 then Some (updating_task 1 [65] [8]) else if t = 2 then Some (new_task\<lparr>task_txn_id := 1\<rparr>)
       else if t = 3 then Some (updating_task 1 [66] [9]) else None),
     next_task := 4, txn_seq := 1,
     txn_states := [(1, \<lparr>state_txn_id = 1, msgs = [Message MESSAGE_SET 1, Message MESSAGE_SET 0], txn_error = None\<rparr>)]\<rparr>"

lemma ready_update:
  assumes "tasks s t = Some (updating_task txn_id key val)" "length key < 2 ^ 63" "length val < 2 ^ 63"
    and "storage_transform s = None"
  shows "update_ready s txn_id (t, key, val)"
  using assms read_mem_all [OF assms(2)] read_mem_all [OF assms(3)]
  by (simp add: update_ready_def updating_task_def value_written_def)

lemma two_updates_fields [simp]:
  "db_ctx two_updates = Some 0" "txn two_updates = 0" "txn_commits two_updates = []" "world two_updates = []"
  "tasks two_updates 2 = Some (new_task\<lparr>task_txn_id := 1\<rparr>)" "completions two_updates = []"
  by (simp_all add: two_updates_def open_storage_def catalina_storage_init_def)

lemma two_updates_pending:
  "pending_txn (memory_env Little) two_updates 1 [(0, [65], [7]), (1, [65], [8])]"
  "update_ready two_updates 1 (3, [66], [9])"
  by (auto simp: pending_txn_def set_messages_def two_updates_def txn_hash_key_def memory_env_def intro!: ready_update)

theorem queued_set_waits_witness:
  "\<exists>s'. catalina_storage_ex_handle_message (memory_env Little) 1 (Message MESSAGE_SET 3) two_updates = Inr s' \<and>
    pending_txn (memory_env Little) s' 1 [(0, [65], [7]), (1, [65], [8]), (3, [66], [9])] \<and> world s' = []"
  using queued_set_waits [OF _ _ _ two_updates_pending, of 0 1] by auto

lemma run_updates_done: "done_ids (run_updates E ctx us s) = done_ids s @ map fst us"
proof (induction us arbitrary: s)
  case (Cons u us)
  have "done_ids (run_update E ctx u s) = done_ids s @ [fst u]"
    by (simp add: run_update_def done_ids_def completed_state_def split: prod.split waiter.split)
  then show ?case by (simp add: run_updates_Cons Cons.IH)
qed (simp add: run_updates_def)

text \<open>The tasks a commit completes, in their order.\<close>

lemma committed_tasks:
  assumes "pending_txn E s txn_id us"
  shows "done_ids (committed_state E ctx txn_id t task us s) = done_ids s @ map fst us @ [t]"
    and "t' \<in> insert t (fst ` set us) \<Longrightarrow>
      \<exists>k. tasks (committed_state E ctx txn_id t task us s) t' = Some k \<and> task_success k"
    and "t' \<notin> insert t (fst ` set us) \<Longrightarrow> tasks (committed_state E ctx txn_id t task us s) t' = tasks s t'"
proof -
  let ?s' = "committed_state E ctx txn_id t task us s"
  show "done_ids ?s' = done_ids s @ map fst us @ [t]"
    by (simp add: committed_state_def Let_def done_ids_def completed_state_def run_updates_done [unfolded done_ids_def] split: waiter.split)
  show "\<exists>k. tasks ?s' t' = Some k \<and> task_success k" if mem: "t' \<in> insert t (fst ` set us)"
  proof (cases "t' = t")
    case False
    then obtain u where u: "u \<in> set us" "t' = fst u" using mem by blast
    obtain k where "tasks s (fst u) = Some k"
      using assms u(1) by (cases u) (fastforce simp: pending_txn_def update_ready_def)
    then show ?thesis
      using run_updates_tasks [of us u _ k E ctx] u assms False
      by (auto simp: committed_state_def Let_def pending_txn_def)
  qed (simp add: committed_state_def Let_def)
  show "tasks ?s' t' = tasks s t'" if "t' \<notin> insert t (fst ` set us)"
    using that by (simp add: committed_state_def Let_def run_updates_tasks_other)
qed

text \<open>
  C7: committing applies the updates of the transaction to the database in the order in which
  they were requested, completes their tasks in that order and then the task of the commit,
  and forgets the transaction.
\<close>

theorem commit_applies_updates:
  fixes s :: "('o, 'w) storage"
  assumes "tdb_behaves E contents" "transactions_succeed E" "db_ctx s = Some ctx" "txn s = 0" "txn_commits s = []"
    and "tasks s t = Some task" "task_txn_id task = txn_id" "t \<notin> fst ` set us" "pending_txn E s txn_id us"
  shows "\<exists>s'. catalina_storage_ex_handle_message E (Suc depth) (Message MESSAGE_TXN_COMMIT t) s = Inr s' \<and>
    contents (world s') ctx = apply_updates us (contents (world s) ctx) \<and>
    done_ids s' = done_ids s @ map fst us @ [t] \<and>
    (\<forall>t'\<in>insert t (fst ` set us). \<exists>k. tasks s' t' = Some k \<and> task_success k) \<and>
    txn s' = 0 \<and> map_of (txn_states s') (txn_hash_key (host E) txn_id) = None"
proof -
  let ?s' = "committed_state E ctx txn_id t task us s"
  have "catalina_storage_ex_handle_message E (Suc depth) (Message MESSAGE_TXN_COMMIT t) s = Inr ?s'"
    using handle_txn_commit_updates [OF assms(2,3) _ assms(6-9), of depth] assms(4,5)
    by (simp add: catalina_storage_ex_handle_message.simps Let_def)
  then show ?thesis
    using committed_contents [OF assms(1,2)] committed_state_fields [of E ctx txn_id t task us s] committed_tasks [OF assms(9)]
    by (intro exI [of _ ?s']) auto
qed

theorem commit_applies_updates_witness:
  "\<exists>s'. catalina_storage_ex_handle_message (memory_env Little) 1 (Message MESSAGE_TXN_COMMIT 2) two_updates = Inr s' \<and>
    map_of (world s') [65] = Some [8] \<and> done_ids s' = [0, 1, 2] \<and> txn s' = 0"
  using commit_applies_updates [OF memory_env_behaves memory_env_succeeds(2), of two_updates 0 2 "new_task\<lparr>task_txn_id := 1\<rparr>" 1,
      OF _ _ _ _ _ _ two_updates_pending(1), of 0]
  by (auto simp: memory_contents_def apply_updates_def done_ids_def)

end
