(* ===== verification/Storage_Specification.thy ===== *)
theory Storage_Specification
  imports Storage_Properties
begin

text \<open>
  What a storage promises, without its tasks, messages, hash keys and blocks: a map from keys
  to values, with transactions that are lists of updates which one commit applies. The
  handlers, the tables and the transform implement it: whatever messages are delivered in
  whatever order, the tasks get the answers of the abstract store, and the storage goes on
  representing it.
\<close>

section \<open>The abstract store\<close>

text \<open>A pending update keeps the task that asked for it, which the commit answers.\<close>

record store_spec =
  database :: "bytes \<Rightarrow> bytes option"
  open_txns :: "32 word \<Rightarrow> (nat \<times> bytes \<times> bytes) list option"
  last_txn :: "32 word"

datatype request =
    Set_Request "32 word" bytes bytes
  | Get_Request bytes
  | Count_Request
  | Begin_Request
  | Commit_Request "32 word"
  | Cancel_Request "32 word"

text \<open>\<open>Failed\<close> is a refusal that sets no error.\<close>

datatype answer = Done | Found bytes | Counted nat | Began "32 word" | Refused gerror | Failed

fun spec_step :: "nat \<Rightarrow> request \<Rightarrow> store_spec \<Rightarrow> store_spec \<times> (nat \<times> answer) list" where
  "spec_step t (Set_Request n key val) a =
     (if n = 0 then (a\<lparr>database := (database a)(key \<mapsto> val)\<rparr>, [(t, Done)])
      else case open_txns a n of
        None \<Rightarrow> (a, [(t, Refused STORAGE_ERROR_NO_SUCH_TXN)])
      | Some us \<Rightarrow> (a\<lparr>open_txns := (open_txns a)(n \<mapsto> us @ [(t, key, val)])\<rparr>, []))"
| "spec_step t (Get_Request key) a =
     (a, [(t, case database a key of None \<Rightarrow> Refused STORAGE_ERROR_NO_SUCH_KEY | Some val \<Rightarrow> Found val)])"
| "spec_step t Count_Request a = (a, [(t, Counted (card (dom (database a))))])"
| "spec_step t Begin_Request a =
     (a\<lparr>last_txn := last_txn a + 1, open_txns := (open_txns a)(last_txn a + 1 \<mapsto> [])\<rparr>, [(t, Began (last_txn a + 1))])"
| "spec_step t (Commit_Request n) a =
     (case open_txns a n of
        None \<Rightarrow> (a, [(t, Refused STORAGE_ERROR_STATE)])
      | Some us \<Rightarrow> (a\<lparr>database := apply_updates us (database a), open_txns := (open_txns a)(n := None)\<rparr>,
          map (\<lambda>(t, _). (t, Done)) us @ [(t, Done)]))"
| "spec_step t (Cancel_Request n) a = (a\<lparr>open_txns := (open_txns a)(n := None)\<rparr>, [(t, Done)])"

text \<open>Committing a transaction that is not pending is the one request the storage gets wrong.\<close>

fun spec_allowed :: "request \<Rightarrow> store_spec \<Rightarrow> bool" where
  "spec_allowed (Commit_Request n) a = (open_txns a n \<noteq> None)"
| "spec_allowed _ a = True"

text \<open>Runs of a specification, and the requests it is only asked where it allows them.\<close>

fun run_spec :: "(nat \<Rightarrow> 'r \<Rightarrow> 'a \<Rightarrow> 'a \<times> (nat \<times> answer) list) \<Rightarrow> (nat \<times> 'r) list \<Rightarrow> 'a \<Rightarrow> 'a \<times> (nat \<times> answer) list" where
  "run_spec act [] a = (a, [])"
| "run_spec act ((t, r) # rs) a = (let (a', out) = act t r a; (a'', outs) = run_spec act rs a' in (a'', out @ outs))"

fun run_allowed :: "(nat \<Rightarrow> 'r \<Rightarrow> 'a \<Rightarrow> 'a \<times> (nat \<times> answer) list) \<Rightarrow> ('r \<Rightarrow> 'a \<Rightarrow> bool) \<Rightarrow> (nat \<times> 'r) list \<Rightarrow> 'a \<Rightarrow> bool" where
  "run_allowed act allowed [] a = True"
| "run_allowed act allowed ((t, r) # rs) a = (allowed r a \<and> run_allowed act allowed rs (fst (act t r a)))"

definition spec_run :: "(nat \<times> request) list \<Rightarrow> store_spec \<Rightarrow> store_spec \<times> (nat \<times> answer) list" where
  "spec_run = run_spec spec_step"

definition all_allowed :: "(nat \<times> request) list \<Rightarrow> store_spec \<Rightarrow> bool" where
  "all_allowed = run_allowed spec_step spec_allowed"

text \<open>The tasks that wait in transactions.\<close>

definition waiting_tasks :: "store_spec \<Rightarrow> nat set" where
  "waiting_tasks a = {t. \<exists>n us. open_txns a n = Some us \<and> t \<in> fst ` set us}"

lemma waiting_step: "waiting_tasks (fst (spec_step t r a)) \<subseteq> insert t (waiting_tasks a)"
proof
  fix t' assume "t' \<in> waiting_tasks (fst (spec_step t r a))"
  then obtain n us where "open_txns (fst (spec_step t r a)) n = Some us" "t' \<in> fst ` set us"
    by (auto simp: waiting_tasks_def)
  then have "t' = t \<or> (\<exists>us. open_txns a n = Some us \<and> t' \<in> fst ` set us)"
    by (cases r) (auto split: if_splits option.splits)
  then show "t' \<in> insert t (waiting_tasks a)" by (auto simp: waiting_tasks_def)
qed

section \<open>How the storage represents it\<close>

text \<open>
  The transaction with number \<open>n\<close> has the \<^verbatim>\<open>gulong\<close> whose first four bytes in memory are \<open>n\<close>
  and whose other bytes are zero.
\<close>

definition txn_id_of :: "endian \<Rightarrow> 32 word \<Rightarrow> gulong" where
  "txn_id_of h n = (case h of Little \<Rightarrow> ucast n | Big \<Rightarrow> push_bit 32 (ucast n))"

lemma txn_id_of_halves [simp]: "txn_hash_key h (txn_id_of h n) = n" "other_half h (txn_id_of h n) = 0"
  by (cases h; rule bit_word_eqI; auto simp: txn_id_of_def txn_hash_key_def other_half_def bit_simps dest: bit_imp_le_length)+

lemma txn_id_of_eq [simp]: "txn_id_of h m = txn_id_of h n \<longleftrightarrow> m = n"
  by (metis txn_id_of_halves(1))

lemma txn_id_of_0 [simp]: "txn_id_of h 0 = 0" "txn_id_of h n = 0 \<longleftrightarrow> n = 0"
proof -
  show "txn_id_of h 0 = 0" by (cases h) (simp_all add: txn_id_of_def)
  then show "txn_id_of h n = 0 \<longleftrightarrow> n = 0" using txn_id_of_eq [of h n 0] by simp
qed

lemma txn_id_of_inc [simp]: "atomic_int_inc h (txn_id_of h n) = txn_id_of h (n + 1)"
  by (rule halves_eq [of h]) (simp_all add: atomic_int_inc_halves)

fun message_for :: "nat \<times> request \<Rightarrow> message" where
  "message_for (t, Set_Request n key val) = Message MESSAGE_SET t"
| "message_for (t, Get_Request key) = Message MESSAGE_GET t"
| "message_for (t, Count_Request) = Message MESSAGE_COUNT_KEYS t"
| "message_for (t, Begin_Request) = Message MESSAGE_TXN_BEGIN t"
| "message_for (t, Commit_Request n) = Message MESSAGE_TXN_COMMIT t"
| "message_for (t, Cancel_Request n) = Message MESSAGE_TXN_CANCEL t"

definition key_of :: "'o task \<Rightarrow> bytes \<Rightarrow> bool" where
  "key_of k key \<longleftrightarrow> read_mem (task_key k) (unat (task_key_length k)) = Inr key"

text \<open>The task behind a request, as the public functions fill it in; the transform can keep its value.\<close>

fun carries :: "endian \<Rightarrow> transform_iface option \<Rightarrow> request \<Rightarrow> 'o task \<Rightarrow> bool" where
  "carries h tr (Set_Request n key val) k = (task_txn_id k = txn_id_of h n \<and> key_of k key \<and>
     task_data k = Some val \<and> task_data_length k = of_nat (length val) \<and> (\<exists>stored. storage_keeps tr val stored))"
| "carries h tr (Get_Request key) k = (task_txn_id k = 0 \<and> key_of k key)"
| "carries h tr Count_Request k = True"
| "carries h tr Begin_Request k = True"
| "carries h tr (Commit_Request n) k = (task_txn_id k = txn_id_of h n)"
| "carries h tr (Cancel_Request n) k = (task_txn_id k = txn_id_of h n)"

text \<open>An update of the store, and the block it puts into the database.\<close>

definition keeps_update :: "transform_iface option \<Rightarrow> nat \<times> bytes \<times> bytes \<Rightarrow> nat \<times> bytes \<times> bytes \<Rightarrow> bool" where
  "keeps_update tr u' u \<longleftrightarrow> fst u' = fst u \<and> fst (snd u') = fst (snd u) \<and> storage_keeps tr (snd (snd u)) (snd (snd u'))"

definition txn_represents :: "'w env \<Rightarrow> ('o, 'w) storage \<Rightarrow> 32 word \<Rightarrow> (nat \<times> bytes \<times> bytes) list option \<Rightarrow> bool" where
  "txn_represents E s n us \<longleftrightarrow> (case us of
     None \<Rightarrow> map_of (txn_states s) n = None
   | Some us \<Rightarrow> \<exists>us'. pending_txn E s (txn_id_of (host E) n) us' \<and> list_all2 (keeps_update (storage_transform s)) us' us)"

definition db_represents :: "transform_iface option \<Rightarrow> (bytes \<Rightarrow> bytes option) \<Rightarrow> (bytes \<Rightarrow> bytes option) \<Rightarrow> bool" where
  "db_represents tr blocks db \<longleftrightarrow> (\<forall>key. rel_option (\<lambda>stored val. storage_keeps tr val stored) (blocks key) (db key))"

definition represents :: "'w env \<Rightarrow> ('w \<Rightarrow> nat \<Rightarrow> bytes \<Rightarrow> bytes option) \<Rightarrow> nat \<Rightarrow> ('o, 'w) storage \<Rightarrow> store_spec \<Rightarrow> bool" where
  "represents E contents ctx s a \<longleftrightarrow>
     db_ctx s = Some ctx \<and> txn s = 0 \<and> txn_commits s = [] \<and> txn_seq s = txn_id_of (host E) (last_txn a) \<and>
     db_represents (storage_transform s) (contents (world s) ctx) (database a) \<and>
     (\<forall>n. txn_represents E s n (open_txns a n))"

text \<open>What the caller finds in its task when it is completed.\<close>

fun answered :: "endian \<Rightarrow> answer \<Rightarrow> 'o task \<Rightarrow> bool" where
  "answered h Done k = task_success k"
| "answered h (Found val) k = (task_success k \<and> task_data k = Some val \<and> task_data_length k = of_nat (length val))"
| "answered h (Counted n) k = (task_success k \<and> task_value k = VULong (of_nat n))"
| "answered h (Began n) k = (task_success k \<and> task_txn_id k = txn_id_of h n)"
| "answered h (Refused e) k = (\<not> task_success k \<and> task_error k = Some e)"
| "answered h Failed k = (\<not> task_success k \<and> task_error k = None)"

text \<open>
  Delivering messages, each to the port its type belongs to. The log holds the tasks in the
  order of their completion, as they are when the handler returns.
\<close>

definition deliver :: "'w env \<Rightarrow> nat \<Rightarrow> message \<Rightarrow> ('o, 'w) storage \<Rightarrow> ('o, 'w) storage result" where
  "deliver E depth m s =
     (if what m = MESSAGE_GET \<or> what m = MESSAGE_COUNT_KEYS then catalina_storage_cn_handle_message E m s
      else catalina_storage_ex_handle_message E depth m s)"

definition newly_done :: "('o, 'w) storage \<Rightarrow> ('o, 'w) storage \<Rightarrow> (nat \<times> 'o task option) list" where
  "newly_done s s' = map (\<lambda>t. (t, tasks s' t)) (drop (length (done_ids s)) (done_ids s'))"

fun deliver_all :: "'w env \<Rightarrow> nat \<Rightarrow> message list \<Rightarrow> ('o, 'w) storage
    \<Rightarrow> (('o, 'w) storage \<times> (nat \<times> 'o task option) list) result" where
  "deliver_all E depth [] s = Inr (s, [])"
| "deliver_all E depth (m # ms) s =
     c_bind (deliver E depth m s) (\<lambda>s'.
     c_bind (deliver_all E depth ms s') (\<lambda>(s'', log). Inr (s'', newly_done s s' @ log)))"

definition log_answers :: "endian \<Rightarrow> (nat \<times> 'o task option) list \<Rightarrow> (nat \<times> answer) list \<Rightarrow> bool" where
  "log_answers h log outs \<longleftrightarrow>
     list_all2 (\<lambda>(t, k) (t', ans). t = t' \<and> (\<exists>k'. k = Some k' \<and> answered h ans k')) log outs"

section \<open>Refining a specification of requests\<close>

text \<open>
  The contract between the machine and a specification: every message that is delivered takes
  a storage that stands for an abstract state to one that stands for the next, gives the
  answers of the specification and leaves the tasks of the other requests alone. What follows
  for sequences of messages is proved once.
\<close>

locale message_refinement =
  fixes E :: "'w env" and depth :: nat
    and rep :: "('o, 'w) storage \<Rightarrow> 'a \<Rightarrow> bool"
    and act :: "nat \<Rightarrow> 'r \<Rightarrow> 'a \<Rightarrow> 'a \<times> (nat \<times> answer) list"
    and allowed :: "'r \<Rightarrow> 'a \<Rightarrow> bool"
    and waiting :: "'a \<Rightarrow> nat set"
    and message_of :: "nat \<times> 'r \<Rightarrow> message"
    and fits :: "transform_iface option \<Rightarrow> 'r \<Rightarrow> 'o task \<Rightarrow> bool"
  assumes delivers: "rep s a \<Longrightarrow> tasks s t = Some k \<Longrightarrow> t \<notin> waiting a \<Longrightarrow> fits (storage_transform s) r k \<Longrightarrow> allowed r a \<Longrightarrow>
      \<exists>s'. deliver E depth (message_of (t, r)) s = Inr s' \<and> rep s' (fst (act t r a)) \<and>
        log_answers (host E) (newly_done s s') (snd (act t r a)) \<and>
        (\<forall>t'. t' \<notin> insert t (waiting a) \<longrightarrow> tasks s' t' = tasks s t') \<and> storage_transform s' = storage_transform s"
    and waits: "waiting (fst (act t r a)) \<subseteq> insert t (waiting a)"
begin

lemma run:
  assumes "rep s a" "distinct (map fst rs)" "\<forall>t\<in>set (map fst rs). t \<notin> waiting a"
    and "\<forall>(t, r)\<in>set rs. \<exists>k. tasks s t = Some k \<and> fits (storage_transform s) r k" "run_allowed act allowed rs a"
  shows "\<exists>s' log. deliver_all E depth (map message_of rs) s = Inr (s', log) \<and>
    rep s' (fst (run_spec act rs a)) \<and> log_answers (host E) log (snd (run_spec act rs a))"
  using assms
proof (induction rs arbitrary: s a)
  case (Cons tr rs)
  obtain t r where tr: "tr = (t, r)" by (cases tr)
  obtain a' out where st: "act t r a = (a', out)" by (cases "act t r a")
  obtain k where k: "tasks s t = Some k" "fits (storage_transform s) r k"
    using Cons.prems(4) by (auto simp: tr)
  have free: "t \<notin> waiting a" "\<And>t'. t' \<in> set (map fst rs) \<Longrightarrow> t' \<noteq> t \<and> t' \<notin> waiting a"
    using Cons.prems(2,3) by (auto simp: tr)
  obtain s1 where h: "deliver E depth (message_of (t, r)) s = Inr s1"
    and r1: "rep s1 a'" "log_answers (host E) (newly_done s s1) out"
    and same: "\<And>t'. t' \<notin> insert t (waiting a) \<Longrightarrow> tasks s1 t' = tasks s t'" "storage_transform s1 = storage_transform s"
    using delivers [OF Cons.prems(1) k(1) free(1) k(2)] Cons.prems(5) by (auto simp: tr st)
  have "\<exists>s' log. deliver_all E depth (map message_of rs) s1 = Inr (s', log) \<and>
    rep s' (fst (run_spec act rs a')) \<and> log_answers (host E) log (snd (run_spec act rs a'))"
  proof (rule Cons.IH [OF r1(1)])
    show "distinct (map fst rs)" "run_allowed act allowed rs a'" using Cons.prems(2,5) by (simp_all add: tr st)
    show "\<forall>t'\<in>set (map fst rs). t' \<notin> waiting a'"
      using waits [of t r a] free(2) by (auto simp: st)
    show "\<forall>(t', r')\<in>set rs. \<exists>k. tasks s1 t' = Some k \<and> fits (storage_transform s1) r' k"
    proof clarify
      fix t' r' assume m: "(t', r') \<in> set rs"
      then have "tasks s1 t' = tasks s t'" using free(2) by (intro same(1)) force
      then show "\<exists>k. tasks s1 t' = Some k \<and> fits (storage_transform s1) r' k"
        using Cons.prems(4) m same(2) by (auto simp: tr)
    qed
  qed
  then obtain s' log where "deliver_all E depth (map message_of rs) s1 = Inr (s', log)"
    "rep s' (fst (run_spec act rs a'))" "log_answers (host E) log (snd (run_spec act rs a'))"
    by blast
  then show ?case
    using h r1(2) by (auto simp: tr st log_answers_def list_all2_appendI split: prod.split)
qed (simp add: log_answers_def)

end

section \<open>How the database may change\<close>

text \<open>What a delivery does to the world is to store blocks, and to start and commit transactions.\<close>

inductive world_step :: "'w env \<Rightarrow> nat \<Rightarrow> 'w \<Rightarrow> 'w \<Rightarrow> bool" for E ctx where
  "world_step E ctx w (snd (tdb_store E ctx k v flag w))"
| "world_step E ctx w (snd (tdb_transaction_start E ctx w))"
| "world_step E ctx w (snd (tdb_transaction_commit E ctx w))"

lemma run_updates_world: "(world_step E ctx)\<^sup>*\<^sup>* (world s) (world (run_updates E ctx us s))"
proof (induction us arbitrary: s)
  case (Cons u us)
  have "world_step E ctx (world s) (world (run_update E ctx u s))"
    by (simp add: run_update_def world_step.intros split: prod.split)
  then show ?case using Cons by (metis run_updates_Cons converse_rtranclp_into_rtranclp)
qed (simp add: run_updates_def)

lemma committed_world:
  fixes s :: "('o, 'w) storage"
  shows "(world_step E ctx)\<^sup>*\<^sup>* (world s) (world (committed_state E ctx txn_id t task us s))"
proof -
  have "(world_step E ctx)\<^sup>*\<^sup>* (world s) (snd (tdb_transaction_commit E ctx (world (run_updates E ctx us s1))))"
    if "world s1 = snd (tdb_transaction_start E ctx (world s))" for s1 :: "('o, 'w) storage"
    using world_step.intros(2) [of E ctx "world s"] run_updates_world [of E ctx s1 us]
      world_step.intros(3) [of E ctx "world (run_updates E ctx us s1)"] that
    by (metis converse_rtranclp_into_rtranclp rtranclp.rtrancl_into_rtrancl)
  then show ?thesis by (simp add: committed_state_def Let_def)
qed

section \<open>One message\<close>

lemma db_represents_update:
  "db_represents tr blocks db \<Longrightarrow> storage_keeps tr val stored \<Longrightarrow>
   db_represents tr (blocks(key \<mapsto> stored)) (db(key \<mapsto> val))"
  by (simp add: db_represents_def)

lemma apply_updates_simps [simp]:
  "apply_updates [] db = db" "apply_updates ((t, key, val) # us) db = apply_updates us (db(key \<mapsto> val))"
  by (simp_all add: apply_updates_def)

lemma db_represents_apply:
  assumes "list_all2 (keeps_update tr) us' us" "db_represents tr blocks db"
  shows "db_represents tr (apply_updates us' blocks) (apply_updates us db)"
  using assms
proof (induction arbitrary: blocks db rule: list_all2_induct)
  case (Cons u' us' u us)
  obtain t' key' stored t key val where u: "u' = (t', key', stored)" "u = (t, key, val)" by (cases u', cases u)
  have "db_represents tr (blocks(key \<mapsto> stored)) (db(key \<mapsto> val))"
    using Cons.hyps(1) Cons.prems by (intro db_represents_update) (simp_all add: keeps_update_def u)
  from Cons.IH [OF this] show ?case
    using Cons.hyps(1) by (simp add: keeps_update_def u del: fun_upd_apply)
qed simp

lemma keeps_update_tasks: "list_all2 (keeps_update tr) us' us \<Longrightarrow> map fst us' = map fst us"
  by (induction rule: list_all2_induct) (simp_all add: keeps_update_def)

text \<open>A transaction is represented as long as its entry and the tasks waiting in it stay.\<close>

lemma txn_represents_cong:
  assumes "txn_represents E s n us" "map_of (txn_states s') n = map_of (txn_states s) n"
    and "storage_transform s' = storage_transform s"
    and "\<And>us' t. us = Some us' \<Longrightarrow> t \<in> fst ` set us' \<Longrightarrow> tasks s' t = tasks s t"
  shows "txn_represents E s' n us"
proof (cases us)
  case (Some us0)
  then obtain us' where p: "pending_txn E s (txn_id_of (host E) n) us'"
    and l: "list_all2 (keeps_update (storage_transform s)) us' us0"
    using assms(1) by (auto simp: txn_represents_def)
  have "tasks s' (fst u) = tasks s (fst u)" if "u \<in> set us'" for u
  proof -
    have "fst u \<in> fst ` set us0" using that keeps_update_tasks [OF l] by (metis image_eqI list.set_map)
    then show ?thesis using assms(4) [OF Some] by simp
  qed
  then have "update_ready s' id u = update_ready s id u" if "u \<in> set us'" for u id
    using that assms(3) by (fastforce simp: update_ready_def split: prod.split)
  then have "pending_txn E s' (txn_id_of (host E) n) us'"
    using p assms(2) by (simp add: pending_txn_def)
  then show ?thesis using Some l assms(3) by (auto simp: txn_represents_def)
qed (use assms(1,2) in \<open>simp add: txn_represents_def\<close>)

lemma waiting_iff: "open_txns a n = Some us \<Longrightarrow> t \<in> fst ` set us \<Longrightarrow> t \<in> waiting_tasks a"
  by (auto simp: waiting_tasks_def)

text \<open>Completing a task that waits in no transaction.\<close>

lemma represents_completed:
  assumes r: "represents E contents ctx s a" and t: "t \<notin> waiting_tasks a"
  shows "represents E contents ctx (completed_state t b k s) a"
proof -
  have "txn_represents E (completed_state t b k s) n (open_txns a n)" for n
  proof (rule txn_represents_cong)
    show "txn_represents E s n (open_txns a n)" using r by (simp add: represents_def)
    show "tasks (completed_state t b k s) t' = tasks s t'" if "open_txns a n = Some us" "t' \<in> fst ` set us" for us t'
    proof -
      have "t' \<noteq> t" using waiting_iff [OF that] t by blast
      then show ?thesis by simp
    qed
  qed simp_all
  then show ?thesis using r by (simp add: represents_def)
qed

text \<open>Representation after a change of the table of transactions or of the database alone.\<close>

lemma represents_txns:
  assumes r: "represents E contents ctx s a"
    and other: "\<And>n'. n' \<noteq> n \<Longrightarrow> map_of states n' = map_of (txn_states s) n'"
    and own: "txn_represents E (s\<lparr>txn_states := states\<rparr>) n us"
  shows "represents E contents ctx (s\<lparr>txn_states := states\<rparr>) (a\<lparr>open_txns := (open_txns a)(n := us)\<rparr>)"
proof -
  have "txn_represents E (s\<lparr>txn_states := states\<rparr>) n' (((open_txns a)(n := us)) n')" for n'
  proof (cases "n' = n")
    case False
    have "txn_represents E (s\<lparr>txn_states := states\<rparr>) n' (open_txns a n')"
      by (rule txn_represents_cong [of E s]) (use r other [OF False] in \<open>simp_all add: represents_def\<close>)
    with False show ?thesis by simp
  qed (use own in simp)
  then show ?thesis using r by (simp add: represents_def)
qed

lemma represents_world:
  assumes "represents E contents ctx s a" "db_represents (storage_transform s) (contents w ctx) db"
  shows "represents E contents ctx (s\<lparr>world := w\<rparr>) (a\<lparr>database := db\<rparr>)"
proof -
  have "txn_represents E (s\<lparr>world := w\<rparr>) n (open_txns a n)" for n
    by (rule txn_represents_cong [of E s]) (use assms(1) in \<open>simp_all add: represents_def\<close>)
  then show ?thesis using assms by (simp add: represents_def)
qed

lemma waiting_simps [simp]: "waiting_tasks (a\<lparr>database := db\<rparr>) = waiting_tasks a"
  "waiting_tasks (a\<lparr>last_txn := n\<rparr>) = waiting_tasks a"
  by (simp_all add: waiting_tasks_def)

text \<open>What one delivery has to do.\<close>

definition refines_step :: "'w env \<Rightarrow> ('w \<Rightarrow> nat \<Rightarrow> bytes \<Rightarrow> bytes option) \<Rightarrow> nat \<Rightarrow> ('o, 'w) storage \<Rightarrow> nat \<Rightarrow> request
    \<Rightarrow> store_spec \<Rightarrow> ('o, 'w) storage \<Rightarrow> bool" where
  "refines_step E contents ctx s t r a s' \<longleftrightarrow> (case spec_step t r a of (a', outs) \<Rightarrow>
     represents E contents ctx s' a' \<and> log_answers (host E) (newly_done s s') outs \<and>
     (\<forall>t'. t' \<notin> insert t (waiting_tasks a) \<longrightarrow> tasks s' t' = tasks s t') \<and> storage_transform s' = storage_transform s \<and>
     (world_step E ctx)\<^sup>*\<^sup>* (world s) (world s'))"

lemma newly_done_completed [simp]:
  "done_ids s' = done_ids s \<Longrightarrow> newly_done s (completed_state t b k s') = [(t, Some (k\<lparr>task_success := b\<rparr>))]"
  by (simp add: newly_done_def)

lemma log_answers_one [simp]: "log_answers h [(t, Some k)] [(t', ans)] \<longleftrightarrow> t = t' \<and> answered h ans k"
  by (simp add: log_answers_def)

lemma refuses:
  assumes "spec_step t r a = (a, [(t, Refused e)])" "represents E contents ctx s a" "t \<notin> waiting_tasks a"
    and "task_error k = None"
  shows "refines_step E contents ctx s t r a (completed_state t False (task_set_error e k) s)"
  using assms represents_completed [OF assms(2,3)]
  by (simp add: refines_step_def task_set_error_def g_set_error_def)

lemma step_get:
  assumes b: "tdb_behaves E contents" and r: "represents E contents ctx s a" and t: "tasks s t = Some k" "t \<notin> waiting_tasks a"
    and k: "carries (host E) (storage_transform s) (Get_Request key) k" "task_error k = None"
  shows "\<exists>s'. deliver E depth (Message MESSAGE_GET t) s = Inr s' \<and> refines_step E contents ctx s t (Get_Request key) a s'"
proof -
  have c: "db_ctx s = Some ctx" "task_txn_id k = 0" "read_mem (task_key k) (unat (task_key_length k)) = Inr key"
    using r k by (simp_all add: represents_def key_of_def)
  have d: "rel_option (\<lambda>stored val. storage_keeps (storage_transform s) val stored) (tdb_fetch E ctx key (world s)) (database a key)"
    using b r by (simp add: represents_def db_represents_def tdb_behaves_def)
  show ?thesis
  proof (cases "database a key")
    case None
    then have "tdb_fetch E ctx key (world s) = None" using d by (cases "tdb_fetch E ctx key (world s)") simp_all
    then have "handle_get E (Message MESSAGE_GET t) s =
        Inr (completed_state t False (task_set_error STORAGE_ERROR_NO_SUCH_KEY k) s)"
      by (rule handle_get_missing [OF c(1) t(1) c(2,3)])
    moreover have "refines_step E contents ctx s t (Get_Request key) a
        (completed_state t False (task_set_error STORAGE_ERROR_NO_SUCH_KEY k) s)"
      using None by (intro refuses r t(2) k(2)) simp
    ultimately show ?thesis by (simp add: deliver_def catalina_storage_cn_handle_message_def)
  next
    case (Some val)
    then obtain stored where st: "tdb_fetch E ctx key (world s) = Some stored" "storage_keeps (storage_transform s) val stored"
      using d by (cases "tdb_fetch E ctx key (world s)") simp_all
    let ?k = "k\<lparr>task_data := Some val, task_data_length := of_nat (length val)\<rparr>"
    have "handle_get E (Message MESSAGE_GET t) s = Inr (completed_state t True ?k s)"
      using st(2) by (intro handle_get_finds [OF c(1) t(1) c(3) st(1)]) (simp add: storage_keeps_def)
    moreover have "refines_step E contents ctx s t (Get_Request key) a (completed_state t True ?k s)"
      using Some represents_completed [OF r t(2)] by (simp add: refines_step_def)
    ultimately show ?thesis by (simp add: deliver_def catalina_storage_cn_handle_message_def)
  qed
qed

lemma step_count:
  assumes b: "tdb_behaves E contents" and r: "represents E contents ctx s a" and t: "tasks s t = Some k" "t \<notin> waiting_tasks a"
  shows "\<exists>s'. deliver E depth (Message MESSAGE_COUNT_KEYS t) s = Inr s' \<and> refines_step E contents ctx s t Count_Request a s'"
proof -
  have c: "db_ctx s = Some ctx" using r by (simp add: represents_def)
  have "dom (contents (world s) ctx) = dom (database a)"
    using r by (force simp: represents_def db_represents_def dom_def option.rel_sel)
  then have n: "length (tdb_traverse E ctx (world s)) = card (dom (database a))"
    using traverse_counts [OF b] by simp
  let ?k = "k\<lparr>task_value := VULong (of_nat (card (dom (database a))))\<rparr>"
  have "refines_step E contents ctx s t Count_Request a (completed_state t True ?k s)"
    using represents_completed [OF r t(2)] by (simp add: refines_step_def)
  then show ?thesis
    using handle_count_keys_eq [OF t(1), of E] c n by (simp add: deliver_def catalina_storage_cn_handle_message_def)
qed

lemma handle_txn_begin_eq:
  assumes "db_ctx s = Some ctx" "tasks s t = Some k"
  shows "handle_txn_begin E (Message MESSAGE_TXN_BEGIN t) s =
    (let n = atomic_int_inc (host E) (txn_seq s) in
     Inr (completed_state t True (k\<lparr>task_value := VULong n, task_txn_id := n\<rparr>)
       (s\<lparr>txn_seq := n, txn_states := AList.update (txn_hash_key (host E) n) (txn_state_new n) (txn_states s)\<rparr>)))"
  using assms
  by (simp add: handle_txn_begin_def Let_def upd_task_Some txn_state_new_def completed_state_def
      storage_task_succeed_eq [where k = "k\<lparr>task_value := VULong n, task_txn_id := n\<rparr>" for n])

lemma handle_txn_cancel_eq:
  assumes "db_ctx s = Some ctx" "tasks s t = Some k"
  shows "\<exists>states. handle_txn_cancel E (Message MESSAGE_TXN_CANCEL t) s =
      Inr (completed_state t True k (s\<lparr>txn_states := states\<rparr>)) \<and>
    map_of states = (map_of (txn_states s))(txn_hash_key (host E) (task_txn_id k) := None)"
proof (cases "map_of (txn_states s) (txn_hash_key (host E) (task_txn_id k))")
  case None
  then show ?thesis
    using assms by (intro exI [of _ "txn_states s"])
      (auto simp: handle_txn_cancel_def storage_task_succeed_eq [where k = k])
next
  case (Some st)
  then show ?thesis
    using assms by (intro exI [of _ "AList.delete (txn_hash_key (host E) (task_txn_id k)) (txn_states s)"])
      (simp add: handle_txn_cancel_def storage_task_succeed_eq [where k = k] delete_conv')
qed

lemma represents_seq:
  assumes "represents E contents ctx s a"
  shows "represents E contents ctx (s\<lparr>txn_seq := txn_id_of (host E) n\<rparr>) (a\<lparr>last_txn := n\<rparr>)"
proof -
  have "txn_represents E (s\<lparr>txn_seq := txn_id_of (host E) n\<rparr>) n' (open_txns a n')" for n'
    by (rule txn_represents_cong [of E s]) (use assms in \<open>simp_all add: represents_def\<close>)
  then show ?thesis using assms by (simp add: represents_def)
qed

lemma step_begin:
  assumes r: "represents E contents ctx s a" and t: "tasks s t = Some k" "t \<notin> waiting_tasks a"
  shows "\<exists>s'. deliver E depth (Message MESSAGE_TXN_BEGIN t) s = Inr s' \<and> refines_step E contents ctx s t Begin_Request a s'"
proof -
  let ?n = "last_txn a + 1"
  let ?id = "txn_id_of (host E) ?n"
  let ?k = "k\<lparr>task_value := VULong ?id, task_txn_id := ?id\<rparr>"
  let ?a = "a\<lparr>last_txn := ?n, open_txns := (open_txns a)(?n \<mapsto> [])\<rparr>"
  define states where "states = AList.update ?n (txn_state_new ?id) (txn_states s)"
  have c: "db_ctx s = Some ctx" "txn_seq s = txn_id_of (host E) (last_txn a)"
    using r by (simp_all add: represents_def)
  have own: "txn_represents E (s\<lparr>txn_seq := ?id, txn_states := states\<rparr>) ?n (Some [])"
    by (simp add: states_def txn_represents_def pending_txn_def set_messages_def update_conv' txn_state_new_def)
  have "represents E contents ctx (s\<lparr>txn_seq := ?id, txn_states := states\<rparr>) ?a"
    using represents_txns [OF represents_seq [OF r] _ own] by (simp add: states_def update_conv')
  moreover have "t \<notin> waiting_tasks ?a"
    using t(2) by (auto simp: waiting_tasks_def split: if_splits)
  ultimately have "represents E contents ctx (completed_state t True ?k (s\<lparr>txn_seq := ?id, txn_states := states\<rparr>)) ?a"
    by (rule represents_completed)
  then have "refines_step E contents ctx s t Begin_Request a
      (completed_state t True ?k (s\<lparr>txn_seq := ?id, txn_states := states\<rparr>))"
    by (simp add: refines_step_def done_ids_def)
  then show ?thesis
    using handle_txn_begin_eq [OF c(1) t(1), of E] c(2)
    by (simp add: deliver_def catalina_storage_ex_handle_message.simps Let_def states_def)
qed

lemma step_cancel:
  assumes r: "represents E contents ctx s a" and t: "tasks s t = Some k" "t \<notin> waiting_tasks a"
    and k: "task_txn_id k = txn_id_of (host E) n"
  shows "\<exists>s'. deliver E depth (Message MESSAGE_TXN_CANCEL t) s = Inr s' \<and>
    refines_step E contents ctx s t (Cancel_Request n) a s'"
proof -
  have c: "db_ctx s = Some ctx" using r by (simp add: represents_def)
  let ?a = "a\<lparr>open_txns := (open_txns a)(n := None)\<rparr>"
  obtain states where h: "handle_txn_cancel E (Message MESSAGE_TXN_CANCEL t) s =
      Inr (completed_state t True k (s\<lparr>txn_states := states\<rparr>))"
    and m: "map_of states = (map_of (txn_states s))(n := None)"
    using handle_txn_cancel_eq [OF c t(1), of E] k by auto
  have "represents E contents ctx (s\<lparr>txn_states := states\<rparr>) ?a"
    by (intro represents_txns r) (simp_all add: m txn_represents_def)
  moreover have "t \<notin> waiting_tasks ?a"
    using t(2) by (auto simp: waiting_tasks_def split: if_splits)
  ultimately have "represents E contents ctx (completed_state t True k (s\<lparr>txn_states := states\<rparr>)) ?a"
    by (rule represents_completed)
  then have "refines_step E contents ctx s t (Cancel_Request n) a (completed_state t True k (s\<lparr>txn_states := states\<rparr>))"
    by (simp add: refines_step_def done_ids_def)
  then show ?thesis
    using h by (simp add: deliver_def catalina_storage_ex_handle_message.simps)
qed

lemma step_store:
  assumes b: "tdb_behaves E contents" "stores_succeed E"
    and r: "represents E contents ctx s a" and t: "tasks s t = Some k" "t \<notin> waiting_tasks a"
    and k: "carries (host E) (storage_transform s) (Set_Request 0 key val) k"
  shows "\<exists>s'. deliver E depth (Message MESSAGE_SET t) s = Inr s' \<and>
    refines_step E contents ctx s t (Set_Request 0 key val) a s'"
proof -
  have c: "db_ctx s = Some ctx" "txn s = 0"
    and d: "db_represents (storage_transform s) (contents (world s) ctx) (database a)"
    using r by (simp_all add: represents_def)
  obtain stored where st: "storage_keeps (storage_transform s) val stored" using k by auto
  define w where "w = snd (tdb_store E ctx key stored (tdb_replace E) (world s))"
  have "update_ready s (txn s) (t, key, stored)"
    using t(1) k st by (simp add: update_ready_def c(2) key_of_def storage_keeps_def)
  then have h: "handle_set E (Message MESSAGE_SET t) s = Inr (completed_state t True k (s\<lparr>world := w\<rparr>))"
    using handle_set_ready [OF _ c(1) stores_succeed_goes [OF b(2)], of "(t, key, stored)"] t(1)
    by (simp add: run_update_def w_def)
  have "contents w ctx = (contents (world s) ctx)(key \<mapsto> stored)"
    using b by (simp add: w_def tdb_behaves_def stores_succeed_def)
  then have "represents E contents ctx (s\<lparr>world := w\<rparr>) (a\<lparr>database := (database a)(key \<mapsto> val)\<rparr>)"
    using db_represents_update [OF d st, of key] by (intro represents_world r) simp
  then have "represents E contents ctx (completed_state t True k (s\<lparr>world := w\<rparr>)) (a\<lparr>database := (database a)(key \<mapsto> val)\<rparr>)"
    using t(2) by (intro represents_completed) simp_all
  then have "refines_step E contents ctx s t (Set_Request 0 key val) a (completed_state t True k (s\<lparr>world := w\<rparr>))"
    using world_step.intros(1) [of E ctx "world s" key stored "tdb_replace E"] by (simp add: refines_step_def done_ids_def w_def)
  then show ?thesis
    using h by (simp add: deliver_def catalina_storage_ex_handle_message.simps)
qed

lemma step_queue:
  assumes r: "represents E contents ctx s a" and t: "tasks s t = Some k" "t \<notin> waiting_tasks a"
    and k: "carries (host E) (storage_transform s) (Set_Request n key val) k" and n: "n \<noteq> 0" "open_txns a n = Some us"
  shows "\<exists>s'. deliver E depth (Message MESSAGE_SET t) s = Inr s' \<and>
    refines_step E contents ctx s t (Set_Request n key val) a s'"
proof -
  let ?id = "txn_id_of (host E) n"
  have c: "db_ctx s = Some ctx" "txn s = 0" using r by (simp_all add: represents_def)
  have "txn_represents E s n (Some us)" using r n(2) by (metis represents_def)
  then obtain us' where p: "pending_txn E s ?id us'" and l: "list_all2 (keeps_update (storage_transform s)) us' us"
    by (auto simp: txn_represents_def)
  obtain st where st: "map_of (txn_states s) n = Some st" "msgs st = rev (set_messages us')" "txn_error st = None"
    using p by (auto simp: pending_txn_def)
  obtain stored where sk: "storage_keeps (storage_transform s) val stored" using k by auto
  define states where "states = AList.update n (st\<lparr>msgs := Message MESSAGE_SET t # msgs st\<rparr>) (txn_states s)"
  have h: "handle_set E (Message MESSAGE_SET t) s = Inr (s\<lparr>txn_states := states\<rparr>)"
    using handle_set_queues [OF c(1) t(1), of E st] k n(1) st(1) c(2) by (simp add: states_def)
  have "t \<notin> fst ` set us'"
    using waiting_iff [OF n(2)] t(2) keeps_update_tasks [OF l] by (metis list.set_map)
  moreover have "update_ready s ?id (t, key, stored)"
    using t(1) k sk by (simp add: update_ready_def key_of_def storage_keeps_def)
  moreover have "update_ready (s\<lparr>txn_states := states\<rparr>) ?id u = update_ready s ?id u" for u
    by (simp add: update_ready_def split: prod.split)
  ultimately have "pending_txn E (s\<lparr>txn_states := states\<rparr>) ?id (us' @ [(t, key, stored)])"
    using p st by (simp add: pending_txn_def states_def update_conv' set_messages_def)
  moreover have "list_all2 (keeps_update (storage_transform s)) (us' @ [(t, key, stored)]) (us @ [(t, key, val)])"
    using l sk by (simp add: list_all2_appendI keeps_update_def)
  ultimately have "txn_represents E (s\<lparr>txn_states := states\<rparr>) n (Some (us @ [(t, key, val)]))"
    unfolding txn_represents_def by auto
  then have "represents E contents ctx (s\<lparr>txn_states := states\<rparr>) (a\<lparr>open_txns := (open_txns a)(n \<mapsto> us @ [(t, key, val)])\<rparr>)"
    by (intro represents_txns r) (simp_all add: states_def update_conv')
  then have "refines_step E contents ctx s t (Set_Request n key val) a (s\<lparr>txn_states := states\<rparr>)"
    using n by (simp add: refines_step_def newly_done_def done_ids_def log_answers_def)
  then show ?thesis
    using h by (simp add: deliver_def catalina_storage_ex_handle_message.simps)
qed

lemma step_unknown:
  assumes r: "represents E contents ctx s a" and t: "tasks s t = Some k" "t \<notin> waiting_tasks a"
    and k: "carries (host E) (storage_transform s) (Set_Request n key val) k" "task_error k = None"
    and n: "n \<noteq> 0" "open_txns a n = None"
  shows "\<exists>s'. deliver E depth (Message MESSAGE_SET t) s = Inr s' \<and>
    refines_step E contents ctx s t (Set_Request n key val) a s'"
proof -
  have c: "db_ctx s = Some ctx" "txn s = 0" using r by (simp_all add: represents_def)
  have "txn_represents E s n None" using r n(2) by (metis represents_def)
  then have "handle_set E (Message MESSAGE_SET t) s =
      Inr (completed_state t False (task_set_error STORAGE_ERROR_NO_SUCH_TXN k) s)"
    using handle_set_unknown_txn [OF c(1) t(1), of E] k(1) n(1) c(2) by (simp add: txn_represents_def)
  moreover have "refines_step E contents ctx s t (Set_Request n key val) a
      (completed_state t False (task_set_error STORAGE_ERROR_NO_SUCH_TXN k) s)"
    using n by (intro refuses r t(2) k(2)) simp
  ultimately show ?thesis by (simp add: deliver_def catalina_storage_ex_handle_message.simps)
qed

lemma run_updates_seq [simp]: "txn_seq (run_updates E ctx us s) = txn_seq s"
  by (induction us arbitrary: s) (simp_all add: run_updates_def run_update_def split: prod.split)

lemma committed_frame:
  "txn_seq (committed_state E ctx txn_id t task us s) = txn_seq s"
  "storage_transform (committed_state E ctx txn_id t task us s) = storage_transform s"
  "n \<noteq> txn_hash_key (host E) txn_id \<Longrightarrow>
    map_of (txn_states (committed_state E ctx txn_id t task us s)) n = map_of (txn_states s) n"
  by (simp_all add: committed_state_def Let_def delete_conv' update_conv')

lemma pending_disjoint:
  assumes "pending_txn E s m us" "pending_txn E s n vs" "m \<noteq> n"
  shows "fst ` set us \<inter> fst ` set vs = {}"
proof -
  have waits: "\<exists>k. tasks s t = Some k \<and> task_txn_id k = i" if "pending_txn E s i ws" "t \<in> fst ` set ws" for i ws t
    using that by (fastforce simp: pending_txn_def update_ready_def)
  show ?thesis using waits [OF assms(1)] waits [OF assms(2)] assms(3) by fastforce
qed

lemma all_done_answered:
  assumes "\<And>t. t \<in> set ts \<Longrightarrow> \<exists>k. f t = Some k \<and> task_success k"
  shows "log_answers h (map (\<lambda>t. (t, f t)) ts) (map (\<lambda>t. (t, Done)) ts)"
  using assms by (simp add: log_answers_def list_all2_map1 list_all2_map2 list_all2_same)

lemma step_commit:
  assumes b: "tdb_behaves E contents" "transactions_succeed E"
    and r: "represents E contents ctx s a" and t: "tasks s t = Some k" "t \<notin> waiting_tasks a"
    and k: "task_txn_id k = txn_id_of (host E) n" and n: "open_txns a n = Some us"
  shows "\<exists>s'. deliver E (Suc depth) (Message MESSAGE_TXN_COMMIT t) s = Inr s' \<and>
    refines_step E contents ctx s t (Commit_Request n) a s'"
proof -
  let ?id = "txn_id_of (host E) n"
  have c: "db_ctx s = Some ctx" "txn s = 0" "txn_commits s = []" using r by (simp_all add: represents_def)
  have pend: "txn_represents E s m (open_txns a m)" for m using r by (simp add: represents_def)
  obtain us' where p: "pending_txn E s ?id us'" and l: "list_all2 (keeps_update (storage_transform s)) us' us"
    using pend [of n] n by (auto simp: txn_represents_def)
  note same = keeps_update_tasks [OF l]
  have out: "t \<notin> fst ` set us'"
    using waiting_iff [OF n] t(2) same by (metis list.set_map)
  define s' where "s' = committed_state E ctx ?id t k us' s"
  note done_same = committed_tasks [OF p, where ctx = ctx and t = t and task = k, folded s'_def]
  have h: "catalina_storage_ex_handle_message E (Suc depth) (Message MESSAGE_TXN_COMMIT t) s = Inr s'"
    using handle_txn_commit_updates [OF b(2) c(1) _ t(1) k out p, of depth] c(2,3)
    by (simp add: catalina_storage_ex_handle_message.simps Let_def s'_def)
  have "txn_represents E s' m (((open_txns a)(n := None)) m)" for m
  proof (cases "m = n")
    case True
    then show ?thesis
      using committed_state_fields(3) [of E ctx ?id t k us' s] by (simp add: txn_represents_def s'_def)
  next
    case False
    have "txn_represents E s' m (open_txns a m)"
    proof (rule txn_represents_cong [OF pend])
      fix vs t' assume v: "open_txns a m = Some vs" "t' \<in> fst ` set vs"
      obtain vs' where q: "pending_txn E s (txn_id_of (host E) m) vs'" "map fst vs' = map fst vs"
        using pend [of m] v(1) keeps_update_tasks by (fastforce simp: txn_represents_def)
      have "t' \<in> fst ` set vs'" using v(2) q(2) by (metis list.set_map)
      then have "t' \<notin> fst ` set us'" using pending_disjoint [OF p q(1)] False by auto
      moreover have "t' \<noteq> t" using waiting_iff [OF v] t(2) by blast
      ultimately show "tasks s' t' = tasks s t'" using done_same(3) by simp
    qed (use False in \<open>simp_all add: s'_def committed_frame\<close>)
    with False show ?thesis by simp
  qed
  moreover have "db_represents (storage_transform s) (contents (world s') ctx) (apply_updates us (database a))"
    using db_represents_apply [OF l] r committed_contents [OF b, of ctx ?id t k us' s] by (simp add: represents_def s'_def)
  ultimately have "represents E contents ctx s'
      (a\<lparr>database := apply_updates us (database a), open_txns := (open_txns a)(n := None)\<rparr>)"
    using r c by (simp add: represents_def s'_def committed_frame committed_state_fields)
  moreover have "log_answers (host E) (newly_done s s') (map (\<lambda>(t, _). (t, Done)) us @ [(t, Done)])"
  proof -
    have "log_answers (host E) (map (\<lambda>t. (t, tasks s' t)) (map fst us' @ [t])) (map (\<lambda>t. (t, Done)) (map fst us' @ [t]))"
      using done_same(2) by (intro all_done_answered) auto
    moreover have "newly_done s s' = map (\<lambda>t. (t, tasks s' t)) (map fst us' @ [t])"
      by (simp add: newly_done_def done_same(1))
    moreover have "map (\<lambda>(t, _). (t, Done)) us @ [(t, Done)] = map (\<lambda>t. (t, Done)) (map fst us' @ [t])"
      by (simp add: same split_def)
    ultimately show ?thesis by metis
  qed
  moreover have "tasks s' t' = tasks s t'" if "t' \<notin> insert t (waiting_tasks a)" for t'
  proof -
    have "t' \<notin> fst ` set us'" using that waiting_iff [OF n] same by (metis insertCI list.set_map)
    then show ?thesis using that done_same(3) by simp
  qed
  ultimately have "refines_step E contents ctx s t (Commit_Request n) a s'"
    using n committed_world by (simp add: refines_step_def s'_def committed_frame)
  then show ?thesis using h by (simp add: deliver_def)
qed

section \<open>Every sequence of messages\<close>

lemma deliver_refines:
  assumes "tdb_behaves E contents" "transactions_succeed E" "represents E contents ctx s a"
    and "tasks s t = Some k" "t \<notin> waiting_tasks a" "carries (host E) (storage_transform s) r k" "task_error k = None"
    and "spec_allowed r a"
  shows "\<exists>s'. deliver E (Suc depth) (message_for (t, r)) s = Inr s' \<and> refines_step E contents ctx s t r a s'"
proof (cases r)
  case (Set_Request n key val)
  note k = assms(6) [unfolded Set_Request]
  show ?thesis
  proof (cases "n = 0")
    case True
    have "stores_succeed E" using assms(2) by (simp add: transactions_succeed_def)
    then show ?thesis
      using step_store [OF assms(1) _ assms(3-5) k [unfolded True]] unfolding Set_Request True message_for.simps by blast
  next
    case False
    show ?thesis
      unfolding Set_Request message_for.simps
      using step_unknown [OF assms(3-5) k assms(7) False] step_queue [OF assms(3-5) k False]
      by (cases "open_txns a n") blast+
  qed
next
  case (Get_Request key)
  show ?thesis
    using step_get [OF assms(1,3-5) assms(6,7) [unfolded Get_Request]] unfolding Get_Request message_for.simps .
next
  case Count_Request
  show ?thesis using step_count [OF assms(1,3-5)] unfolding Count_Request message_for.simps .
next
  case Begin_Request
  show ?thesis using step_begin [OF assms(3-5)] unfolding Begin_Request message_for.simps .
next
  case (Commit_Request n)
  then obtain us where us: "open_txns a n = Some us" using assms(8) by auto
  have "task_txn_id k = txn_id_of (host E) n" using assms(6) Commit_Request by simp
  from step_commit [OF assms(1-5) this us] show ?thesis unfolding Commit_Request message_for.simps .
next
  case (Cancel_Request n)
  have "task_txn_id k = txn_id_of (host E) n" using assms(6) Cancel_Request by simp
  from step_cancel [OF assms(3-5) this] show ?thesis unfolding Cancel_Request message_for.simps .
qed

definition session_of :: "'w env \<Rightarrow> ('w \<Rightarrow> nat \<Rightarrow> bytes \<Rightarrow> bytes option) \<Rightarrow> nat \<Rightarrow> ('o, 'w) storage \<Rightarrow> store_spec \<Rightarrow> bool" where
  "session_of E contents ctx s a \<longleftrightarrow> tdb_behaves E contents \<and> transactions_succeed E \<and> represents E contents ctx s a"

interpretation sessions: message_refinement "E :: 'w env" "Suc depth"
  "session_of E contents ctx :: ('o, 'w) storage \<Rightarrow> store_spec \<Rightarrow> bool" spec_step spec_allowed waiting_tasks
  message_for "\<lambda>tr r k. carries (host E) tr r k \<and> task_error k = None"
proof unfold_locales
  fix s :: "('o, 'w) storage" and a t k r
  assume "session_of E contents ctx s a" "tasks s t = Some k" "t \<notin> waiting_tasks a"
    "carries (host E) (storage_transform s) r k \<and> task_error k = None" "spec_allowed r a"
  then show "\<exists>s'. deliver E (Suc depth) (message_for (t, r)) s = Inr s' \<and> session_of E contents ctx s' (fst (spec_step t r a)) \<and>
      log_answers (host E) (newly_done s s') (snd (spec_step t r a)) \<and>
      (\<forall>t'. t' \<notin> insert t (waiting_tasks a) \<longrightarrow> tasks s' t' = tasks s t') \<and> storage_transform s' = storage_transform s"
    using deliver_refines [of E contents ctx s a t k r depth] by (auto simp: session_of_def refines_step_def case_prod_beta)
qed (rule waiting_step)


text \<open>The public functions make the tasks of these requests.\<close>

lemma requests_posted:
  assumes "kb \<noteq> []" "length kb < 2 ^ 63"
  shows "\<exists>k. catalina_storage_get_post (Some kb) (of_nat (length kb)) s =
      Inr (Some (next_task s), post_cn MESSAGE_GET (next_task s) (with_task k s)) \<and>
    carries h tr (Get_Request kb) k \<and> task_error k = None"
    and "length val < 2 ^ 63 \<Longrightarrow> \<exists>stored. storage_keeps tr val stored \<Longrightarrow>
      \<exists>k. catalina_storage_set_post (txn_id_of h n) (Some kb) (of_nat (length kb)) (Some val) (of_nat (length val)) s =
        Inr (Some (next_task s), post_ex MESSAGE_SET (next_task s) (with_task k s)) \<and>
      carries h tr (Set_Request n kb val) k \<and> task_error k = None"
  using get_posted [OF assms, of s] set_posted [OF assms, of val "txn_id_of h n" s] read_mem_all [OF assms(2)]
  by (auto simp: key_of_def new_task_def)

text \<open>A run of nine requests, on a storage whose tasks are as the public functions make them.\<close>

fun request_task :: "endian \<Rightarrow> request \<Rightarrow> 'o task" where
  "request_task h (Set_Request n key val) = updating_task (txn_id_of h n) key val"
| "request_task h (Get_Request key) = new_task\<lparr>task_key := Some key, task_key_length := of_nat (length key)\<rparr>"
| "request_task h Count_Request = new_task"
| "request_task h Begin_Request = new_task"
| "request_task h (Commit_Request n) = new_task\<lparr>task_txn_id := txn_id_of h n\<rparr>"
| "request_task h (Cancel_Request n) = new_task\<lparr>task_txn_id := txn_id_of h n\<rparr>"

fun request_fits :: "request \<Rightarrow> bool" where
  "request_fits (Set_Request n key val) = (length key < 2 ^ 63 \<and> length val < 2 ^ 63)"
| "request_fits (Get_Request key) = (length key < 2 ^ 63)"
| "request_fits _ = True"

lemma request_task_carries:
  "request_fits r \<Longrightarrow> carries h None r (request_task h r) \<and> task_error (request_task h r) = None"
proof -
  have "\<exists>stored. storage_keeps None val stored" if "length val < 2 ^ 63" for val
    using keeps_without_transform [of val] that by (intro exI [of _ val]) simp
  then show "request_fits r \<Longrightarrow> carries h None r (request_task h r) \<and> task_error (request_task h r) = None"
    by (cases r) (simp_all add: key_of_def read_mem_all updating_task_def new_task_def)
qed

definition asked :: "(nat \<times> request) list \<Rightarrow> (unit, (bytes \<times> bytes) list) storage" where
  "asked rs = (open_storage [])\<lparr>tasks := map_of (map (\<lambda>(t, r). (t, request_task Little r)) rs), next_task := length rs\<rparr>"

definition empty_store :: store_spec where
  "empty_store = \<lparr>database = Map.empty, open_txns = Map.empty, last_txn = 0\<rparr>"

lemma asked_represents: "represents (memory_env h) memory_contents 0 (asked rs) empty_store"
  by (simp add: represents_def empty_store_def asked_def txn_represents_def db_represents_def memory_contents_def)

lemma asked_carries:
  assumes "distinct (map fst rs)" "\<forall>(t, r)\<in>set rs. request_fits r"
  shows "\<forall>(t, r)\<in>set rs. \<exists>k. tasks (asked rs) t = Some k \<and> carries Little (storage_transform (asked rs)) r k \<and> task_error k = None"
proof clarify
  fix t r assume m: "(t, r) \<in> set rs"
  have "tasks (asked rs) t = Some (request_task Little r)"
    using map_of_is_SomeI [OF assms(1) m] by (simp add: asked_def map_of_map)
  then show "\<exists>k. tasks (asked rs) t = Some k \<and> carries Little (storage_transform (asked rs)) r k \<and> task_error k = None"
    using request_task_carries [of r Little] assms(2) m by (auto simp: asked_def)
qed

definition nine_requests :: "(nat \<times> request) list" where
  "nine_requests = [(0, Begin_Request), (1, Set_Request 1 [65] [7]), (2, Get_Request [65]), (3, Set_Request 0 [66] [9]),
     (4, Set_Request 1 [65] [8]), (5, Commit_Request 1), (6, Get_Request [65]), (7, Set_Request 5 [65] [1]), (8, Count_Request)]"


end
