(* ===== verification/Storage_Failures.thy ===== *)
theory Storage_Failures
  imports Storage_Properties
begin

unbundle bit_operations_syntax

text \<open>
  The properties of the storage's error paths: an update that fails within a transaction, a
  transaction that is cancelled, one that is not known, and requests in the wrong state.
\<close>

lemma completed_done [simp]:
  "map completion_task (completions (completed_state t b k s)) = map completion_task (completions s) @ [t]"
  by (simp add: completed_state_def split: waiter.split)

section \<open>A failing update\<close>

lemma fail_with_in_txn:
  assumes "tasks s t = Some k" "task_error k = None" "task_txn_id k \<noteq> 0"
    and "map_of (txn_states s) (txn_hash_key (host E) (task_txn_id k)) = Some st"
  shows "fail_with E e t s = Inr (completed_state t False (k\<lparr>task_error := Some e\<rparr>)
    (s\<lparr>txn_states := AList.update (txn_hash_key (host E) (task_txn_id k)) (st\<lparr>txn_error := Some e\<rparr>) (txn_states s)\<rparr>))"
  using assms fail_with_eq [OF assms(1), of E e]
  by (simp add: propagate_error_def task_set_error_def g_set_error_def Let_def)

lemma run_msgs_stops:
  assumes "db_ctx s = Some ctx" "txn s \<noteq> 0" "map_of (txn_states s) hk = Some st" "txn_error st = None"
    and "hk = txn_hash_key (host E) (txn s)"
    and ready: "update_ready s (txn s) (t0, key, stored)" and k0: "tasks s t0 = Some k0" "task_error k0 = None"
    and fails: "\<And>flag w. fst (tdb_store E ctx key stored flag w) \<noteq> 0"
    and ct: "tasks s ct = Some task" "task_error task = None" "ct \<noteq> t0"
  shows "\<exists>s'. run_msgs E depth hk ct (Message MESSAGE_SET t0 # ms) s = Inr (False, s') \<and>
    done_ids s' = done_ids s @ [t0] \<and> db_ctx s' = db_ctx s \<and> txn_commits s' = txn_commits s \<and>
    tasks s' ct = Some (task\<lparr>task_error := Some STORAGE_ERROR_NO_SUCH_KEY\<rparr>) \<and>
    (\<forall>t. t \<noteq> t0 \<and> t \<noteq> ct \<longrightarrow> tasks s' t = tasks s t)"
proof -
  obtain ret w where rw: "tdb_store E ctx key stored (tdb_replace E) (world s) = (ret, w)" "ret \<noteq> 0"
    using fails by (metis prod.collapse)
  have id: "task_txn_id k0 = txn s" using ready k0(1) by (auto simp: update_ready_def)
  let ?s1 = "completed_state t0 False (k0\<lparr>task_error := Some STORAGE_ERROR_NO_SUCH_KEY\<rparr>)
    (s\<lparr>world := w, txn_states := AList.update hk (st\<lparr>txn_error := Some STORAGE_ERROR_NO_SUCH_KEY\<rparr>) (txn_states s)\<rparr>)"
  have f: "fail_with E STORAGE_ERROR_NO_SUCH_KEY t0 (s\<lparr>world := w\<rparr>) = Inr ?s1"
    using fail_with_in_txn [of "s\<lparr>world := w\<rparr>" t0 k0 E st] assms(2,3,5) k0 id by simp
  obtain buffer len where b: "(case storage_transform s of None \<Rightarrow> Inr (Transformed None 0)
      | Some T \<Rightarrow> catalina_transform_write T (task_data k0) (task_data_length k0)) = Inr (Transformed buffer len)"
    "read_mem (if buffer \<noteq> None then buffer else task_data k0)
      (unat (if buffer \<noteq> None then len else task_data_length k0)) = Inr stored"
    and "read_mem (task_key k0) (unat (task_key_length k0)) = Inr key"
    using ready k0(1) by (auto simp: update_ready_def value_written_def)
  then have "handle_set E (Message MESSAGE_SET t0) s = Inr ?s1"
    using assms(1) k0(1) id rw f by (simp add: handle_set_def Let_def)
  moreover have "map_of (txn_states ?s1) hk = Some (st\<lparr>txn_error := Some STORAGE_ERROR_NO_SUCH_KEY\<rparr>)"
    by (simp add: update_conv')
  moreover have "tasks ?s1 ct = Some task" using ct by simp
  ultimately show ?thesis
    using ct by (auto simp: catalina_storage_ex_handle_message.simps take_txn_error_def upd_task_Some done_ids_def
        completed_state_def split: waiter.split)
qed

lemma run_stops_at_failure:
  fixes s :: "('o, 'w) storage"
  assumes us1: "\<And>u. u \<in> set us1 \<Longrightarrow> update_goes E u"
    and fails: "\<And>flag w. fst (tdb_store E ctx key stored flag w) \<noteq> 0"
    and s: "db_ctx s = Some ctx" "txn s = 0" "txn_commits s = []"
    and task: "tasks s t = Some task" "task_txn_id task = txn_id" "txn_id \<noteq> 0" "task_error task = None"
    and p: "pending_txn E s txn_id (us1 @ (t0, key, stored) # us2)" "t \<notin> fst ` set (us1 @ (t0, key, stored) # us2)"
    and k0: "tasks s t0 = Some k0" "task_error k0 = None"
  shows "\<exists>s3. txn_state_run E depth (txn_hash_key (host E) txn_id) t (s\<lparr>txn := txn_id, world := w1\<rparr>) = Inr (False, s3) \<and>
    done_ids s3 = done_ids s @ map fst us1 @ [t0] \<and> txn_commits s3 = [] \<and>
    tasks s3 t = Some (task\<lparr>task_error := Some STORAGE_ERROR_NO_SUCH_KEY\<rparr>) \<and>
    (\<forall>u\<in>set us2. tasks s3 (fst u) = tasks s (fst u))"
proof -
  let ?hk = "txn_hash_key (host E) txn_id" and ?us = "us1 @ (t0, key, stored) # us2"
  obtain st where st: "map_of (txn_states s) ?hk = Some st" "msgs st = rev (set_messages ?us)" "txn_error st = None"
    and d: "distinct (map fst ?us)" and r: "\<And>u. u \<in> set ?us \<Longrightarrow> update_ready s txn_id u"
    using p(1) unfolding pending_txn_def by blast
  let ?s0 = "s\<lparr>txn := txn_id, world := w1\<rparr>"
  define s1 where "s1 = ?s0\<lparr>txn_states := AList.update ?hk (st\<lparr>msgs := set_messages ?us\<rparr>) (txn_states s)\<rparr>"
  have r1: "update_ready s1 (txn s1) u" if "u \<in> set ?us" for u
    using r [OF that] by (auto simp: update_ready_def s1_def)
  have m1: "map_of (txn_states s1) ?hk = Some (st\<lparr>msgs := set_messages ?us\<rparr>)" by (simp add: s1_def update_conv')
  define s2 where "s2 = run_updates E ctx us1 s1"
  have split: "set_messages ?us = set_messages us1 @ Message MESSAGE_SET t0 # set_messages us2"
    by (simp add: set_messages_def)
  have pre: "run_msgs E depth ?hk t (set_messages ?us) s1 =
      run_msgs E depth ?hk t (Message MESSAGE_SET t0 # set_messages us2) s2"
    unfolding split s2_def using d s st(3) r1 us1 m1
    by (intro run_msgs_append [where st = "st\<lparr>msgs := set_messages ?us\<rparr>"]) (simp_all add: s1_def)
  have done2: "done_ids s2 = done_ids s @ map fst us1"
    unfolding s2_def run_updates_done by (simp add: s1_def done_ids_def)
  have other: "tasks s2 t' = tasks s t'" if "t' \<notin> fst ` set us1" for t'
    using run_updates_tasks_other [OF that, of E ctx s1] by (simp add: s2_def s1_def)
  have t0: "t0 \<notin> fst ` set us1" "t \<noteq> t0" "t \<notin> fst ` set us1" using d p(2) by auto
  have ready: "update_ready s2 (txn s2) (t0, key, stored)"
    using r [of "(t0, key, stored)"] other [OF t0(1)] by (simp add: update_ready_def s2_def s1_def)
  have f2: "db_ctx s2 = Some ctx" "txn s2 = txn_id" "txn_commits s2 = []"
    "map_of (txn_states s2) ?hk = Some (st\<lparr>msgs := set_messages ?us\<rparr>)"
    using s m1 by (simp_all add: s2_def) (simp_all add: s1_def)
  have tasks2: "tasks s2 t0 = Some k0" "tasks s2 t = Some task"
    using other [OF t0(1)] other [OF t0(3)] k0(1) task(1) by simp_all
  have "\<exists>s'. run_msgs E depth ?hk t (Message MESSAGE_SET t0 # set_messages us2) s2 = Inr (False, s') \<and>
      done_ids s' = done_ids s2 @ [t0] \<and> db_ctx s' = db_ctx s2 \<and> txn_commits s' = txn_commits s2 \<and>
      tasks s' t = Some (task\<lparr>task_error := Some STORAGE_ERROR_NO_SUCH_KEY\<rparr>) \<and>
      (\<forall>t'. t' \<noteq> t0 \<and> t' \<noteq> t \<longrightarrow> tasks s' t' = tasks s2 t')"
    using ready fails t0(2) k0(2) task(3,4) st(3) f2(1,2,4) tasks2
    by (intro run_msgs_stops [where ctx = ctx and st = "st\<lparr>msgs := set_messages ?us\<rparr>" and key = key and stored = stored])
      simp_all
  then obtain s3 where s3: "run_msgs E depth ?hk t (Message MESSAGE_SET t0 # set_messages us2) s2 = Inr (False, s3)"
    "done_ids s3 = done_ids s2 @ [t0]" "txn_commits s3 = []"
    "tasks s3 t = Some (task\<lparr>task_error := Some STORAGE_ERROR_NO_SUCH_KEY\<rparr>)"
    "\<And>t'. t' \<noteq> t0 \<Longrightarrow> t' \<noteq> t \<Longrightarrow> tasks s3 t' = tasks s2 t'"
    using f2(3) by auto
  have "txn_state_run E depth ?hk t ?s0 = Inr (False, s3)"
    using st(1,2) pre s3(1) by (simp add: txn_state_run.simps Let_def s1_def)
  moreover have "tasks s3 (fst u) = tasks s (fst u)" if "u \<in> set us2" for u
  proof -
    have "fst u \<noteq> t0" "fst u \<noteq> t" "fst u \<notin> fst ` set us1" using that d p(2) by (auto simp: image_iff)
    then show ?thesis using s3(5) other by simp
  qed
  ultimately show ?thesis using s3(2-4) done2 by auto
qed

text \<open>
  C10: when TDB refuses one of the updates of a transaction, the commit stops there: it is
  reported as failed with the error of that update, the transaction is forgotten, and the
  updates behind the failing one are not run; their tasks stay as they are, not completed.
\<close>

theorem failed_update_stops_commit:
  fixes s :: "('o, 'w) storage"
  assumes start: "\<And>w. fst (tdb_transaction_start E ctx w) = 0"
    and us1: "\<And>u. u \<in> set us1 \<Longrightarrow> update_goes E u"
    and fails: "\<And>flag w. fst (tdb_store E ctx key stored flag w) \<noteq> 0"
    and s: "db_ctx s = Some ctx" "txn s = 0" "txn_commits s = []"
    and task: "tasks s t = Some task" "task_txn_id task = txn_id" "txn_id \<noteq> 0" "task_error task = None"
    and p: "pending_txn E s txn_id (us1 @ (t0, key, stored) # us2)" "t \<notin> fst ` set (us1 @ (t0, key, stored) # us2)"
    and k0: "tasks s t0 = Some k0" "task_error k0 = None"
  shows "\<exists>s'. catalina_storage_ex_handle_message E (Suc depth) (Message MESSAGE_TXN_COMMIT t) s = Inr s' \<and>
    (\<exists>k. tasks s' t = Some k \<and> \<not> task_success k \<and> task_error k = Some STORAGE_ERROR_NO_SUCH_KEY) \<and>
    done_ids s' = done_ids s @ map fst us1 @ [t0, t] \<and>
    (\<forall>u\<in>set us2. tasks s' (fst u) = tasks s (fst u)) \<and>
    txn s' = 0 \<and> map_of (txn_states s') (txn_hash_key (host E) txn_id) = None"
proof -
  let ?hk = "txn_hash_key (host E) txn_id" and ?k = "task\<lparr>task_error := Some STORAGE_ERROR_NO_SUCH_KEY\<rparr>"
  obtain st where st: "map_of (txn_states s) ?hk = Some st" using p(1) by (auto simp: pending_txn_def)
  obtain w1 where w1: "tdb_transaction_start E ctx (world s) = (0, w1)" using start by (metis prod.collapse)
  obtain s3 where run: "txn_state_run E depth ?hk t (s\<lparr>txn := txn_id, world := w1\<rparr>) = Inr (False, s3)"
    and s3: "done_ids s3 = done_ids s @ map fst us1 @ [t0]" "txn_commits s3 = []" "tasks s3 t = Some ?k"
      "\<forall>u\<in>set us2. tasks s3 (fst u) = tasks s (fst u)"
    using run_stops_at_failure [OF us1 fails s task p k0] by blast
  let ?s4 = "s3\<lparr>txn_states := AList.delete ?hk (txn_states s3), txn := 0,
      world := snd (tdb_transaction_recover E ctx (world s3))\<rparr>"
  let ?s' = "completed_state t False ?k ?s4"
  have fin: "storage_task_fail E t ?s4 = Inr ?s'"
    using s3(3) task(2) by (intro storage_task_fail_no_txn) (simp_all add: delete_conv)
  have "catalina_storage_ex_handle_message E (Suc depth) (Message MESSAGE_TXN_COMMIT t) s = Inr ?s'"
    using s task st w1 run fin s3(2)
    by (simp add: catalina_storage_ex_handle_message.simps handle_txn_commit.simps Let_def)
  moreover have "done_ids ?s' = done_ids s @ map fst us1 @ [t0, t]" using s3(1) by (simp add: done_ids_def)
  moreover have "\<forall>u\<in>set us2. fst u \<noteq> t" using p(2) by auto
  ultimately show ?thesis using s3(4) by (intro exI [of _ ?s']) (simp add: delete_conv)
qed


theorem failed_update_stops_commit_witness:
  "\<exists>s'. catalina_storage_ex_handle_message (refusing_env [65]) 1 (Message MESSAGE_TXN_COMMIT 2) two_updates = Inr s' \<and>
    done_ids s' = [0, 2] \<and> tasks s' 1 = tasks two_updates 1 \<and> txn s' = 0 \<and>
    (\<exists>k. tasks s' 2 = Some k \<and> \<not> task_success k \<and> task_error k = Some STORAGE_ERROR_NO_SUCH_KEY)"
proof -
  have "pending_txn (refusing_env [65]) two_updates 1 ([] @ (0, [65], [7]) # [(1, [65], [8])])"
    using two_updates_pending(1) by (simp add: pending_txn_def refusing_env_def memory_env_def)
  moreover have "tasks two_updates 0 = Some (updating_task 1 [65] [7])" "done_ids two_updates = []"
    by (simp_all add: two_updates_def done_ids_def open_storage_def catalina_storage_init_def)
  ultimately show ?thesis
    using failed_update_stops_commit [of "refusing_env [65]" 0 "[]" "[65]" "[7]" two_updates 2 "new_task\<lparr>task_txn_id := 1\<rparr>" 1 0
        "[(1, [65], [8])]" "updating_task 1 [65] [7]" 0]
    by (auto simp: refusing_env_def memory_env_def new_task_def updating_task_def)
qed

section \<open>Cancelling\<close>

text \<open>
  C21: cancelling a transaction forgets it with everything queued in it: the database is not
  touched, and only the task of the cancel is completed; those of the queued updates are
  left as they are, with no message that leads to them any more.
\<close>

theorem cancel_forgets:
  fixes s :: "('o, 'w) storage"
  assumes "db_ctx s = Some ctx" "tasks s t = Some task" "task_txn_id task = txn_id"
    and "pending_txn E s txn_id us" "t \<notin> fst ` set us"
  shows "\<exists>s'. catalina_storage_ex_handle_message E depth (Message MESSAGE_TXN_CANCEL t) s = Inr s' \<and>
    world s' = world s \<and> done_ids s' = done_ids s @ [t] \<and>
    (\<forall>u\<in>set us. tasks s' (fst u) = tasks s (fst u)) \<and>
    queued {} s' = queued {txn_hash_key (host E) txn_id} s \<and>
    map_of (txn_states s') (txn_hash_key (host E) txn_id) = None"
proof -
  let ?s1 = "s\<lparr>txn_states := AList.delete (txn_hash_key (host E) txn_id) (txn_states s)\<rparr>"
  have "handle_txn_cancel E (Message MESSAGE_TXN_CANCEL t) s = Inr (completed_state t True task ?s1)"
    using assms by (auto simp: handle_txn_cancel_def Let_def pending_txn_def storage_task_succeed_eq [where k = task])
  moreover have "\<forall>u\<in>set us. fst u \<noteq> t" using assms(5) by auto
  ultimately show ?thesis
    by (simp add: catalina_storage_ex_handle_message.simps done_ids_def queued_def queued_in_delete delete_conv)
qed

theorem cancel_forgets_witness:
  "\<exists>s'. catalina_storage_ex_handle_message (memory_env Little) 1 (Message MESSAGE_TXN_CANCEL 2) two_updates = Inr s' \<and>
    world s' = [] \<and> done_ids s' = [2]"
proof -
  have "done_ids two_updates = []" by (simp add: done_ids_def)
  then show ?thesis
    using cancel_forgets [of two_updates 0 2 "new_task\<lparr>task_txn_id := 1\<rparr>" 1, OF _ _ _ two_updates_pending(1), of 1]
    by auto
qed

section \<open>Requests in the wrong state\<close>

lemma with_task_completed:
  "wait_and_free (next_task s) (completed_state (next_task s) b (k\<lparr>task_waiter := Mutex_Cond\<rparr>) (with_task k' s)) =
   Inr ((b, if b then None else task_error k), after_call s)"
  by (simp add: wait_completed call_ends(2))

lemma close_refused:
  assumes "tasks_fresh s" "db_ctx s = None \<or> txn s \<noteq> 0 \<or> txn_states s \<noteq> []"
  shows "catalina_storage_close E depth s = Inr ((False, Some STORAGE_ERROR_STATE), after_call s)"
proof -
  let ?t = "next_task s"
  have p: "catalina_storage_close_post s = (?t, post_ex MESSAGE_CLOSE ?t (with_task new_task s))"
    by (simp add: catalina_storage_close_post_def storage_task_new_def Let_def new_task_def with_task_def post_ex_def)
  have "fail_with E STORAGE_ERROR_STATE ?t (with_task new_task s) =
      Inr (completed_state ?t False (new_task\<lparr>task_error := Some STORAGE_ERROR_STATE\<rparr>) (with_task new_task s))"
    by (subst fail_with_no_txn [where k = new_task]) (simp_all add: new_task_def task_set_error_def g_set_error_def)
  then have "handle_close E (Message MESSAGE_CLOSE ?t) (with_task new_task s) =
      Inr (completed_state ?t False (new_task\<lparr>task_error := Some STORAGE_ERROR_STATE\<rparr>) (with_task new_task s))"
    using assms(2) by (auto simp: handle_close_def Let_def split: option.split)
  then show ?thesis
    using assms(1)
    by (simp add: catalina_storage_close_def p ex_deliver_posted catalina_storage_ex_handle_message.simps
        catalina_storage_close_return_def wait_completed new_task_def call_ends(2))
qed

lemma set_call_dropped:
  assumes "tasks_fresh s" "db_ctx s = Some ctx" "txn s \<noteq> 0" and key: "key \<noteq> []" "length key < 2 ^ 63" "length val < 2 ^ 63"
  shows "catalina_storage_set E depth 0 (Some key) (of_nat (length key)) (Some val) (of_nat (length val)) s = Inl Divergence"
proof -
  let ?k = "new_task\<lparr>task_txn_id := 0, task_key := Some key, task_key_length := of_nat (length key),
      task_data := Some val, task_data_length := of_nat (length val)\<rparr>"
  have "handle_set E (Message MESSAGE_SET (next_task s)) (with_task ?k s) = Inr (with_task ?k s)"
    using assms by (intro handle_set_dropped [where k = ?k]) (simp_all add: new_task_def)
  then show ?thesis
    using assms(1)
    by (simp add: catalina_storage_set_def set_posted [OF key] ex_deliver_posted
        catalina_storage_ex_handle_message.simps await_task_def) (simp add: tasks_fresh_def)
qed

text \<open>
  C18: committing a transaction that is not known (any more) is refused, but the storage keeps
  it as its current transaction: from then on an update outside of transactions is dropped
  and its caller waits for ever, closing is refused, and other commits are put aside.
\<close>

theorem unknown_commit_wedges:
  fixes s :: "('o, 'w) storage"
  assumes "db_ctx s = Some ctx" "txn s = 0" "tasks s t = Some task" "task_txn_id task = txn_id" "txn_id \<noteq> 0"
    and "map_of (txn_states s) (txn_hash_key (host E) txn_id) = None"
    and fresh: "tasks_fresh s" "t < next_task s"
    and key: "key \<noteq> []" "length key < 2 ^ 63" "length val < 2 ^ 63"
  shows "\<exists>s'. catalina_storage_ex_handle_message E (Suc depth) (Message MESSAGE_TXN_COMMIT t) s = Inr s' \<and>
    (\<exists>k. tasks s' t = Some k \<and> \<not> task_success k) \<and> txn s' = txn_id \<and>
    catalina_storage_set E (Suc depth) 0 (Some key) (of_nat (length key)) (Some val) (of_nat (length val)) s' = Inl Divergence \<and>
    catalina_storage_close E (Suc depth) s' = Inr ((False, Some STORAGE_ERROR_STATE), after_call s') \<and>
    (\<forall>t' task'. tasks s' t' = Some task' \<and> task_txn_id task' \<noteq> txn_id \<longrightarrow>
      catalina_storage_ex_handle_message E (Suc depth) (Message MESSAGE_TXN_COMMIT t') s' =
        Inr (s'\<lparr>txn_commits := txn_commits s' @ [Message MESSAGE_TXN_COMMIT t']\<rparr>))"
proof -
  let ?s' = "completed_state t False (task_set_error STORAGE_ERROR_STATE task) (s\<lparr>txn := txn_id\<rparr>)"
  have "fail_with E STORAGE_ERROR_STATE t (s\<lparr>txn := txn_id\<rparr>) = Inr ?s'"
    using assms by (intro fail_with_no_txn) simp_all
  then have c: "catalina_storage_ex_handle_message E (Suc depth) (Message MESSAGE_TXN_COMMIT t) s = Inr ?s'"
    using assms by (simp add: catalina_storage_ex_handle_message.simps handle_txn_commit.simps Let_def)
  have f: "tasks_fresh ?s'" using fresh by (auto simp: tasks_fresh_def completed_state_def split: waiter.split)
  have "catalina_storage_set E (Suc depth) 0 (Some key) (of_nat (length key)) (Some val) (of_nat (length val)) ?s' = Inl Divergence"
    using assms f by (intro set_call_dropped key) simp_all
  moreover have "catalina_storage_close E (Suc depth) ?s' = Inr ((False, Some STORAGE_ERROR_STATE), after_call ?s')"
    using f assms(5) by (intro close_refused) simp_all
  ultimately show ?thesis
    using c assms by (intro exI [of _ ?s'])
      (auto simp: catalina_storage_ex_handle_message.simps handle_txn_commit.simps Let_def)
qed


theorem unknown_commit_wedges_witness:
  "\<exists>s'. catalina_storage_ex_handle_message (memory_env Little) 1 (Message MESSAGE_TXN_COMMIT 0)
      (with_task (new_task\<lparr>task_txn_id := 5\<rparr>) (open_storage [] :: (unit, (bytes \<times> bytes) list) storage)) = Inr s' \<and>
    txn s' = 5 \<and>
    catalina_storage_set (memory_env Little) 1 0 (Some [65]) 1 (Some [7]) 1 s' = Inl Divergence \<and>
    catalina_storage_close (memory_env Little) 1 s' = Inr ((False, Some STORAGE_ERROR_STATE), after_call s')"
proof -
  let ?s = "with_task (new_task\<lparr>task_txn_id := 5\<rparr>) (open_storage [] :: (unit, (bytes \<times> bytes) list) storage)"
  have "tasks_fresh ?s" "0 < next_task ?s"
    by (simp_all add: tasks_fresh_def with_task_def open_storage_def catalina_storage_init_def)
  then show ?thesis
    using unknown_commit_wedges [of ?s 0 0 "new_task\<lparr>task_txn_id := 5\<rparr>" 5 "memory_env Little" "[65]" "[7]" 0]
    by auto
qed

section \<open>Opening and closing\<close>

lemma close_call:
  fixes s :: "('o, 'w) storage"
  assumes "tasks_fresh s"
  shows "catalina_storage_close E depth s = (case db_ctx s of
      None \<Rightarrow> Inr ((False, Some STORAGE_ERROR_STATE), after_call s)
    | Some ctx \<Rightarrow>
        if txn s \<noteq> 0 \<or> txn_states s \<noteq> [] then Inr ((False, Some STORAGE_ERROR_STATE), after_call s)
        else let (ret, w) = tdb_close E ctx (world s) in
          if ret \<noteq> 0 then Inr ((False, Some STORAGE_ERROR_STATE), after_call (s\<lparr>world := w\<rparr>))
          else Inr ((True, None), after_call (s\<lparr>world := w, db_ctx := None\<rparr>)))"
proof (cases "db_ctx s = None \<or> txn s \<noteq> 0 \<or> txn_states s \<noteq> []")
  case True
  then show ?thesis using close_refused [OF assms, of E depth] by (auto split: option.split)
next
  case False
  then obtain ctx where ctx: "db_ctx s = Some ctx" "txn s = 0" "txn_states s = []" by auto
  let ?t = "next_task s"
  obtain ret w where rw: "tdb_close E ctx (world s) = (ret, w)" by (metis prod.collapse)
  have p: "catalina_storage_close_post s = (?t, post_ex MESSAGE_CLOSE ?t (with_task new_task s))"
    by (simp add: catalina_storage_close_post_def storage_task_new_def Let_def new_task_def with_task_def post_ex_def)
  let ?s1 = "if ret \<noteq> 0 then s\<lparr>world := w\<rparr> else s\<lparr>world := w, db_ctx := None\<rparr>"
  have w1: "with_task k s\<lparr>world := w\<rparr> = with_task k (s\<lparr>world := w\<rparr>)"
    "with_task k0 (s\<lparr>world := w\<rparr>)\<lparr>db_ctx := None, tasks := (tasks s)(?t \<mapsto> k)\<rparr> =
     with_task k (s\<lparr>world := w, db_ctx := None\<rparr>)" for k0 k
    by (rule storage.equality, simp_all add: with_task_def)+
  let ?k = "if ret \<noteq> 0 then new_task\<lparr>task_error := Some STORAGE_ERROR_STATE\<rparr> else new_task\<lparr>task_success := True\<rparr>"
  have "fail_with E STORAGE_ERROR_STATE ?t (with_task new_task (s\<lparr>world := w\<rparr>)) =
      Inr (completed_state ?t False (new_task\<lparr>task_error := Some STORAGE_ERROR_STATE\<rparr>) (with_task new_task (s\<lparr>world := w\<rparr>)))"
    by (subst fail_with_no_txn [where k = new_task]) (simp_all add: new_task_def task_set_error_def g_set_error_def)
  then have "handle_close E (Message MESSAGE_CLOSE ?t) (with_task new_task s) =
      Inr (completed_state ?t (ret = 0) ?k (with_task (if ret \<noteq> 0 then new_task else ?k) ?s1))"
    using ctx rw by (simp add: handle_close_def Let_def upd_task_Some w1
        storage_task_succeed_eq [where k = "new_task\<lparr>task_success := True\<rparr>"])
  moreover have e: "with_task k (s\<lparr>world := w\<rparr>)\<lparr>tasks := (tasks s)(?t := None),
      completions := completions s @ [Signalled ?t]\<rparr> = after_call (s\<lparr>world := w\<rparr>)"
    "with_task k (s\<lparr>world := w, db_ctx := None\<rparr>)\<lparr>tasks := (tasks s)(?t := None),
      completions := completions s @ [Signalled ?t]\<rparr> = after_call (s\<lparr>world := w, db_ctx := None\<rparr>)" for k
    by (rule storage.equality, simp_all add: with_task_def after_call_def)+
  ultimately show ?thesis
    using assms ctx rw
    by (simp add: catalina_storage_close_def p ex_deliver_posted catalina_storage_ex_handle_message.simps
        catalina_storage_close_return_def wait_completed new_task_def e)
qed

text \<open>
  C22: a storage is closed only when it is open and no transaction is pending or current, and
  TDB agrees; otherwise the call fails with \<^verbatim>\<open>CATALINA_STORAGE_ERROR_STATE\<close> and the storage
  keeps its database.
\<close>

theorem close_needs_idle:
  fixes s :: "('o, 'w) storage"
  assumes "tasks_fresh s"
  shows "catalina_storage_close E depth s = (case db_ctx s of
      None \<Rightarrow> Inr ((False, Some STORAGE_ERROR_STATE), after_call s)
    | Some ctx \<Rightarrow>
        if txn s \<noteq> 0 \<or> txn_states s \<noteq> [] then Inr ((False, Some STORAGE_ERROR_STATE), after_call s)
        else let (ret, w) = tdb_close E ctx (world s) in
          if ret \<noteq> 0 then Inr ((False, Some STORAGE_ERROR_STATE), after_call (s\<lparr>world := w\<rparr>))
          else Inr ((True, None), after_call (s\<lparr>world := w, db_ctx := None\<rparr>)))"
  by (rule close_call [OF assms])


theorem close_needs_idle_witness:
  "\<exists>s'. catalina_storage_close (memory_env Little) 1 (open_storage [] :: (unit, (bytes \<times> bytes) list) storage) =
     Inr ((True, None), s') \<and> db_ctx s' = None"
  using close_needs_idle [of "open_storage [] :: (unit, (bytes \<times> bytes) list) storage" "memory_env Little" 1]
  by (simp add: memory_env_def)

lemma new_task_fields [simp]: "task_waiter new_task = Mutex_Cond" "task_error new_task = None" "task_txn_id new_task = 0"
  by (simp_all add: new_task_def)

lemma open_call:
  fixes s :: "('o, 'w) storage"
  assumes "tasks_fresh s" "txn_commits s = []" "0 \<notin> set dir" "0 \<notin> set name" "0 \<notin> set (g_build_filename E dir name)"
  shows "catalina_storage_open E depth (Some (dir @ [0])) (Some (name @ [0])) s =
    (let path = g_build_filename E dir name in
     case db_ctx s of
      Some _ \<Rightarrow> Inr ((False, Some STORAGE_ERROR_STATE), after_call s)
    | None \<Rightarrow>
        let s1 = opening_state E path s;
            (ctx, w) = tdb_open E path ((if host E = Little then tdb_convert E else 0) OR tdb_nolock E)
              ((if is_regular E path (world s1) then stack_word E else o_creat E) OR o_rdwr E) (world s1) in
        case ctx of
          None \<Rightarrow> Inr ((False, Some STORAGE_ERROR_DB), after_call (s1\<lparr>world := w\<rparr>))
        | Some ctx \<Rightarrow> Inr ((True, None), after_call (s1\<lparr>world := w, db_ctx := Some ctx\<rparr>)))"
proof -
  let ?t = "next_task s" and ?path = "g_build_filename E dir name"
  let ?k = "new_task\<lparr>task_key := Some (?path @ [0])\<rparr>"
  have ctext: "c_text (Some (bs @ [0])) = Inr bs" if "0 \<notin> set bs" for bs
    using that by (simp add: c_text_def c_string_terminated)
  have p: "catalina_storage_open_post E (Some (dir @ [0])) (Some (name @ [0])) s =
      Inr (Some ?t, post_ex MESSAGE_OPEN ?t (with_task ?k s))"
    using assms(3,4)
    by (simp add: catalina_storage_open_post_def open_task_def ctext storage_task_new_def Let_def upd_task_Some)
      (auto simp: new_task_def with_task_def post_ex_def intro!: storage.equality)
  have failed: "fail_with E e ?t (with_task ?k s1) =
      Inr (completed_state ?t False (?k\<lparr>task_error := Some e\<rparr>) (with_task ?k s1))" if "next_task s1 = ?t" for e s1
    using that by (subst fail_with_no_txn [where k = ?k]) (simp_all add: new_task_def task_set_error_def g_set_error_def)
  have fin: "c_bind (await_task ?t (completed_state ?t b k' (with_task ?k s1))) (catalina_storage_open_return ?t) =
      Inr ((b, if b then None else task_error k'), after_call s1)"
    if "next_task s1 = ?t" "task_waiter k' = Mutex_Cond" for b k' s1
    using that call_ends(2) [where k = ?k and s = s1]
    by (simp add: catalina_storage_open_return_def wait_completed)
  have o: "opening_state E ?path (with_task ?k s) = with_task ?k (opening_state E ?path s)"
    by (rule storage.equality) (simp_all add: opening_state_def with_task_def Let_def)
  have call: "catalina_storage_open E depth (Some (dir @ [0])) (Some (name @ [0])) s =
      c_bind (c_bind (handle_open E (Message MESSAGE_OPEN ?t) (with_task ?k s)) (await_task ?t)) (catalina_storage_open_return ?t)"
    using assms(1) by (simp add: catalina_storage_open_def p ex_deliver_posted catalina_storage_ex_handle_message.simps)
  show ?thesis
  proof (cases "db_ctx s")
    case (Some ctx)
    then have "handle_open E (Message MESSAGE_OPEN ?t) (with_task ?k s) = fail_with E STORAGE_ERROR_STATE ?t (with_task ?k s)"
      by (simp add: handle_open_def)
    then show ?thesis using Some unfolding call by (simp add: failed fin Let_def)
  next
    case None
    let ?s1 = "opening_state E ?path s"
    obtain c w where o': "tdb_open E ?path (fst (opening_flags E ?path (world ?s1)))
        (snd (opening_flags E ?path (world ?s1))) (world ?s1) = (c, w)"
      by (metis prod.collapse)
    have n: "next_task ?s1 = ?t" by (simp add: opening_state_def Let_def)
    have h: "handle_open E (Message MESSAGE_OPEN ?t) (with_task ?k s) = (case c of
        None \<Rightarrow> fail_with E STORAGE_ERROR_DB ?t (with_task ?k (?s1\<lparr>world := w\<rparr>))
      | Some ctx \<Rightarrow> Inr (completed_state ?t True ?k (with_task ?k (?s1\<lparr>world := w, db_ctx := Some ctx\<rparr>))))"
    proof -
      have w: "with_task ?k ?s1\<lparr>world := w\<rparr> = with_task ?k (?s1\<lparr>world := w\<rparr>)"
        "with_task ?k (?s1\<lparr>world := w\<rparr>)\<lparr>db_ctx := Some x\<rparr> = with_task ?k (?s1\<lparr>world := w, db_ctx := Some x\<rparr>)" for x
        by (rule storage.equality, simp_all add: with_task_def)+
      have "tasks (with_task ?k s) (message_task (Message MESSAGE_OPEN ?t)) = Some ?k" "db_ctx (with_task ?k s) = None"
        "c_text (task_key ?k) = Inr ?path" "txn_commits (with_task ?k s) = []"
        using None assms(2,5) by (simp_all add: ctext)
      note open_eq = handle_open_eq [OF message.sel(1) this, of E]
      show ?thesis
        unfolding open_eq o message.sel with_task_fields
        using o' by (cases c) (simp_all add: w Let_def case_prod_beta)
    qed
    show ?thesis
      using o' unfolding call h by (cases c)
        (simp_all add: failed fin n None Let_def opening_flags_def case_prod_beta)
  qed
qed




end
