(* ===== verification/Storage_Runs.thy ===== *)
theory Storage_Runs
  imports Storage_Failures Zlib_Properties
begin

text \<open>
  The properties of every run of a storage, whatever requests come in and in whatever order
  their messages are handled, and of requests that are handled concurrently.
\<close>

section \<open>The zlib transform may be configured\<close>

text \<open>Its faults are reads out of bounds and the like, never a task that is gone.\<close>

lemma benign_load: "load_bytes b i n = Inl e \<Longrightarrow> benign e" "load_byte b i = Inl e \<Longrightarrow> benign e"
  "store_bytes b i bs = Inl e \<Longrightarrow> benign e" "store_byte b i x = Inl e \<Longrightarrow> benign e"
  by (auto simp: load_bytes_def load_byte_def store_bytes_def store_byte_def split: if_splits)

lemma benign_copy_parts: "copy_parts out len off ps = Inl e \<Longrightarrow> benign e"
  by (induction out len off ps rule: copy_parts.induct)
    (auto simp: c_bind_eq_Inl Let_def dest: benign_load split: if_splits)

lemma benign_deflate_loop: "deflate_loop Z junk strm input ps len = Some (Inl e) \<Longrightarrow> benign e"
proof -
  have "r = Inl e \<Longrightarrow> benign e" if "deflate_loop Z junk strm input ps len = Some r" for r
    using that
  proof (induction Z junk strm input ps len r rule: deflate_loop.raw_induct [rotated, consumes 1])
    case (1 loop Z junk strm input ps len r)
    show ?case
      using 1(2,3) 1(1)
      by (auto simp: Let_def dest: benign_load split: prod.splits sum.splits if_splits)
  qed
  then show "deflate_loop Z junk strm input ps len = Some (Inl e) \<Longrightarrow> benign e" by blast
qed

lemma zlib_benign:
  "catalina_transform_read (zlib_transform_base_init Z h junk transform) p n = Inl e \<Longrightarrow> benign e"
  "catalina_transform_write (zlib_transform_base_init Z h junk transform) p n = Inl e \<Longrightarrow> benign e"
proof -
  show "catalina_transform_read (zlib_transform_base_init Z h junk transform) p n = Inl e \<Longrightarrow> benign e"
    by (auto simp: catalina_transform_read_def zlib_transform_base_init_def zlib_real_read_def Let_def c_bind_eq_Inl
        case_prod_beta dest: benign_load split: option.splits if_splits)
  show "catalina_transform_write (zlib_transform_base_init Z h junk transform) p n = Inl e \<Longrightarrow> benign e"
    by (auto simp: catalina_transform_write_def zlib_transform_base_init_def zlib_real_write_def Let_def c_bind_eq_Inl
        dest: benign_load benign_read_mem benign_copy_parts benign_deflate_loop
        split: option.splits if_splits prod.splits sum.splits)
qed


section \<open>Every run\<close>

text \<open>A run that the witnesses use: an update has been requested of a closed storage.\<close>

lemma post_set_reachable:
  fixes s :: "('o, 'w) storage"
  assumes "reachable E depth s" "catalina_storage_set_post i k l v vl s = Inr (r, s')"
  shows "reachable E depth s'"
  using assms by (blast intro: reachable.stepped step.set_post)

definition waiting_storage :: "(unit, (bytes \<times> bytes) list) storage" where
  "waiting_storage = post_ex MESSAGE_SET 0 (with_task (updating_task 0 [65] [7]) (catalina_storage_init []))"

lemma waiting_reachable: "reachable E depth waiting_storage"
proof -
  have "catalina_storage_set_post 0 (Some [65]) (of_nat (length [65 :: byte])) (Some [7]) (of_nat (length [7 :: byte]))
      (catalina_storage_init [] :: (unit, (bytes \<times> bytes) list) storage) = Inr (Some 0, waiting_storage)"
    by (subst set_posted) (simp_all add: waiting_storage_def updating_task_def catalina_storage_init_def)
  then show ?thesis by (rule post_set_reachable [OF reachable.started])
qed

lemma waiting_fields [simp]:
  "ex_port waiting_storage = [Message MESSAGE_SET 0]" "cn_port waiting_storage = []" "done_ids waiting_storage = []"
  "db_ctx waiting_storage = None" "txn_commits waiting_storage = []" "txn waiting_storage = 0" "txn_states waiting_storage = []"
  "storage_transform waiting_storage = None"
  by (simp_all add: waiting_storage_def post_ex_def with_task_def catalina_storage_init_def done_ids_def)



text \<open>
  C9: in every run each task is completed at most once; every message in the machine, on a
  port, in the queue of a transaction or among the waiting commits, has a live task of its
  own that is not completed yet.
\<close>

theorem tasks_complete_once:
  assumes "reachable E depth s"
  shows "distinct (done_ids s) \<and>
    (\<forall>t. count (image_mset message_task (in_machine s)) t \<le> 1) \<and>
    (\<forall>m. m \<in># in_machine s \<longrightarrow> (\<exists>k. tasks s (message_task m) = Some k) \<and> message_task m \<notin> set (done_ids s))"
proof -
  have o: "ok {} {#} s" using reachable_machine_ok [OF assms] by (simp add: machine_ok_def)
  have p: "parts {} s = in_machine s" by (simp add: parts_def in_machine_def)
  have c: "count (image_mset message_task (in_machine s)) t + count (mset (done_ids s)) t \<le> 1" for t
    using o by (simp add: ok_def sound_def p)
  have d: "distinct (done_ids s)"
  proof -
    have "count (mset (done_ids s)) t \<le> 1" for t using c [of t] by simp
    then show ?thesis by (metis distinct_count_atmost_1 count_eq_zero_iff le_SucE le_zero_eq One_nat_def set_mset_mset)
  qed
  have "\<exists>k. tasks s (message_task m) = Some k" "message_task m \<notin> set (done_ids s)" if "m \<in># in_machine s" for m
    using o that done_not_queued [OF o, of "message_task m" m] by (auto simp: ok_def sound_def p)
  then show ?thesis using d c by (auto intro: le_trans [OF le_add1])
qed

theorem tasks_complete_once_witness:
  "distinct (done_ids waiting_storage) \<and>
   (\<exists>k. tasks waiting_storage (message_task (Message MESSAGE_SET 0)) = Some k)"
  using tasks_complete_once [OF waiting_reachable [of "memory_env Little" 1]]
  by (simp add: in_machine_def queued_def)



text \<open>
  C26: a stack that holds one more call of \<^verbatim>\<open>handle_txn_commit\<close> than commits are waiting is
  enough for a commit and all those behind it, as long as the transform does not exhaust it.
\<close>

theorem commit_stack_bound:
  assumes "reachable E depth s" "transform_shallow s" "m \<in> set (ex_port s)" "what m = MESSAGE_TXN_COMMIT"
    and "length (txn_commits s) < depth'"
  shows "catalina_storage_ex_handle_message E depth' m (s\<lparr>ex_port := remove1 m (ex_port s)\<rparr>) \<noteq> Inl Stack_Exhausted"
proof -
  let ?s = "s\<lparr>ex_port := remove1 m (ex_port s)\<rparr>"
  have "idle_ok (add_mset m {#}) ?s" using idle_take(1) [OF reachable_idle [OF assms(1)] assms(3)] .
  then have "control_ok ?s" using ok_parts(6) by (auto simp: idle_ok_def)
  moreover have "transform_shallow ?s" using assms(2) by (simp add: transform_shallow_def)
  ultimately show ?thesis
    using handle_txn_commit_shallow [of ?s depth' E m] assms(4,5)
    by (simp add: catalina_storage_ex_handle_message.simps)
qed

definition committing_storage :: "(unit, (bytes \<times> bytes) list) storage" where
  "committing_storage = post_ex MESSAGE_TXN_COMMIT 0
     (with_task (new_task\<lparr>task_txn_id := 7, task_waiter := Async_Result (User_Callback 0) Tag_Commit\<rparr>) (catalina_storage_init []))"

lemma committing_reachable: "reachable E depth committing_storage"
proof -
  have "catalina_storage_transaction_commit_async 7 (User_Callback 0)
      (catalina_storage_init [] :: (unit, (bytes \<times> bytes) list) storage) = Inr (0, committing_storage)"
    by (simp add: catalina_storage_transaction_commit_async_def storage_task_new_def Let_def upd_task_Some catalina_storage_init_def)
      (simp add: committing_storage_def new_task_def with_task_def post_ex_def catalina_storage_init_def)
  then show ?thesis by (intro reachable.stepped [OF reachable.started step.commit_async]) simp_all
qed

lemma committing_fields [simp]:
  "ex_port committing_storage = [Message MESSAGE_TXN_COMMIT 0]" "txn_commits committing_storage = []"
  "transform_shallow committing_storage"
  by (simp_all add: committing_storage_def post_ex_def with_task_def catalina_storage_init_def transform_shallow_def)

theorem commit_stack_bound_witness:
  "catalina_storage_ex_handle_message (memory_env Little) 1 (Message MESSAGE_TXN_COMMIT 0) (committing_storage\<lparr>ex_port := []\<rparr>)
    \<noteq> Inl Stack_Exhausted"
  using commit_stack_bound [OF committing_reachable [of "memory_env Little" 1], of "Message MESSAGE_TXN_COMMIT 0" 1] by simp

section \<open>Requests handled concurrently\<close>

text \<open>
  The abstract specification of the concurrent port: a lookup or a count is a function of its
  task, the database and the transform. It says whether the task succeeds and what it holds.
\<close>

definition lookup_result :: "'w env \<Rightarrow> nat option \<Rightarrow> 'w \<Rightarrow> transform_iface option \<Rightarrow> 'o task \<Rightarrow> (bool \<times> 'o task) result" where
  "lookup_result E db w tr k = (case db of
     None \<Rightarrow> Inr (False, task_set_error STORAGE_ERROR_STATE k)
   | Some ctx \<Rightarrow> c_bind (read_mem (task_key k) (unat (task_key_length k))) (\<lambda>key.
       case tdb_fetch E ctx key w of
         None \<Rightarrow> Inr (False, task_set_error STORAGE_ERROR_NO_SUCH_KEY k)
       | Some stored \<Rightarrow>
           let found = (\<lambda>p n. (True, k\<lparr>task_data := p, task_data_length := n\<rparr>)) in
           case tr of
             None \<Rightarrow> Inr (found (Some stored) (of_nat (length stored)))
           | Some T \<Rightarrow> c_bind (catalina_transform_read T (Some stored) (of_nat (length stored))) (\<lambda>r.
               case r of
                 Transform_Failed e \<Rightarrow> Inr (False, task_set_error e k)
               | Transformed p n \<Rightarrow> Inr (if n = 0 then found (Some stored) (of_nat (length stored)) else found p n))))"

definition count_result :: "'w env \<Rightarrow> nat option \<Rightarrow> 'w \<Rightarrow> 'o task \<Rightarrow> bool \<times> 'o task" where
  "count_result E db w k = (True, k\<lparr>task_value := VULong (case db of
     None \<Rightarrow> 0 | Some ctx \<Rightarrow> of_nat (length (tdb_traverse E ctx w)))\<rparr>)"

definition request_result :: "'w env \<Rightarrow> message_type \<Rightarrow> ('o, 'w) storage \<Rightarrow> 'o task \<Rightarrow> (bool \<times> 'o task) result" where
  "request_result E ty s k = (if ty = MESSAGE_GET then lookup_result E (db_ctx s) (world s) (storage_transform s) k
     else Inr (count_result E (db_ctx s) (world s) k))"

lemma completed_same_task [simp]:
  "completed_state t b k (s\<lparr>tasks := (tasks s)(t \<mapsto> k')\<rparr>) = completed_state t b k s"
  by (simp add: completed_state_def split: waiter.split)

lemma handle_get_result:
  assumes "tasks s t = Some k" "task_txn_id k = 0"
  shows "handle_get E (Message MESSAGE_GET t) s =
    c_bind (lookup_result E (db_ctx s) (world s) (storage_transform s) k) (\<lambda>(b, k'). Inr (completed_state t b k' s))"
proof -
  have f: "fail_with E e t s = Inr (completed_state t False (task_set_error e k) s)" for e
    using assms by (intro fail_with_no_txn) simp_all
  have g: "storage_task_succeed t (s\<lparr>tasks := (tasks s)(t \<mapsto> k\<lparr>task_data := p, task_data_length := n\<rparr>)\<rparr>) =
      Inr (completed_state t True (k\<lparr>task_data := p, task_data_length := n\<rparr>) s)" for p n
    by (simp add: storage_task_succeed_eq [where k = "k\<lparr>task_data := p, task_data_length := n\<rparr>"])
  show ?thesis
  proof (cases "db_ctx s")
    case None
    then show ?thesis by (simp add: handle_get_def lookup_result_def f)
  next
    case (Some ctx)
    note db = this
    show ?thesis
    proof (cases "read_mem (task_key k) (unat (task_key_length k))")
      case (Inl e)
      then show ?thesis using db assms by (simp add: handle_get_def lookup_result_def)
    next
      case (Inr key)
      show ?thesis
      proof (cases "tdb_fetch E ctx key (world s)")
        case None
        then show ?thesis using db assms Inr by (simp add: handle_get_def lookup_result_def f)
      next
        case (Some stored)
        show ?thesis
        proof (cases "storage_transform s")
          case None
          then show ?thesis using db assms Inr Some
            by (simp add: handle_get_def lookup_result_def Let_def upd_task_Some g)
        next
          case (Some T)
          then show ?thesis using db assms Inr \<open>tdb_fetch E ctx key (world s) = Some stored\<close>
            by (cases "catalina_transform_read T (Some stored) (of_nat (length stored))")
              (auto simp: handle_get_def lookup_result_def Let_def upd_task_Some f g split: transform_out.split)
        qed
      qed
    qed
  qed
qed

lemma cn_handle_result:
  fixes s :: "('o, 'w) storage"
  assumes "ty = MESSAGE_GET \<or> ty = MESSAGE_COUNT_KEYS" "tasks s t = Some k" "task_txn_id k = 0"
  shows "catalina_storage_cn_handle_message E (Message ty t) s =
    c_bind (request_result E ty s k) (\<lambda>(b, k'). Inr (completed_state t b k' s))"
proof (cases "ty = MESSAGE_GET")
  case True
  then show ?thesis
    by (simp add: catalina_storage_cn_handle_message_def request_result_def handle_get_result [OF assms(2,3)])
next
  case False
  then have ty: "ty = MESSAGE_COUNT_KEYS" using assms(1) by simp
  show ?thesis
    by (simp add: handle_count_keys_eq [OF assms(2)] ty catalina_storage_cn_handle_message_def request_result_def count_result_def)
qed

text \<open>
  C19: the handlers of the concurrent port implement that specification: they complete their
  own task with its result and change nothing else of the storage.
\<close>

theorem concurrent_handlers_refine:
  fixes s :: "('o, 'w) storage"
  assumes "ty = MESSAGE_GET \<or> ty = MESSAGE_COUNT_KEYS" "tasks s t = Some k" "task_txn_id k = 0"
  shows "catalina_storage_cn_handle_message E (Message ty t) s =
    c_bind (request_result E ty s k) (\<lambda>(b, k'). Inr (completed_state t b k' s))"
  by (rule cn_handle_result [OF assms])

definition looking_up :: "bytes \<Rightarrow> 'o task" where
  "looking_up key = new_task\<lparr>task_key := Some key, task_key_length := of_nat (length key)\<rparr>"

text \<open>Task 0 looks up a key, task 1 counts.\<close>

definition two_lookups :: "(unit, (bytes \<times> bytes) list) storage" where
  "two_lookups = (open_storage [([65], [7])])\<lparr>tasks := (\<lambda>t. if t = 0 then Some (looking_up [65]) else Some new_task)\<rparr>"

lemma two_lookups_fields [simp]:
  "db_ctx two_lookups = Some 0" "world two_lookups = [([65], [7])]" "storage_transform two_lookups = None"
  "tasks two_lookups 0 = Some (looking_up [65])" "tasks two_lookups (Suc 0) = Some new_task"
  by (simp_all add: two_lookups_def)

theorem concurrent_handlers_refine_witness:
  "catalina_storage_cn_handle_message (memory_env Little) (Message MESSAGE_GET 0) two_lookups =
   Inr (completed_state 0 True ((looking_up [65])\<lparr>task_data := Some [7], task_data_length := 1\<rparr>) two_lookups)"
  using concurrent_handlers_refine [of MESSAGE_GET two_lookups 0 "looking_up [65]" "memory_env Little"]
  by (simp add: request_result_def lookup_result_def looking_up_def new_task_def memory_env_def read_mem_def load_bytes_def)

lemma request_result_completed [simp]: "request_result E ty (completed_state t b k' s) k = request_result E ty s k"
  by (simp add: request_result_def)

text \<open>
  C27: two requests of the concurrent port may be handled in either order: the tasks get the
  same results, the storage is the same, and only the order of the two completions differs.
\<close>

theorem concurrent_requests_commute:
  fixes s :: "('o, 'w) storage"
  assumes "ty1 \<in> {MESSAGE_GET, MESSAGE_COUNT_KEYS}" "ty2 \<in> {MESSAGE_GET, MESSAGE_COUNT_KEYS}" "t1 \<noteq> t2"
    and "tasks s t1 = Some k1" "task_txn_id k1 = 0" "request_result E ty1 s k1 = Inr r1"
    and "tasks s t2 = Some k2" "task_txn_id k2 = 0" "request_result E ty2 s k2 = Inr r2"
  shows "\<exists>sa sb. c_bind (catalina_storage_cn_handle_message E (Message ty1 t1) s)
        (catalina_storage_cn_handle_message E (Message ty2 t2)) = Inr sa \<and>
    c_bind (catalina_storage_cn_handle_message E (Message ty2 t2) s)
        (catalina_storage_cn_handle_message E (Message ty1 t1)) = Inr sb \<and>
    sb = sa\<lparr>completions := completions sb\<rparr> \<and> mset (completions sb) = mset (completions sa)"
proof -
  obtain b1 k1' b2 k2' where r: "r1 = (b1, k1')" "r2 = (b2, k2')" by fastforce
  let ?sa = "completed_state t2 b2 k2' (completed_state t1 b1 k1' s)"
  let ?sb = "completed_state t1 b1 k1' (completed_state t2 b2 k2' s)"
  have h: "catalina_storage_cn_handle_message E (Message ty1 t1) s0 = Inr (completed_state t1 b1 k1' s0)"
    if "tasks s0 t1 = Some k1" "request_result E ty1 s0 k1 = Inr r1" for s0
    using cn_handle_result [of ty1 s0 t1 k1 E] assms(1,5) that r by auto
  have h': "catalina_storage_cn_handle_message E (Message ty2 t2) s0 = Inr (completed_state t2 b2 k2' s0)"
    if "tasks s0 t2 = Some k2" "request_result E ty2 s0 k2 = Inr r2" for s0
    using cn_handle_result [of ty2 s0 t2 k2 E] assms(2,8) that r by auto
  have "?sb = ?sa\<lparr>completions := completions ?sb\<rparr>"
    using assms(3) by (intro storage.equality) (auto simp: completed_state_def fun_eq_iff)
  moreover have "mset (completions ?sb) = mset (completions ?sa)"
    by (simp add: completed_state_def)
  ultimately show ?thesis using h h' assms(3,4,6,7,9) by simp
qed

theorem concurrent_requests_commute_witness:
  "\<exists>sa sb. c_bind (catalina_storage_cn_handle_message (memory_env Little) (Message MESSAGE_GET 0) two_lookups)
        (catalina_storage_cn_handle_message (memory_env Little) (Message MESSAGE_COUNT_KEYS 1)) = Inr sa \<and>
    c_bind (catalina_storage_cn_handle_message (memory_env Little) (Message MESSAGE_COUNT_KEYS 1) two_lookups)
        (catalina_storage_cn_handle_message (memory_env Little) (Message MESSAGE_GET 0)) = Inr sb \<and>
    tasks sb = tasks sa \<and> mset (completions sb) = mset (completions sa)"
proof -
  have k: "task_txn_id (looking_up [65]) = 0" "task_txn_id new_task = 0" by (simp_all add: looking_up_def new_task_def)
  have r: "request_result (memory_env Little) MESSAGE_GET two_lookups (looking_up [65]) =
      Inr (True, (looking_up [65])\<lparr>task_data := Some [7], task_data_length := 1\<rparr>)"
    by (simp add: request_result_def lookup_result_def looking_up_def new_task_def memory_env_def read_mem_def load_bytes_def)
  have c: "request_result (memory_env Little) MESSAGE_COUNT_KEYS two_lookups new_task =
      Inr (count_result (memory_env Little) (Some 0) [([65], [7])] new_task)"
    by (simp add: request_result_def)
  have "\<exists>sa sb. c_bind (catalina_storage_cn_handle_message (memory_env Little) (Message MESSAGE_GET 0) two_lookups)
        (catalina_storage_cn_handle_message (memory_env Little) (Message MESSAGE_COUNT_KEYS 1)) = Inr sa \<and>
    c_bind (catalina_storage_cn_handle_message (memory_env Little) (Message MESSAGE_COUNT_KEYS 1) two_lookups)
        (catalina_storage_cn_handle_message (memory_env Little) (Message MESSAGE_GET 0)) = Inr sb \<and>
    sb = sa\<lparr>completions := completions sb\<rparr> \<and> mset (completions sb) = mset (completions sa)"
    by (rule concurrent_requests_commute [OF _ _ _ _ k(1) r _ k(2) c]) simp_all
  then obtain sa sb where "sb = sa\<lparr>completions := completions sb\<rparr>"
    and *: "c_bind (catalina_storage_cn_handle_message (memory_env Little) (Message MESSAGE_GET 0) two_lookups)
        (catalina_storage_cn_handle_message (memory_env Little) (Message MESSAGE_COUNT_KEYS 1)) = Inr sa"
      "c_bind (catalina_storage_cn_handle_message (memory_env Little) (Message MESSAGE_COUNT_KEYS 1) two_lookups)
        (catalina_storage_cn_handle_message (memory_env Little) (Message MESSAGE_GET 0)) = Inr sb"
      "mset (completions sb) = mset (completions sa)"
    by (elim exE conjE) iprover
  then have "tasks sb = tasks sa" by (metis storage.select_convs(12) storage.surjective storage.update_convs(14))
  with * show ?thesis by iprover
qed

section \<open>A typed update that fails early\<close>

text \<open>
  C30: \<^verbatim>\<open>catalina_storage_set_value_async\<close> on a storage without a formatter completes its task
  in the main loop and frees it at once: when the callback runs, the finish function it is
  told to call reads a freed task.
\<close>

theorem set_value_async_frees_early:
  fixes s :: "('o, 'w) storage"
  assumes "storage_formatter s = None" "use_idle s"
  shows "\<exists>s'. catalina_storage_set_value_async E txn_id key key_length v cb s = Inr (Some (next_task s), s') \<and>
    In_Idle (next_task s) \<in> set (completions s') \<and>
    catalina_storage_set_value_finish (next_task s) error s' = Inl Use_After_Free"
proof -
  let ?k = "new_task\<lparr>task_waiter := Async_Result cb Tag_Set_Value\<rparr>" and ?t = "next_task s"
  have n: "storage_task_new (Async_Result cb Tag_Set_Value) s = (?t, with_task ?k s)"
    by (simp add: storage_task_new_def Let_def new_task_def with_task_def)
  have "fail_with E STORAGE_ERROR_STATE ?t (with_task ?k s) =
      Inr (completed_state ?t False (task_set_error STORAGE_ERROR_STATE ?k) (with_task ?k s))"
    by (intro fail_with_no_txn) (simp_all add: new_task_def)
  moreover have "use_idle (with_task ?k s)" "storage_formatter (with_task ?k s) = None"
    using assms by (simp_all add: with_task_def)
  ultimately show ?thesis
    by (simp add: catalina_storage_set_value_async_def n storage_task_free_def)
      (simp add: completed_state_def task_set_error_def catalina_storage_set_value_finish_def get_task_def)
qed

theorem set_value_async_frees_early_witness:
  "\<exists>s'. catalina_storage_set_value_async (memory_env Little) 0 (Some [65]) 1 (VInt 3) (User_Callback 0)
      (open_storage [] :: (unit, (bytes \<times> bytes) list) storage) = Inr (Some 0, s') \<and>
    In_Idle 0 \<in> set (completions s') \<and> catalina_storage_set_value_finish 0 None s' = Inl Use_After_Free"
proof -
  have "use_idle (open_storage [] :: (unit, (bytes \<times> bytes) list) storage)"
    by (simp add: open_storage_def catalina_storage_init_def)
  then show ?thesis
    using set_value_async_frees_early [of "open_storage [] :: (unit, (bytes \<times> bytes) list) storage" "memory_env Little" 0
        "Some [65]" 1 "VInt 3" "User_Callback 0" None] by simp
qed

end
