(* ===== verification/Storage_Progress.thy ===== *)
theory Storage_Progress
  imports Storage_Runs
begin

text \<open>
  No request is lost on an idle storage: what a handler does with a message in the end. Its
  task is completed, or the message waits in a transaction or among the commits; the one
  exception is the plain update that meets a current transaction.
\<close>

section \<open>What becomes of a commit\<close>

text \<open>The task of a commit that is run or refused is completed, whatever the commits behind it do.\<close>

lemma handle_txn_commit_result:
  assumes "handle_txn_commit E depth m s = Inr s'" "what m = MESSAGE_TXN_COMMIT"
  shows "message_task m \<in> set (done_ids s') \<or> txn s \<noteq> 0 \<and> m \<in> set (txn_commits s')"
proof (cases depth)
  case 0
  then show ?thesis using assms(1) by (simp add: handle_txn_commit.simps)
next
  case (Suc d)
  show ?thesis
    using assms unfolding Suc
  proof (cases rule: commit_cases)
    case aside
    then show ?thesis by simp
  next
    case (refused i w e)
    then show ?thesis by (auto simp: completes_def dest!: completing)
  next
    case (run i w hk ctx b s2)
    from run(2) show ?thesis
    proof (rule commit_tail_result)
      fix s3 assume c: "completes (message_task m) s2 s3" and n: "s' = s3 \<or> (\<exists>m' commits. txn_commits s3 = m' # commits \<and>
            handle_txn_commit E d m' (s3\<lparr>txn_commits := commits\<rparr>) = Inr s')"
      have "grows s3 s'" using n handle_txn_commit_grows by (fastforce simp: grows_def)
      then show ?thesis using completes_grows(2) [OF c] by (auto simp: grows_def)
    qed
  qed
qed

section \<open>Handlers return\<close>

text \<open>
  What a handler reads through the pointers of its task is there, and the transform, if there is
  one, returns for the data of an update, with a block of the length it reports.
\<close>

definition transform_takes :: "transform_iface \<Rightarrow> bytes option \<Rightarrow> gsize \<Rightarrow> bool" where
  "transform_takes T p n \<longleftrightarrow> (\<exists>r. catalina_transform_write T p n = Inr r \<and>
     (\<forall>b len. r = Transformed (Some b) len \<longrightarrow> unat len \<le> length b))"

definition arguments_readable :: "('o, 'w) storage \<Rightarrow> message \<Rightarrow> bool" where
  "arguments_readable s m \<longleftrightarrow> (\<exists>k. tasks s (message_task m) = Some k \<and>
     (what m = MESSAGE_OPEN \<longrightarrow> (\<exists>path. c_text (task_key k) = Inr path)) \<and>
     (what m = MESSAGE_SET \<longrightarrow> (\<exists>db_key val. read_mem (task_key k) (unat (task_key_length k)) = Inr db_key \<and>
        read_mem (task_data k) (unat (task_data_length k)) = Inr val) \<and>
        (\<forall>T. storage_transform s = Some T \<longrightarrow> transform_takes T (task_data k) (task_data_length k))))"

lemma arguments_readable_cong: "tasks s' = tasks s \<Longrightarrow> storage_transform s' = storage_transform s \<Longrightarrow> arguments_readable s' m = arguments_readable s m"
  by (simp add: arguments_readable_def)

lemma returnsI: "(\<And>e. r \<noteq> Inl e) \<Longrightarrow> \<exists>x. r = Inr x"
  by (cases r) auto

lemma store_now_returns:
  assumes "tasks s t = Some k" "read_mem (task_key k) (unat (task_key_length k)) = Inr db_key"
    and "read_mem (task_data k) (unat (task_data_length k)) = Inr val"
    and "\<And>T. storage_transform s = Some T \<Longrightarrow> transform_takes T (task_data k) (task_data_length k)"
  shows "store_now E ctx t k s \<noteq> Inl e"
proof (cases "storage_transform s")
  case None
  then show ?thesis
    using assms by (auto simp: store_now_def fault_simps split: prod.splits if_splits)
next
  case (Some T)
  then obtain r where r: "catalina_transform_write T (task_data k) (task_data_length k) = Inr r"
    and len: "\<And>b n. r = Transformed (Some b) n \<Longrightarrow> unat n \<le> length b"
    using assms(4) unfolding transform_takes_def by blast
  show ?thesis
  proof (cases r)
    case (Transform_Failed e)
    then show ?thesis using assms Some r by (simp add: store_now_def fail_with_Inl)
  next
    case (Transformed buffer n)
    have "\<exists>bs. read_mem (if buffer \<noteq> None then buffer else task_data k)
        (unat (if buffer \<noteq> None then n else task_data_length k)) = Inr bs"
    proof (cases buffer)
      case None
      then show ?thesis using assms(3) by simp
    next
      case (Some b)
      then show ?thesis using len [of b n] Transformed by (simp add: read_mem_def load_bytes_def)
    qed
    then show ?thesis
      using assms Some r Transformed by (auto simp: store_now_def fault_simps split: prod.splits if_splits)
  qed
qed

lemma handle_set_returns:
  assumes "what m = MESSAGE_SET" "arguments_readable s m"
  shows "handle_set E m s \<noteq> Inl e"
proof -
  obtain k db_key val where k: "tasks s (message_task m) = Some k"
    "read_mem (task_key k) (unat (task_key_length k)) = Inr db_key"
    "read_mem (task_data k) (unat (task_data_length k)) = Inr val"
    "\<And>T. storage_transform s = Some T \<Longrightarrow> transform_takes T (task_data k) (task_data_length k)"
    using assms(1,2) by (auto simp: arguments_readable_def)
  show ?thesis
  proof (cases "db_ctx s")
    case None
    then show ?thesis using assms(1) k by (simp add: handle_set_def fault_simps)
  next
    case (Some ctx)
    show ?thesis
      unfolding handle_set_cases [OF assms(1) Some k(1)]
      using k by (auto simp: fault_simps store_now_returns split: option.split)
  qed
qed

lemma handle_open_returns:
  assumes "what m = MESSAGE_OPEN" "arguments_readable s m" "txn_commits s = []"
  shows "handle_open E m s \<noteq> Inl e"
proof -
  obtain k path where k: "tasks s (message_task m) = Some k" "c_text (task_key k) = Inr path"
    using assms(1,2) by (auto simp: arguments_readable_def)
  show ?thesis
  proof (cases "db_ctx s")
    case None
    have "tasks (opening_state E path s) = tasks s" by (simp add: opening_state_def Let_def)
    then show ?thesis
      unfolding handle_open_eq [OF assms(1) k(1) None k(2) assms(3)]
      using k by (auto simp: Let_def fault_simps split: prod.split option.split)
  qed (use assms k in \<open>auto simp: handle_open_def fault_simps\<close>)
qed

lemma control_handlers_return:
  assumes "tasks s (message_task m) \<noteq> None"
  shows "handle_close E m s \<noteq> Inl e" "handle_txn_begin E m s \<noteq> Inl e" "handle_txn_cancel E m s \<noteq> Inl e"
  using assms
  by (auto simp: handle_close_def handle_txn_begin_def handle_txn_cancel_def fault_simps split: option.splits prod.splits)

text \<open>The run of the updates of a transaction.\<close>

lemma run_msgs_returns:
  assumes "ok K (mset ms + add_mset mc M) s" "\<forall>m\<in>set ms. what m = MESSAGE_SET \<and> arguments_readable s m"
    and "map_of (txn_states s) hk \<noteq> None"
  shows "\<exists>b s'. run_msgs E depth hk (message_task mc) ms s = Inr (b, s') \<and>
    tasks s' (message_task mc) \<noteq> None \<and> txn_commits s' = txn_commits s"
  using assms
proof (induction ms arbitrary: s)
  case Nil
  then show ?case using ok_live by fastforce
next
  case (Cons m ms)
  have w: "what m = MESSAGE_SET" "arguments_readable s m" using Cons.prems(2) by simp_all
  have ok: "ok K (add_mset m (mset ms + add_mset mc M)) s" using Cons.prems(1) by (simp add: add_mset_commute)
  obtain k where k: "tasks s (message_task m) = Some k" using ok_live [OF ok] by blast
  obtain s1 where s1: "handle_set E m s = Inr s1"
    using returnsI [OF handle_set_returns [OF w]] by blast
  have ex: "catalina_storage_ex_handle_message E depth m s = Inr s1"
    using w(1) s1 by (simp add: catalina_storage_ex_handle_message.simps)
  have ok1: "ok K (mset ms + add_mset mc M) s1" using handle_set_ok [OF ok w(1), of E] s1 by simp
  have eff: "effect m s s1" using s1 w(1) k by (rule effect_handle_set)
  have other: "message_task m' \<noteq> message_task m" if "m' \<in># mset ms + add_mset mc M" for m'
    using ok that by (intro sound_distinct_tasks [where M = "mset ms + add_mset mc M + parts K s"]) (auto simp: ok_def)
  have read1: "\<forall>m'\<in>set ms. what m' = MESSAGE_SET \<and> arguments_readable s1 m'"
    using Cons.prems(2) other eff by (auto simp: arguments_readable_def effect_def)
  have t1: "txn_commits s1 = txn_commits s"
    using eff by (simp add: effect_def)
  obtain st where st: "map_of (txn_states s1) hk = Some st"
    using handle_set_keeps [OF s1 w(1) k Cons.prems(3)] by auto
  obtain kc where kc: "tasks s1 (message_task mc) = Some kc"
    using ok_live [OF ok_mono [OF ok1, of "add_mset mc {#}"]] by auto
  show ?case
  proof (cases "txn_error st")
    case None
    then show ?thesis using Cons.IH [OF ok1 read1] st t1 ex by simp
  next
    case (Some e)
    then show ?thesis using ex st kc t1 by (auto simp: take_txn_error_def upd_task_Some)
  qed
qed

lemma commit_tail_returns:
  assumes "tasks s t \<noteq> None" "txn_commits s = []"
  shows "commit_tail E depth ctx hk t b s \<noteq> Inl e"
proof -
  have s: "storage_task_succeed t s1 = Inr s2 \<Longrightarrow> txn_commits s2 = txn_commits s1"
    and f: "storage_task_fail E t s1 = Inr s2 \<Longrightarrow> txn_commits s2 = txn_commits s1" for s1 s2 :: "('a, 'b) storage"
    by (erule completed_of_succeed, simp) (drule effect_fail [of E "Message MESSAGE_SET t", simplified], simp add: effect_def)
  show ?thesis
    using assms
    by (auto simp: commit_tail_def fault_simps split: prod.splits if_splits list.splits dest!: s f)
qed

lemma handle_txn_commit_returns:
  assumes ok: "ok {} (add_mset m M) s" and "what m = MESSAGE_TXN_COMMIT" "txn s = 0" "txn_commits s = []"
    and "\<forall>m'\<in>#queued {} s. arguments_readable s m'"
  shows "handle_txn_commit E (Suc depth) m s \<noteq> Inl e"
proof (cases "db_ctx s")
  case None
  then show ?thesis
    using assms(2) ok_live [OF ok] by (auto simp: handle_txn_commit.simps fail_with_Inl)
next
  case (Some ctx)
  note db = this
  obtain task where k: "tasks s (message_task m) = Some task" using ok_live [OF ok] by blast
  let ?id = "task_txn_id task" and ?hk = "txn_hash_key (host E) (task_txn_id task)"
  obtain ret w where start: "tdb_transaction_start E ctx (world s) = (ret, w)" by (metis prod.collapse)
  show ?thesis
  proof (cases "map_of (txn_states s) ?hk")
    case None
    then show ?thesis using assms(2,3) db k by (simp add: handle_txn_commit.simps fail_with_Inl)
  next
    case (Some st)
    let ?s2 = "s\<lparr>txn := ?id, world := w, txn_states := AList.update ?hk (st\<lparr>msgs := rev (msgs st)\<rparr>) (txn_states s)\<rparr>"
    have "m' \<in># queued {} s" if "m' \<in> set (msgs st)" for m'
      using mset_subset_eqD [OF queued_in_taken [OF Some, of "{}"], of m'] that by (simp add: queued_def)
    moreover have "only_sets (txn_states s)" using ok_parts(1) [OF ok] by (simp add: sets_only_iff)
    ultimately have "\<forall>m'\<in>set (rev (msgs st)). what m' = MESSAGE_SET \<and> arguments_readable s m'"
      using assms(5) only_sets_msgs [OF _ Some] by simp
    then have "\<forall>m'\<in>set (rev (msgs st)). what m' = MESSAGE_SET \<and> arguments_readable ?s2 m'"
      by (simp add: arguments_readable_cong [of ?s2 s])
    moreover have "map_of (txn_states ?s2) ?hk \<noteq> None" by (simp add: update_conv')
    ultimately have "\<exists>b s3. run_msgs E depth ?hk (message_task m) (rev (msgs st)) ?s2 = Inr (b, s3) \<and>
        tasks s3 (message_task m) \<noteq> None \<and> txn_commits s3 = txn_commits ?s2"
      by (intro run_msgs_returns [OF commit_taken [OF ok db Some]])
    then obtain b s3 where "run_msgs E depth ?hk (message_task m) (rev (msgs st)) ?s2 = Inr (b, s3)"
      and s3: "tasks s3 (message_task m) \<noteq> None" "txn_commits s3 = []"
      using assms(4) by auto
    then have run: "txn_state_run E depth ?hk (message_task m) (s\<lparr>txn := ?id, world := w\<rparr>) = Inr (b, s3)"
      using Some by (simp add: txn_state_run.simps Let_def)
    have "c_bind (txn_state_run E depth ?hk (message_task m) (s\<lparr>txn := ?id, world := w\<rparr>))
        (\<lambda>(b, s'). commit_tail E depth ctx ?hk (message_task m) b s') \<noteq> Inl e"
      using run commit_tail_returns [OF s3] by simp
    then show ?thesis
      using assms(2,3) db k Some start
      by (auto simp: handle_txn_commit.simps Let_def commit_tail_def [abs_def] fail_with_Inl)
  qed
qed

section \<open>Every request has its outcome\<close>



text \<open>The zlib transform takes every update whose data are in its domain.\<close>

lemma zlib_takes:
  assumes r: "read_mem p (unat n) = Inr val" and d: "zlib_domain Z pending transform val"
  shows "transform_takes (zlib_transform_base_init Z h junk transform) p n"
proof -
  have v: "length val = unat n" using r by (auto simp: read_mem_def load_bytes_def split: option.splits if_splits)
  have small: "length val < 2 ^ 32" using d by (simp add: zlib_domain_def)
  have n: "n = of_nat (length val)" by (simp add: v)
  have m: "unat (ucast n :: guint) = length val" using small v by (simp add: unsigned_ucast_eq take_bit_nat_eq_self)
  have same: "read_mem p (unat n) = read_mem (Some val) (unat n)"
    "read_mem p (unat (ucast n :: guint)) = read_mem (Some val) (unat (ucast n :: guint))"
    using r v m by (simp_all add: read_mem_def load_bytes_def)
  have "zlib_real_write Z h junk transform p n = zlib_real_write Z h junk transform (Some val) n"
    unfolding zlib_real_write_def Let_def same by (rule refl)
  then have "zlib_real_write Z h junk transform p n = zlib_real_write Z h junk transform (Some val) (of_nat (length val))"
    using n by simp
  moreover obtain out where "zlib_real_write Z h junk transform (Some val) (of_nat (length val)) =
      Some (Inr (Transformed (Some out) (of_nat (length out))))"
    using plain_written [of transform val Z h junk] compressed_written [OF d, of h junk] small
    by (cases "stored_plain transform val") fastforce+
  ultimately show ?thesis
    by (auto simp: transform_takes_def catalina_transform_write_def zlib_transform_base_init_def unat_of_nat)
qed

end
