(* ===== verification/Typed_Storage.thy ===== *)
theory Typed_Storage
  imports Storage_Runs Formatter_Interface
begin

text \<open>
  The storage with its formatter and its transform: \<^verbatim>\<open>catalina_storage_set_value\<close> serialises a
  value, transforms the buffer and stores it, \<^verbatim>\<open>catalina_storage_get_value\<close> goes the way back.
  The client's lemma is proved once from the two contracts, and holds for the binary
  formatter with the zlib transform by interpretation.
\<close>

section \<open>The client of the two interfaces\<close>

lemma get_value_is_get:
  assumes "kb \<noteq> []" "length kb < 2 ^ 63" "storage_formatter s = Some formatter"
  shows "catalina_storage_get_value E (Some kb) (of_nat (length kb)) v s =
    c_bind (catalina_storage_get E (Some kb) (of_nat (length kb)) (None, 0) s) (\<lambda>(((success, buffer, buffer_length), e), s).
      if \<not> success then Inr ((False, v, e), s)
      else case storage_formatter s of
        None \<Rightarrow> Inl Null_Pointer
      | Some formatter \<Rightarrow>
          c_bind (catalina_formatter_deserialize formatter (Some v) (block buffer) buffer_length) (\<lambda>(ok, v', err).
          Inr ((ok, (case v' of None \<Rightarrow> v | Some v' \<Rightarrow> v'), map_option FORMATTER_ERROR err), s)))"
  using length_ok_of_nat(1) [OF assms(1,2)] assms(3)
  by (simp add: catalina_storage_get_value_def catalina_storage_get_value_post_def catalina_storage_get_def
      get_posted [OF assms(1,2)] catalina_storage_get_value_return_def [abs_def] c_bind_assoc)

locale typed_storage = formatter_contract formatter value_domain image + transform_contract transform buffer_domain
  for formatter :: "'o formatter_iface" and value_domain :: "'o gvalue \<Rightarrow> bool" and image :: "'o gvalue \<Rightarrow> 'o gvalue"
    and transform :: transform_iface and buffer_domain :: "bytes \<Rightarrow> bool" +
  assumes fits: "value_domain v \<Longrightarrow>
    catalina_formatter_serialize formatter v = Inr (True, buf, of_nat (length buf)) \<Longrightarrow> buffer_domain buf"
begin

lemma set_value_then_get_value:
  fixes s :: "('o, 'w) storage"
  assumes "tdb_behaves E contents" "stores_succeed E" "tasks_fresh s" "db_ctx s = Some ctx" "txn s = 0"
    and "storage_formatter s = Some formatter" "storage_transform s = Some transform"
    and kb: "kb \<noteq> []" "length kb < 2 ^ 63" and v: "value_domain v"
  shows "\<exists>s' s''. catalina_storage_set_value E depth 0 (Some kb) (of_nat (length kb)) v s = Inr ((True, None), s') \<and>
    catalina_storage_get_value E (Some kb) (of_nat (length kb)) VUnset s' = Inr ((True, image v, None), s'')"
proof -
  obtain buf where buf: "catalina_formatter_serialize formatter v = Inr (True, buf, of_nat (length buf))"
    "buf \<noteq> []" "length buf < 2 ^ 32"
    "catalina_formatter_deserialize formatter (Some VUnset) buf (of_nat (length buf)) = Inr (True, Some (image v), None)"
    using serialized [OF v] by blast
  have kp: "storage_keeps (storage_transform s) buf (written_form buf)"
    using keeps [OF fits [OF v buf(1)] buf(2)] assms(7) by simp
  obtain w where w: "tdb_store E ctx kb (written_form buf) (tdb_replace E) (world s) = (0, w)"
    using assms(2) by (metis prod.collapse stores_succeed_def)
  let ?s' = "after_call (s\<lparr>world := w\<rparr>)"
  have small: "length buf < 2 ^ 63" using buf(3) by simp
  have set_: "catalina_storage_set E depth 0 (Some kb) (of_nat (length kb)) (Some buf) (of_nat (length buf)) s =
      Inr ((True, None), ?s')"
    using assms(3-5) w kp small by (intro set_call kb) (simp_all add: storage_keeps_def)
  have "tdb_fetch E ctx kb w = Some (written_form buf)"
    using assms(1) w unfolding tdb_behaves_def by (metis fst_conv snd_conv fun_upd_same)
  then have get: "catalina_storage_get E (Some kb) (of_nat (length kb)) (None, 0) ?s' =
      Inr (((True, Some buf, of_nat (length buf)), None), after_call ?s')"
    using assms(3,4) kp by (intro get_call [where ctx = ctx and stored = "written_form buf"] kb) (simp_all add: storage_keeps_def)
  have lk: "length_ok (of_nat (length kb))" using length_ok_of_nat(1) [OF kb] .
  have "catalina_storage_set_value E depth 0 (Some kb) (of_nat (length kb)) v s =
      catalina_storage_set E depth 0 (Some kb) (of_nat (length kb)) (Some buf) (of_nat (length buf)) s"
    using lk assms(6) buf(1)
    by (simp add: catalina_storage_set_value_def catalina_storage_set_value_post_def catalina_storage_set_def set_posted [OF kb small])
  moreover have "catalina_storage_get_value E (Some kb) (of_nat (length kb)) VUnset ?s' =
      Inr ((True, image v, None), after_call ?s')"
    using get_value_is_get [OF kb, of ?s' formatter E VUnset] get assms(6) buf(4) by (simp add: block_def)
  ultimately show ?thesis using set_ by simp
qed

end

section \<open>The binary formatter with the zlib transform\<close>

definition typed_domain :: "('o, 'z) platform_scheme \<Rightarrow> endian \<Rightarrow> nat \<Rightarrow> 's zlib \<Rightarrow> ('s \<Rightarrow> bytes \<Rightarrow> bytes)
    \<Rightarrow> zlib_transform \<Rightarrow> 'o gvalue \<Rightarrow> bool" where
  "typed_domain P h depth Z pending transform v \<longleftrightarrow> formatter_domain P depth v \<and>
     (\<forall>buf. catalina_formatter_serialize (binary_formatter_base_init P h (\<lambda>_. 0) depth) v =
        Inr (True, buf, of_nat (length buf)) \<longrightarrow> zlib_domain Z pending transform buf)"

interpretation typed_binary_zlib: typed_storage "binary_formatter_base_init P h (\<lambda>_. 0) depth"
  "typed_domain P h depth Z pending transform" "rebuild P depth"
  "zlib_transform_base_init Z h junk transform" "zlib_domain Z pending transform"
  for P h depth Z pending transform junk
  by unfold_locales (use binary_formatter.serialized in \<open>auto simp: typed_domain_def\<close>)


text \<open>A storage with a zlib transform at its defaults, and the person of the formatter's witnesses.\<close>

definition typed_example :: "(mock, (bytes \<times> bytes) list) storage" where
  "typed_example = (open_storage [])\<lparr>
     storage_formatter := Some (binary_formatter_base_init mock_platform Little (\<lambda>_. 0) (Suc (Suc 0))),
     storage_transform := Some (zlib_transform_base_init storing_zlib Little (\<lambda>_ _. 0) zlib_transform_init)\<rparr>"

lemma mock_typed_domain: "typed_domain mock_platform Little (Suc (Suc 0)) storing_zlib storing_pending zlib_transform_init mock_value"
proof -
  have f: "formatter_domain mock_platform (Suc (Suc 0)) mock_value"
    using mock_encodable mock_storable mock_size by (simp add: formatter_domain_def)
  have "zlib_domain storing_zlib storing_pending zlib_transform_init buf"
    if b: "catalina_formatter_serialize (binary_formatter_base_init mock_platform Little (\<lambda>_. 0) (Suc (Suc 0))) mock_value =
      Inr (True, buf, of_nat (length buf))" for buf
  proof -
    have "length buf = 72"
      using serialize_in_domain [OF f, of Little] b mock_size
      by (auto simp: catalina_formatter_serialize_def binary_formatter_base_init_def)
    then show ?thesis by (intro storing_domain) (simp_all add: zlib_transform_init_def)
  qed
  then show ?thesis using f by (simp add: typed_domain_def)
qed

lemma typed_example_fields:
  "tasks_fresh typed_example" "db_ctx typed_example = Some 0" "txn typed_example = 0"
  "storage_formatter typed_example = Some (binary_formatter_base_init mock_platform Little (\<lambda>_. 0) (Suc (Suc 0)))"
  "storage_transform typed_example = Some (zlib_transform_base_init storing_zlib Little (\<lambda>_ _. 0) zlib_transform_init)"
  by (simp_all add: typed_example_def) (simp add: tasks_fresh_def open_storage_def catalina_storage_init_def)


end
