(* ===== verification/Storage_Async.thy ===== *)
theory Storage_Async
  imports Typed_Storage
begin

text \<open>
  The asynchronous typed requests from end to end: the request makes a task of its own and a
  raw request behind it, the handler completes the raw one, the main loop calls its callback,
  which completes the first, and the caller's callback calls the finish function.
\<close>

section \<open>The calls\<close>

text \<open>
  A request whose raw request has the task behind its own, handled and called back before
  anything else happens.
\<close>

definition get_value_async_call :: "'w env \<Rightarrow> bytes option \<Rightarrow> gssize \<Rightarrow> callback \<Rightarrow> 'o gvalue \<Rightarrow> ('o, 'w) storage
    \<Rightarrow> ((bool \<times> 'o gvalue \<times> gerror option option) \<times> ('o, 'w) storage) result" where
  "get_value_async_call E p n cb v s =
     c_bind (catalina_storage_get_value_async p n cb s) (\<lambda>(t, s).
     case t of None \<Rightarrow> Inr ((False, v, Some None), s)
     | Some t \<Rightarrow> c_bind (cn_deliver E (Suc t) s) (\<lambda>s. c_bind (call_back E (Suc t) s)
         (catalina_storage_get_value_finish t v (Some None))))"

definition set_value_async_call :: "'w env \<Rightarrow> nat \<Rightarrow> gulong \<Rightarrow> bytes option \<Rightarrow> gssize \<Rightarrow> 'o gvalue \<Rightarrow> callback \<Rightarrow> ('o, 'w) storage
    \<Rightarrow> ((bool \<times> gerror option option) \<times> ('o, 'w) storage) result" where
  "set_value_async_call E depth txn_id p n v cb s =
     c_bind (catalina_storage_set_value_async E txn_id p n v cb s) (\<lambda>(t, s).
     case t of None \<Rightarrow> Inr ((False, Some None), s)
     | Some t \<Rightarrow> c_bind (ex_deliver E depth (Suc t) s) (\<lambda>s. c_bind (call_back E (Suc t) s)
         (catalina_storage_set_value_finish t (Some None))))"

section \<open>What the calls come to\<close>

definition async_task :: "callback \<Rightarrow> source_tag \<Rightarrow> 'o task" where
  "async_task cb tag = new_task\<lparr>task_waiter := Async_Result cb tag\<rparr>"

lemma async_task_fields [simp]:
  "task_waiter (async_task cb tag) = Async_Result cb tag" "task_txn_id (async_task cb tag) = 0"
  "task_error (async_task cb tag) = None" "task_value (async_task cb tag) = VUnset"
  by (simp_all add: async_task_def new_task_def)

lemma new_async: "storage_task_new (Async_Result cb tag) s = (next_task s, with_task (async_task cb tag) s)"
  by (simp add: storage_task_new_def Let_def async_task_def new_task_def with_task_def)

lemma with_task_more [simp]:
  "tasks_fresh s \<Longrightarrow> tasks_fresh (with_task k s)"
  by (auto simp: with_task_def tasks_fresh_def less_Suc_eq)

lemma upd_new: "upd_task (next_task s) f (with_task k s) = Inr (with_task (f k) s)"
  by (auto simp: upd_task_Some with_task_def)

definition getting_task :: "callback \<Rightarrow> bytes \<Rightarrow> 'o task" where
  "getting_task cb kb = (async_task cb Tag_Get)\<lparr>task_key := Some kb, task_key_length := of_nat (length kb)\<rparr>"

definition storing_task :: "callback \<Rightarrow> gulong \<Rightarrow> bytes \<Rightarrow> bytes \<Rightarrow> 'o task" where
  "storing_task cb txn_id kb bs = (async_task cb Tag_Set)\<lparr>task_txn_id := txn_id, task_key := Some kb,
     task_key_length := of_nat (length kb), task_data := Some bs, task_data_length := of_nat (length bs)\<rparr>"

lemma getting_posted:
  assumes "kb \<noteq> []" "length kb < 2 ^ 63"
  shows "catalina_storage_get_async (Some kb) (of_nat (length kb)) cb s =
    Inr (Some (next_task s), post_cn MESSAGE_GET (next_task s) (with_task (getting_task cb kb) s))"
  using length_ok_of_nat [OF assms] read_mem_all [OF assms(2)]
  by (simp add: catalina_storage_get_async_def get_task_post_def dup_memory_def new_async upd_new getting_task_def)

lemma storing_posted:
  assumes "kb \<noteq> []" "length kb < 2 ^ 63" "bs \<noteq> []" "length bs < 2 ^ 63"
  shows "catalina_storage_set_async txn_id (Some kb) (of_nat (length kb)) (Some bs) (of_nat (length bs)) cb s =
    Inr (Some (next_task s), post_ex MESSAGE_SET (next_task s) (with_task (storing_task cb txn_id kb bs) s))"
  using length_ok_of_nat [OF assms(1,2)] length_ok_of_nat [OF assms(3,4)] read_mem_all [OF assms(2)] read_mem_all [OF assms(4)]
  by (simp add: catalina_storage_set_async_def dup_memory_def new_async upd_new storing_task_def)

lemma get_value_async_result:
  fixes s :: "('o, 'w) storage"
  assumes s: "tasks_fresh s" "db_ctx s = Some ctx" "storage_formatter s = Some formatter"
    and kb: "kb \<noteq> []" "length kb < 2 ^ 63"
    and stored: "tdb_fetch E ctx kb (world s) = Some stored" "value_read (storage_transform s) stored (Some buf) (of_nat (length buf))"
    and v: "catalina_formatter_deserialize formatter (Some VUnset) buf (of_nat (length buf)) = Inr (True, Some v, None)"
  shows "\<exists>s'. get_value_async_call E (Some kb) (of_nat (length kb)) cb VUnset s = Inr ((True, v, Some None), s') \<and>
    world s' = world s"
proof -
  let ?t = "next_task s" and ?in = "getting_task (Get_Value_Async_Cb (next_task s)) kb :: 'o task"
  let ?out = "async_task cb Tag_Get_Value :: 'o task"
  let ?s1 = "with_task ?out s"
  let ?s2 = "with_task ?in ?s1"
  let ?k = "?in\<lparr>task_data := Some buf, task_data_length := of_nat (length buf)\<rparr>"
  have posted: "catalina_storage_get_value_async (Some kb) (of_nat (length kb)) cb s =
      Inr (Some ?t, post_cn MESSAGE_GET (Suc ?t) ?s2)"
    by (simp add: catalina_storage_get_value_async_def new_async getting_posted [OF kb])
  have "handle_get E (Message MESSAGE_GET (Suc ?t)) ?s2 = Inr (completed_state (Suc ?t) True ?k ?s2)"
    using s stored read_mem_all [OF kb(2)]
    by (intro handle_get_finds) (simp_all add: getting_task_def)
  then have handled: "cn_deliver E (Suc ?t) (post_cn MESSAGE_GET (Suc ?t) ?s2) = Inr (completed_state (Suc ?t) True ?k ?s2)"
    using cn_deliver_posted [of ?s1 E MESSAGE_GET ?in] s(1) by (simp add: catalina_storage_cn_handle_message_def)
  define s3 where "s3 = completed_state (Suc ?t) True ?k ?s2"
  have s3: "tasks s3 (Suc ?t) = Some (?k\<lparr>task_success := True\<rparr>)" "tasks s3 ?t = Some ?out"
    "storage_formatter s3 = Some formatter" "world s3 = world s"
    using s(3) by (simp_all add: s3_def)
  define s4 where "s4 = s3\<lparr>tasks := (tasks s3)(Suc ?t := None)\<rparr>"
  have fin: "catalina_storage_get_finish (Suc ?t) (None, 0) (Some None) s3 =
      Inr (((True, Some buf, of_nat (length buf)), Some None), s4)"
    using s3(1) by (simp add: catalina_storage_get_finish_def result_is_valid_def getting_task_def
        storage_task_free_def propagate_def s4_def)
  have s4: "tasks s4 ?t = Some ?out" "storage_formatter s4 = Some formatter" "world s4 = world s"
    using s3 by (simp_all add: s4_def)
  let ?o = "?out\<lparr>task_value := v\<rparr>"
  have "call_back E (Suc ?t) s3 = catalina_storage_get_value_async_cb E (Suc ?t) ?t s3"
    using s3(1) by (simp add: call_back_def getting_task_def)
  also have "\<dots> = Inr (completed_state ?t True ?o s4)"
    using s3(2) s4 v fin
    by (simp add: catalina_storage_get_value_async_cb_def upd_task_Some storage_task_succeed_eq [where k = ?o] completed_state_def)
  finally have called: "call_back E (Suc ?t) s3 = Inr (completed_state ?t True ?o s4)" .
  show ?thesis
    unfolding get_value_async_call_def posted
    using s4(3) by (simp add: handled called s3_def [symmetric] catalina_storage_get_value_finish_def result_is_valid_def
        storage_task_free_def propagate_def g_value_put_def)
qed

lemma set_value_async_result:
  fixes s :: "('o, 'w) storage"
  assumes s: "tasks_fresh s" "db_ctx s = Some ctx" "txn s = 0" "storage_formatter s = Some formatter"
    and kb: "kb \<noteq> []" "length kb < 2 ^ 63"
    and buf: "catalina_formatter_serialize formatter v = Inr (True, buf, of_nat (length buf))" "buf \<noteq> []" "length buf < 2 ^ 63"
    and stored: "value_written (storage_transform s) (Some buf) (of_nat (length buf)) stored"
      "tdb_store E ctx kb stored (tdb_replace E) (world s) = (0, w)"
  shows "\<exists>s'. set_value_async_call E depth 0 (Some kb) (of_nat (length kb)) v cb s = Inr ((True, Some None), s') \<and>
    world s' = w \<and> db_ctx s' = Some ctx \<and> storage_formatter s' = Some formatter \<and>
    storage_transform s' = storage_transform s \<and> tasks_fresh s'"
proof -
  let ?t = "next_task s" and ?in = "storing_task (Set_Value_Async_Cb (next_task s)) 0 kb buf :: 'o task"
  let ?out = "async_task cb Tag_Set_Value :: 'o task"
  let ?s1 = "with_task ?out s"
  let ?s2 = "with_task ?in ?s1"
  have posted: "catalina_storage_set_value_async E 0 (Some kb) (of_nat (length kb)) v cb s =
      Inr (Some ?t, post_ex MESSAGE_SET (Suc ?t) ?s2)"
    using s(4) buf by (simp add: catalina_storage_set_value_async_def new_async storing_posted [OF kb])
  define s3 where "s3 = completed_state (Suc ?t) True ?in (?s2\<lparr>world := w\<rparr>)"
  have "handle_set E (Message MESSAGE_SET (Suc ?t)) ?s2 = Inr s3"
    unfolding s3_def using s stored read_mem_all [OF kb(2)]
    by (intro handle_set_stores) (simp_all add: storing_task_def)
  then have handled: "ex_deliver E depth (Suc ?t) (post_ex MESSAGE_SET (Suc ?t) ?s2) = Inr s3"
    using ex_deliver_posted [of ?s1 E depth MESSAGE_SET ?in] s(1) by (simp add: catalina_storage_ex_handle_message.simps)
  have s3: "tasks s3 (Suc ?t) = Some (?in\<lparr>task_success := True\<rparr>)" "tasks s3 ?t = Some ?out"
    by (simp_all add: s3_def)
  define s4 where "s4 = s3\<lparr>tasks := (tasks s3)(Suc ?t := None)\<rparr>"
  have fin: "catalina_storage_set_finish (Suc ?t) (Some None) s3 = Inr ((True, Some None), s4)"
    using s3(1) by (simp add: catalina_storage_set_finish_def result_is_valid_def storing_task_def
        storage_task_free_def propagate_def s4_def)
  have s4: "tasks s4 ?t = Some ?out" by (simp add: s4_def s3)
  have "call_back E (Suc ?t) s3 = catalina_storage_set_value_async_cb E (Suc ?t) ?t s3"
    using s3(1) by (simp add: call_back_def storing_task_def)
  also have "\<dots> = Inr (completed_state ?t True ?out s4)"
    using s3(2) s4 fin
    by (simp add: catalina_storage_set_value_async_cb_def upd_task_Some storage_task_succeed_eq [where k = ?out] completed_state_def)
  finally have called: "call_back E (Suc ?t) s3 = Inr (completed_state ?t True ?out s4)" .
  define s5 where "s5 = (completed_state ?t True ?out s4)\<lparr>tasks := (tasks s4)(?t := None)\<rparr>"
  have "set_value_async_call E depth 0 (Some kb) (of_nat (length kb)) v cb s = Inr ((True, Some None), s5)"
    unfolding set_value_async_call_def posted
    by (simp add: handled called catalina_storage_set_value_finish_def storage_task_free_def propagate_def s5_def)
  moreover have "world s5 = w" "db_ctx s5 = Some ctx" "storage_formatter s5 = Some formatter"
    "storage_transform s5 = storage_transform s"
    using s by (simp_all add: s5_def s4_def s3_def)
  moreover have "tasks_fresh s5"
    using s(1) unfolding tasks_fresh_def s5_def s4_def s3_def
    by (auto simp: completed_state_def with_task_def storing_task_def less_Suc_eq)
  ultimately show ?thesis by blast
qed

section \<open>Through a formatter and a transform\<close>

context typed_storage begin

lemma set_value_async_then_get_value_async:
  fixes s :: "('o, 'w) storage"
  assumes "tdb_behaves E contents" "stores_succeed E" "tasks_fresh s" "db_ctx s = Some ctx" "txn s = 0"
    and "storage_formatter s = Some formatter" "storage_transform s = Some transform"
    and kb: "kb \<noteq> []" "length kb < 2 ^ 63" and v: "value_domain v"
  shows "\<exists>s' s''. set_value_async_call E depth 0 (Some kb) (of_nat (length kb)) v cb s = Inr ((True, Some None), s') \<and>
    get_value_async_call E (Some kb) (of_nat (length kb)) cb' VUnset s' = Inr ((True, image v, Some None), s'')"
proof -
  obtain buf where buf: "catalina_formatter_serialize formatter v = Inr (True, buf, of_nat (length buf))"
    "buf \<noteq> []" "length buf < 2 ^ 32"
    "catalina_formatter_deserialize formatter (Some VUnset) buf (of_nat (length buf)) = Inr (True, Some (image v), None)"
    using serialized [OF v] by blast
  have kp: "storage_keeps (storage_transform s) buf (written_form buf)"
    using keeps [OF fits [OF v buf(1)] buf(2)] assms(7) by simp
  obtain w where w: "tdb_store E ctx kb (written_form buf) (tdb_replace E) (world s) = (0, w)"
    using assms(2) by (metis prod.collapse stores_succeed_def)
  have small: "length buf < 2 ^ 63" using buf(3) by simp
  have wr: "value_written (storage_transform s) (Some buf) (of_nat (length buf)) (written_form buf)"
    using kp by (simp add: storage_keeps_def)
  obtain s' where s': "set_value_async_call E depth 0 (Some kb) (of_nat (length kb)) v cb s = Inr ((True, Some None), s')"
    "world s' = w" "db_ctx s' = Some ctx" "storage_formatter s' = Some formatter"
    "storage_transform s' = storage_transform s" "tasks_fresh s'"
    using set_value_async_result [OF assms(3-6) kb buf(1,2) small wr w] by blast
  have "tdb_fetch E ctx kb (world s') = Some (written_form buf)"
    using assms(1) w s'(2) unfolding tdb_behaves_def by (metis fst_conv snd_conv fun_upd_same)
  moreover have "value_read (storage_transform s') (written_form buf) (Some buf) (of_nat (length buf))"
    using kp s'(5) by (simp add: storage_keeps_def)
  ultimately show ?thesis
    using get_value_async_result [OF s'(6,3,4) kb _ _ buf(4)] s'(1) by blast
qed

end



end
