(* ===== verification/Storage_Callbacks.thy ===== *)
theory Storage_Callbacks
  imports Storage_Runs Storage_Async
begin

text \<open>
  The callbacks of the library in the runs of a storage: what the callback of a completed raw
  request finds, and what it leaves. The formatter is asked not to reach for freed memory, which
  the binary formatter does not on any bytes.
\<close>

section \<open>The faults of the reader\<close>

definition faults_benign :: "'a result \<Rightarrow> bool" where
  "faults_benign r \<longleftrightarrow> (\<forall>e. r = Inl e \<longrightarrow> benign e)"

lemma faults_benign_simps [simp]: "faults_benign (Inr x)" "faults_benign (Inl e) = benign e"
  by (simp_all add: faults_benign_def)

lemma faults_benign_bind: "faults_benign r \<Longrightarrow> (\<And>x. r = Inr x \<Longrightarrow> faults_benign (f x)) \<Longrightarrow> faults_benign (c_bind r f)"
  by (cases r) simp_all

lemma memory_faults [simp]: "faults_benign (load_byte b i)" "faults_benign (load_bytes b i k)"
  "faults_benign (store_byte b i x)" "faults_benign (c_string b)" "faults_benign (strlen b)"
proof -
  show s: "faults_benign (c_string b)" using benign_c_string by (simp add: faults_benign_def)
  show "faults_benign (strlen b)" unfolding strlen_def by (rule faults_benign_bind [OF s]) simp
qed (use benign_load in \<open>simp_all add: faults_benign_def\<close>)

lemma scalar_reader_faults [simp]:
  "faults_benign (read_boolean i b n)" "faults_benign (read_char i1 b n)" "faults_benign (read_uchar i1 b n)"
  "faults_benign (read_short h i2 b n)" "faults_benign (read_ushort h i2 b n)"
  "faults_benign (read_int h i3 b n)" "faults_benign (read_uint h i3 b n)"
  "faults_benign (read_long h i4 b n)" "faults_benign (read_ulong h i4 b n)"
  "faults_benign (read_int64 h i4 b n)" "faults_benign (read_uint64 h i4 b n)"
  by (auto simp: read_boolean_def read_char_def read_uchar_def read_short_def read_ushort_def read_int_def read_uint_def
      read_long_def read_ulong_def read_int64_def read_uint64_def Let_def
      split: option.split intro!: faults_benign_bind)

lemma string_reader_faults [simp]: "faults_benign (read_string h v l b n)"
  by (auto simp: read_string_def Let_def split: option.split intro!: faults_benign_bind)

lemma number_reader_faults [simp]: "faults_benign (read_double L h d b n)" "faults_benign (read_float L h f b n)"
  by (auto simp: read_double_def read_float_def Let_def split: option.split prod.split intro!: faults_benign_bind)

text \<open>Whatever the bytes are, the reader runs out of its block, through \<^verbatim>\<open>NULL\<close>, or aborts at worst.\<close>

lemma object_reader_faults:
  "faults_benign (read_value P h v buf n)" "faults_benign (read_object P h ob buf n)" "faults_benign (read_props P h ob' bs)"
proof (induction P h v buf n and P h ob buf n and P h ob' bs rule: read_value_read_object_read_props.induct)
  case (3 P h v0 buf n)
  then show ?case
    unfolding read_value.simps(3)
    by (intro faults_benign_bind) (auto split: option.split intro!: faults_benign_bind)
next
  case (6 P h ob0 buf n)
  then show ?case
    unfolding read_object.simps(3) by (auto intro!: faults_benign_bind)
next
  case (8 P h ob b cursor)
  then show ?case
    unfolding read_props.simps(2) by (auto simp: Let_def intro!: faults_benign_bind)
qed simp_all

lemma binary_formatter_honest:
  "storage_formatter s = Some (binary_formatter_base_init P h junk depth) \<Longrightarrow> formatter_honest s"
proof -
  have "faults_benign (real_deserialize P h v p n)" for v p n
    unfolding real_deserialize_def by (auto intro!: faults_benign_bind object_reader_faults)
  then show "storage_formatter s = Some (binary_formatter_base_init P h junk depth) \<Longrightarrow> formatter_honest s"
    by (simp add: formatter_honest_def catalina_formatter_deserialize_def binary_formatter_base_init_def faults_benign_def)
qed

section \<open>Callbacks and their requests\<close>

text \<open>
  C13: In every run, a callback of the library that the main loop calls for a completed raw request
  finds the raw request and the task of the typed one alive, the latter not completed yet and not
  carried by any message; if it returns, it has completed that task, once, and freed the raw
  request, so that it is not called again.
\<close>

theorem callbacks_answer_their_request:
  assumes "reachable E depth s" "formatter_honest s"
    and "t \<in> set (done_ids s)" "tasks s t = Some k" "outer_of (task_waiter k) = Some outer"
  shows "call_back E t s \<notin> {Inl Use_After_Free, Inl Type_Confusion} \<and>
    (\<exists>k'. tasks s outer = Some k') \<and> outer \<notin> set (done_ids s) \<and> outer \<notin># image_mset message_task (in_machine s) \<and>
    (\<forall>s'. call_back E t s = Inr s' \<longrightarrow> done_ids s' = done_ids s @ [outer] \<and> tasks s' outer \<noteq> None \<and> tasks s' t = None)"
proof -
  have l: "linked s" using reachable_linked [OF assms(1)] .
  let ?s1 = "s\<lparr>tasks := (tasks s)(t := None)\<rparr>"
  note inner = inner_freed [OF l assms(3-5)]
  have i: "idle_ok (add_mset (Message MESSAGE_0 outer) (outers ?s1)) ?s1" using inner(1) by (simp add: in_callback_def)
  obtain k' where k': "tasks s outer = Some k'" using in_callback_live [OF inner(1)] inner(2) by auto
  have "outer \<noteq> t" using in_callback_live [OF inner(1)] by auto
  have o: "ok {} (add_mset (Message MESSAGE_0 outer) (outers ?s1)) ?s1" using i by (simp add: idle_ok_def)
  have p: "parts {} ?s1 = in_machine s" "done_ids ?s1 = done_ids s"
    by (simp_all add: parts_def in_machine_def queued_def done_ids_def)
  have "count (image_mset message_task (add_mset (Message MESSAGE_0 outer) (outers ?s1) + in_machine s) + mset (done_ids s)) outer \<le> 1"
    using o unfolding ok_def sound_def p by blast
  then have free: "outer \<notin> set (done_ids s)" "outer \<notin># image_mset message_task (in_machine s)"
    by (simp_all add: count_eq_zero_iff [symmetric] del: set_image_mset)
  have "result_ok linked (call_back E t s)"
    using call_back_ok [OF l assms(3)] assms(2,4) by simp
  then have "call_back E t s \<notin> {Inl Use_After_Free, Inl Type_Confusion}" by auto
  moreover have "done_ids s' = done_ids s @ [outer] \<and> tasks s' outer \<noteq> None \<and> tasks s' t = None"
    if r: "call_back E t s = Inr s'" for s'
  proof -
    note c = call_back_completes [OF l assms(3-5) r]
    have "waiters s' outer = waiters s outer" "waiters s' t = None" using c \<open>outer \<noteq> t\<close> by simp_all
    then show ?thesis using c k' by (auto simp: waiters_def)
  qed
  ultimately show ?thesis using k' free by blast
qed

text \<open>
  A lookup of a value that an unopened storage has refused: the raw request, task 1, is completed,
  and its callback is due, for task 0.
\<close>

definition typed_lookup :: "(mock, (bytes \<times> bytes) list) storage" where
  "typed_lookup = post_cn MESSAGE_GET 1 (with_task (getting_task (Get_Value_Async_Cb 0) [65])
     (with_task (async_task (User_Callback 0) Tag_Get_Value)
       (catalina_storage_set_formatter (binary_formatter_base_init mock_platform Little (\<lambda>_. 0) 0) (catalina_storage_init []))))"

definition refused_lookup :: "(mock, (bytes \<times> bytes) list) storage" where
  "refused_lookup = completed_state 1 False (task_set_error STORAGE_ERROR_STATE (getting_task (Get_Value_Async_Cb 0) [65]))
     (typed_lookup\<lparr>cn_port := []\<rparr>)"

lemma typed_lookup_fields [simp]:
  "tasks typed_lookup (Suc 0) = Some (getting_task (Get_Value_Async_Cb 0) [65])"
  "tasks typed_lookup 0 = Some (async_task (User_Callback 0) Tag_Get_Value)"
  "cn_port typed_lookup = [Message MESSAGE_GET 1]" "db_ctx typed_lookup = None" "txn_states typed_lookup = []"
  "storage_formatter typed_lookup = Some (binary_formatter_base_init mock_platform Little (\<lambda>_. 0) 0)"
  "completions typed_lookup = []"
  by (simp_all add: typed_lookup_def post_cn_def catalina_storage_set_formatter_def catalina_storage_init_def)

lemma refused_lookup_reachable: "reachable E depth refused_lookup"
proof -
  let ?F = "binary_formatter_base_init mock_platform Little (\<lambda>_. 0) 0"
  let ?s = "catalina_storage_set_formatter ?F (catalina_storage_init []) :: (mock, (bytes \<times> bytes) list) storage"
  have "next_task ?s = 0" by (simp add: catalina_storage_set_formatter_def catalina_storage_init_def)
  then have "catalina_storage_get_value_async (Some [65]) (of_nat (length [65 :: byte])) (User_Callback 0) ?s =
      Inr (Some 0, typed_lookup)"
    by (simp add: catalina_storage_get_value_async_def new_async getting_posted [of "[65]", simplified] typed_lookup_def)
  then have r: "reachable E depth typed_lookup"
    by (intro reachable.stepped [OF reachable.stepped [OF reachable.started step.set_formatter] step.get_value_async])
  have e: "typed_lookup\<lparr>cn_port := [], txn_states := []\<rparr> = typed_lookup\<lparr>cn_port := []\<rparr>"
    by (rule storage.equality) simp_all
  have "catalina_storage_cn_handle_message E (Message MESSAGE_GET 1) (typed_lookup\<lparr>cn_port := []\<rparr>) = Inr refused_lookup"
    by (simp add: catalina_storage_cn_handle_message_def handle_get_def fail_with_eq [where k = "getting_task (Get_Value_Async_Cb 0) [65]"]
        refused_lookup_def propagate_error_def Let_def e)
  then show ?thesis
    using step.deliver_cn [of "Message MESSAGE_GET 1" typed_lookup E refused_lookup depth] r reachable.stepped by fastforce
qed

theorem callbacks_answer_their_request_witness:
  "call_back (memory_env Little) 1 refused_lookup \<notin> {Inl Use_After_Free, Inl Type_Confusion} \<and> 0 \<notin> set (done_ids refused_lookup)"
proof -
  let ?k = "task_set_error STORAGE_ERROR_STATE (getting_task (Get_Value_Async_Cb 0) [65])\<lparr>task_success := False\<rparr> :: mock task"
  have "formatter_honest refused_lookup"
    by (rule binary_formatter_honest) (simp add: refused_lookup_def)
  moreover have "1 \<in> set (done_ids refused_lookup)" "tasks refused_lookup 1 = Some ?k"
    by (simp_all add: refused_lookup_def)
  moreover have "outer_of (task_waiter ?k) = Some 0" by (simp add: getting_task_def)
  ultimately show ?thesis
    using callbacks_answer_their_request [OF refused_lookup_reachable [of "memory_env Little" 0]] by blast
qed

end
