(* ===== verification/Storage_Durability.thy ===== *)
theory Storage_Durability
  imports Storage_Failures
begin

text \<open>
  What outlives a storage: the database is closed and opened again, by the same storage or by
  another one, and holds what was stored. The promises of TDB that this needs, besides those
  of a single handle, are about files.
\<close>

section \<open>What is relied on of TDB and the file system\<close>

text \<open>
  \<open>files w path\<close> is the database in a file, \<open>bound w ctx path\<close> that a handle is open on it. A handle shows
  its file and stays bound to it; closing a handle and making a directory change no file; opening
  a file without truncating it binds the handle and keeps its contents.
\<close>

definition tdb_persists :: "'w env \<Rightarrow> ('w \<Rightarrow> nat \<Rightarrow> bytes \<Rightarrow> bytes option) \<Rightarrow> ('w \<Rightarrow> bytes \<Rightarrow> bytes \<Rightarrow> bytes option)
    \<Rightarrow> ('w \<Rightarrow> nat \<Rightarrow> bytes \<Rightarrow> bool) \<Rightarrow> (gint \<Rightarrow> bool) \<Rightarrow> bool" where
  "tdb_persists E contents files bound truncates \<longleftrightarrow>
     (\<forall>w ctx path. bound w ctx path \<longrightarrow> contents w ctx = files w path) \<and>
     (\<forall>w ctx path k v flag. bound w ctx path \<longrightarrow> bound (snd (tdb_store E ctx k v flag w)) ctx path) \<and>
     (\<forall>w ctx path. fst (tdb_close E ctx w) = 0 \<longrightarrow> files (snd (tdb_close E ctx w)) path = files w path) \<and>
     (\<forall>w dir path. files (g_mkdir_with_parents E dir w) path = files w path) \<and>
     (\<forall>w path tdb_flags o_flags ctx. \<not> truncates o_flags \<longrightarrow> fst (tdb_open E path tdb_flags o_flags w) = Some ctx \<longrightarrow>
        bound (snd (tdb_open E path tdb_flags o_flags w)) ctx path \<and>
        files (snd (tdb_open E path tdb_flags o_flags w)) path = files w path)"

lemma tdb_persistsD:
  assumes "tdb_persists E contents files bound truncates"
  shows "bound w ctx path \<Longrightarrow> contents w ctx = files w path"
    and "bound w ctx path \<Longrightarrow> tdb_store E ctx k v flag w = (ret, w') \<Longrightarrow> bound w' ctx path"
    and "tdb_close E ctx w = (0, w') \<Longrightarrow> files w' path = files w path"
    and "files (g_mkdir_with_parents E dir w) path = files w path"
    and "\<not> truncates o_flags \<Longrightarrow> tdb_open E path tdb_flags o_flags w = (Some ctx, w') \<Longrightarrow>
      bound w' ctx path \<and> files w' path = files w path"
  using assms unfolding tdb_persists_def by (metis fst_conv snd_conv)+

lemma opening_keeps_files:
  assumes "tdb_persists E contents files bound truncates"
  shows "files (world (opening_state E path s)) path' = files (world s) path'"
  using tdb_persistsD(4) [OF assms] by (simp add: opening_state_def Let_def)

section \<open>Closing and opening again\<close>

lemma reopened:
  fixes s :: "('o, 'w) storage"
  assumes p: "tdb_persists E contents files bound truncates"
    and s: "tasks_fresh s" "txn_commits s = []" "db_ctx s = None"
    and path: "0 \<notin> set dir" "0 \<notin> set name" "0 \<notin> set (g_build_filename E dir name)"
    and flags: "\<not> truncates (stack_word E OR o_rdwr E)" "\<not> truncates (o_creat E OR o_rdwr E)"
    and o: "catalina_storage_open E depth (Some (dir @ [0])) (Some (name @ [0])) s = Inr ((True, e), s')"
  shows "\<exists>ctx. db_ctx s' = Some ctx \<and> contents (world s') ctx = files (world s) (g_build_filename E dir name) \<and>
    tasks_fresh s' \<and> txn s' = 0 \<and> storage_transform s' = storage_transform s \<and> storage_formatter s' = storage_formatter s"
proof -
  let ?path = "g_build_filename E dir name"
  let ?s1 = "opening_state E ?path s"
  let ?tf = "(if host E = Little then tdb_convert E else 0) OR tdb_nolock E"
  let ?of = "(if is_regular E ?path (world ?s1) then stack_word E else o_creat E) OR o_rdwr E"
  have f: "\<not> truncates ?of" using flags by simp
  obtain c w where call: "tdb_open E ?path ?tf ?of (world ?s1) = (c, w)" by (metis prod.collapse)
  then obtain ctx where c: "c = Some ctx" and s': "s' = after_call (?s1\<lparr>world := w, db_ctx := Some ctx\<rparr>)"
    using o open_call [OF s(1,2) path, of depth] s(3) by (auto simp: Let_def split: option.splits)
  have "bound w ctx ?path" "files w ?path = files (world s) ?path"
    using tdb_persistsD(5) [OF p f call [unfolded c]] opening_keeps_files [OF p] by simp_all
  then have "contents w ctx = files (world s) ?path" using tdb_persistsD(1) [OF p] by simp
  moreover have "tasks_fresh ?s1" using s(1) by (simp add: tasks_fresh_def opening_state_def Let_def)
  ultimately have "contents w ctx = files (world s) ?path" "tasks_fresh (?s1\<lparr>world := w, db_ctx := Some ctx\<rparr>)"
    by (simp_all add: tasks_fresh_def)
  then show ?thesis
    unfolding s' by (intro exI [of _ ctx] conjI after_call_fresh(1)) (simp_all add: after_call_def opening_state_def Let_def)
qed

text \<open>
  C16: A value that was set, outside of transactions, is there after the storage is closed and its
  file opened again, by the same storage or by another one with the same transform; the other
  keys have kept their values. This needs that the word \<^verbatim>\<open>handle_open\<close> finds on its stack does
  not ask for truncation.
\<close>

theorem stored_values_survive:
  fixes s :: "('o, 'w) storage"
  assumes "tdb_behaves E contents" "stores_succeed E" "tdb_persists E contents files bound truncates"
    and "\<not> truncates (stack_word E OR o_rdwr E)" "\<not> truncates (o_creat E OR o_rdwr E)"
    and "\<And>w. fst (tdb_close E ctx w) = 0"
    and s: "tasks_fresh s" "db_ctx s = Some ctx" "txn s = 0" "txn_states s = []"
      "bound (world s) ctx (g_build_filename E dir name)"
    and path: "0 \<notin> set dir" "0 \<notin> set name" "0 \<notin> set (g_build_filename E dir name)"
    and kv: "key \<noteq> []" "length key < 2 ^ 63" "length val < 2 ^ 63" "storage_keeps (storage_transform s) val stored"
  shows "\<exists>s1 s2.
    catalina_storage_set E depth 0 (Some key) (of_nat (length key)) (Some val) (of_nat (length val)) s = Inr ((True, None), s1) \<and>
    catalina_storage_close E depth s1 = Inr ((True, None), s2) \<and>
    (\<forall>(r :: ('o, 'w) storage) e r1. world r = world s2 \<and> tasks_fresh r \<and> db_ctx r = None \<and> txn_commits r = [] \<and>
       storage_transform r = storage_transform s \<longrightarrow>
       catalina_storage_open E depth (Some (dir @ [0])) (Some (name @ [0])) r = Inr ((True, e), r1) \<longrightarrow>
       (\<exists>ctx' r2. db_ctx r1 = Some ctx' \<and> contents (world r1) ctx' = (contents (world s) ctx)(key \<mapsto> stored) \<and>
          catalina_storage_get E (Some key) (of_nat (length key)) old r1 =
            Inr (((True, Some val, of_nat (length val)), None), r2)))"
proof -
  let ?path = "g_build_filename E dir name"
  obtain w where w: "tdb_store E ctx key stored (tdb_replace E) (world s) = (0, w)"
    using assms(2) by (metis prod.collapse stores_succeed_def)
  have c: "contents w ctx = (contents (world s) ctx)(key \<mapsto> stored)"
    using assms(1) w unfolding tdb_behaves_def by (metis fst_conv snd_conv)
  let ?s1 = "after_call (s\<lparr>world := w\<rparr>)"
  have set: "catalina_storage_set E depth 0 (Some key) (of_nat (length key)) (Some val) (of_nat (length val)) s = Inr ((True, None), ?s1)"
    using s kv w by (intro set_call) (simp_all add: storage_keeps_def)
  obtain w2 where w2: "tdb_close E ctx w = (0, w2)" using assms(6) [of w] by (metis prod.collapse)
  let ?s2 = "after_call (?s1\<lparr>world := w2, db_ctx := None\<rparr>)"
  have fresh: "tasks_fresh ?s1" using s(1) by simp
  have fields: "db_ctx ?s1 = Some ctx" "txn ?s1 = 0" "txn_states ?s1 = []" "world ?s1 = w"
    using s by (simp_all add: after_call_def)
  have close: "catalina_storage_close E depth ?s1 = Inr ((True, None), ?s2)"
    unfolding close_call [OF fresh] using fields w2 by simp
  have kept: "files w2 ?path = (contents (world s) ctx)(key \<mapsto> stored)"
    using tdb_persistsD(1-3) [OF assms(3)] s(5) w w2 c by metis
  have again: "\<exists>ctx' r2. db_ctx r1 = Some ctx' \<and> contents (world r1) ctx' = (contents (world s) ctx)(key \<mapsto> stored) \<and>
      catalina_storage_get E (Some key) (of_nat (length key)) old r1 = Inr (((True, Some val, of_nat (length val)), None), r2)"
    if "world r = world ?s2" and r: "tasks_fresh r" "txn_commits r = []" "db_ctx r = None" "storage_transform r = storage_transform s"
      and o: "catalina_storage_open E depth (Some (dir @ [0])) (Some (name @ [0])) r = Inr ((True, e), r1)" for r :: "('o, 'w) storage" and e r1
  proof -
    have "world r = w2" using that(1) by (simp add: after_call_def)
    then obtain ctx' where r1: "db_ctx r1 = Some ctx'" "contents (world r1) ctx' = (contents (world s) ctx)(key \<mapsto> stored)"
      "tasks_fresh r1" "storage_transform r1 = storage_transform s"
      using reopened [OF assms(3) r(1-3) path assms(4,5) o] kept r(4) by auto
    then have "tdb_fetch E ctx' key (world r1) = Some stored" using assms(1) by (simp add: tdb_behaves_def)
    then show ?thesis
      using get_call [OF r1(3,1) kv(1,2), of E stored "Some val" "of_nat (length val)" old] kv(4) r1
      by (simp add: storage_keeps_def)
  qed
  show ?thesis by (rule exI [of _ ?s1], rule exI [of _ ?s2]) (use set close again in blast)
qed

text \<open>In memory, all paths lead to the one database.\<close>

lemma memory_env_persists:
  "tdb_persists (memory_env h) memory_contents (\<lambda>w path. map_of w) (\<lambda>w ctx path. True) (\<lambda>flags. False)"
  by (simp add: tdb_persists_def memory_env_def memory_contents_def)

theorem stored_values_survive_witness:
  "\<exists>(s1 :: (unit, (bytes \<times> bytes) list) storage) s2 (r1 :: (unit, (bytes \<times> bytes) list) storage) r2.
    catalina_storage_set (memory_env Little) 1 0 (Some [65]) 1 (Some [7, 8]) 2 (open_storage []) = Inr ((True, None), s1) \<and>
    catalina_storage_close (memory_env Little) 1 s1 = Inr ((True, None), s2) \<and>
    catalina_storage_open (memory_env Little) 1 (Some ([47] @ [0])) (Some ([97] @ [0])) (catalina_storage_init (world s2)) =
      Inr ((True, None), r1) \<and>
    catalina_storage_get (memory_env Little) (Some [65]) 1 (None, 0) r1 = Inr (((True, Some [7, 8], 2), None), r2)"
proof -
  let ?E = "memory_env Little" and ?s = "open_storage [] :: (unit, (bytes \<times> bytes) list) storage"
  have path: "0 \<notin> set [47 :: byte]" "0 \<notin> set [97 :: byte]" "0 \<notin> set (g_build_filename ?E [47] [97])"
    by (simp_all add: memory_env_def)
  have close: "fst (tdb_close ?E 0 w) = 0" for w by (simp add: memory_env_def)
  let ?init = "\<lambda>w. catalina_storage_init w :: (unit, (bytes \<times> bytes) list) storage"
  have init: "tasks_fresh (?init w)" "txn_commits (?init w) = []" "db_ctx (?init w) = None" "storage_transform (?init w) = None"
    "world (?init w) = w" for w
    by (simp_all add: catalina_storage_init_def tasks_fresh_def)
  have keeps: "storage_keeps (storage_transform ?s) [7, 8] [7, 8]" using keeps_without_transform [of "[7, 8]"] by simp
  obtain s1 s2 where s12: "catalina_storage_set ?E 1 0 (Some [65]) (of_nat (length [65 :: byte])) (Some [7, 8])
      (of_nat (length [7, 8 :: byte])) ?s = Inr ((True, None), s1)" "catalina_storage_close ?E 1 s1 = Inr ((True, None), s2)"
    and again: "\<forall>(r :: (unit, (bytes \<times> bytes) list) storage) e r1. world r = world s2 \<and> tasks_fresh r \<and> db_ctx r = None \<and> txn_commits r = [] \<and>
       storage_transform r = storage_transform ?s \<longrightarrow>
       catalina_storage_open ?E 1 (Some ([47] @ [0])) (Some ([97] @ [0])) r = Inr ((True, e), r1) \<longrightarrow>
       (\<exists>ctx' r2. db_ctx r1 = Some ctx' \<and> memory_contents (world r1) ctx' = (memory_contents (world ?s) 0)([65] \<mapsto> [7, 8]) \<and>
          catalina_storage_get ?E (Some [65]) (of_nat (length [65 :: byte])) (None, 0) r1 =
            Inr (((True, Some [7, 8], of_nat (length [7, 8 :: byte])), None), r2))"
    using stored_values_survive [OF memory_env_behaves memory_env_succeeds(1) memory_env_persists _ _ close _ _ _ _ _ path _ _ _ keeps,
        of "[65]" 1 "(None, 0)"] by simp blast
  have "tdb_open ?E p f g w = (Some 0, w)" for p f g w by (simp add: memory_env_def)
  then obtain r1 where "catalina_storage_open ?E 1 (Some ([47] @ [0])) (Some ([97] @ [0])) (?init (world s2)) = Inr ((True, None), r1)"
    using open_call [OF init(1,2) path, of 1 "world s2"] init(3) by (simp add: Let_def)
  moreover from this obtain r2 where
    "catalina_storage_get ?E (Some [65]) (of_nat (length [65 :: byte])) (None, 0) r1 =
      Inr (((True, Some [7, 8], of_nat (length [7, 8 :: byte])), None), r2)"
    using again [rule_format, of "?init (world s2)" None r1] init by auto
  ultimately show ?thesis
    using s12 by - (rule exI [of _ s1], rule exI [of _ s2], rule exI [of _ r1], rule exI [of _ r2], simp)
qed

end
