(* ===== verification/Storage_Lifecycle.thy ===== *)
theory Storage_Lifecycle
  imports Storage_Specification Storage_Durability
begin

text \<open>
  The whole life of a storage, as its callers see it: files with databases in them, one of
  which may be open, and a session of requests on it. Opening and closing, and every request
  that meets a closed storage, are part of the specification; the machine implements it for
  every sequence of messages.
\<close>

section \<open>The abstract machine\<close>

record file_store =
  databases :: "bytes \<Rightarrow> bytes \<Rightarrow> bytes option"
  opened_file :: "bytes option"
  session_spec :: store_spec

datatype operation = Open_File bytes | Close_File | Request request

text \<open>What a request is told by a storage that is closed. Beginning and cancelling fail without an error.\<close>

fun closed_answer :: "request \<Rightarrow> answer" where
  "closed_answer Count_Request = Counted 0"
| "closed_answer Begin_Request = Failed"
| "closed_answer (Cancel_Request n) = Failed"
| "closed_answer _ = Refused STORAGE_ERROR_STATE"

fun file_step :: "nat \<Rightarrow> operation \<Rightarrow> file_store \<Rightarrow> file_store \<times> (nat \<times> answer) list" where
  "file_step t (Open_File path) a = (case opened_file a of
     Some _ \<Rightarrow> (a, [(t, Refused STORAGE_ERROR_STATE)])
   | None \<Rightarrow> (a\<lparr>opened_file := Some path, session_spec := (session_spec a)\<lparr>database := databases a path\<rparr>\<rparr>, [(t, Done)]))"
| "file_step t Close_File a = (case opened_file a of
     None \<Rightarrow> (a, [(t, Refused STORAGE_ERROR_STATE)])
   | Some _ \<Rightarrow>
       if dom (open_txns (session_spec a)) \<noteq> {} then (a, [(t, Refused STORAGE_ERROR_STATE)])
       else (a\<lparr>opened_file := None\<rparr>, [(t, Done)]))"
| "file_step t (Request r) a = (case opened_file a of
     None \<Rightarrow> (a, [(t, closed_answer r)])
   | Some path \<Rightarrow> let (session', outs) = spec_step t r (session_spec a) in
       (a\<lparr>databases := (databases a)(path := database session'), session_spec := session'\<rparr>, outs))"

fun file_allowed :: "operation \<Rightarrow> file_store \<Rightarrow> bool" where
  "file_allowed (Request r) a = (opened_file a = None \<or> spec_allowed r (session_spec a))"
| "file_allowed _ a = True"

definition file_waiting :: "file_store \<Rightarrow> nat set" where
  "file_waiting a = waiting_tasks (session_spec a)"

fun operation_message :: "nat \<times> operation \<Rightarrow> message" where
  "operation_message (t, Open_File path) = Message MESSAGE_OPEN t"
| "operation_message (t, Close_File) = Message MESSAGE_CLOSE t"
| "operation_message (t, Request r) = message_for (t, r)"

fun operation_task :: "endian \<Rightarrow> transform_iface option \<Rightarrow> operation \<Rightarrow> 'o task \<Rightarrow> bool" where
  "operation_task h tr (Open_File path) k = (c_text (task_key k) = Inr path \<and> task_txn_id k = 0)"
| "operation_task h tr Close_File k = (task_txn_id k = 0)"
| "operation_task h tr (Request r) k = carries h tr r k"

section \<open>What is relied on of TDB, and how the storage represents it\<close>

text \<open>
  Besides \<open>tdb_persists\<close>: what happens through a handle concerns its file only, transactions
  keep the handle; opening a file changes no other. And opening and closing succeed.
\<close>

definition tdb_separates :: "'w env \<Rightarrow> ('w \<Rightarrow> bytes \<Rightarrow> bytes \<Rightarrow> bytes option) \<Rightarrow> ('w \<Rightarrow> nat \<Rightarrow> bytes \<Rightarrow> bool) \<Rightarrow> bool" where
  "tdb_separates E files bound \<longleftrightarrow>
     (\<forall>ctx w w' path. world_step E ctx w w' \<longrightarrow> bound w ctx path \<longrightarrow>
        bound w' ctx path \<and> (\<forall>other. other \<noteq> path \<longrightarrow> files w' other = files w other)) \<and>
     (\<forall>path tdb_flags o_flags w other. other \<noteq> path \<longrightarrow>
        files (snd (tdb_open E path tdb_flags o_flags w)) other = files w other)"

definition opens_and_closes :: "'w env \<Rightarrow> bool" where
  "opens_and_closes E \<longleftrightarrow> (\<forall>path tdb_flags o_flags w. fst (tdb_open E path tdb_flags o_flags w) \<noteq> None) \<and>
     (\<forall>ctx w. fst (tdb_close E ctx w) = 0)"

definition files_represent :: "('w \<Rightarrow> bytes \<Rightarrow> bytes \<Rightarrow> bytes option) \<Rightarrow> ('o, 'w) storage \<Rightarrow> file_store \<Rightarrow> bool" where
  "files_represent files s a \<longleftrightarrow>
     (\<forall>path. db_represents (storage_transform s) (files (world s) path) (databases a path))"

definition life_represents :: "'w env \<Rightarrow> ('w \<Rightarrow> nat \<Rightarrow> bytes \<Rightarrow> bytes option) \<Rightarrow> ('w \<Rightarrow> bytes \<Rightarrow> bytes \<Rightarrow> bytes option)
    \<Rightarrow> ('w \<Rightarrow> nat \<Rightarrow> bytes \<Rightarrow> bool) \<Rightarrow> ('o, 'w) storage \<Rightarrow> file_store \<Rightarrow> bool" where
  "life_represents E contents files bound s a \<longleftrightarrow> files_represent files s a \<and>
     (case opened_file a of
        None \<Rightarrow> db_ctx s = None \<and> txn s = 0 \<and> txn_states s = [] \<and> txn_commits s = [] \<and>
          txn_seq s = txn_id_of (host E) (last_txn (session_spec a)) \<and> open_txns (session_spec a) = Map.empty
      | Some path \<Rightarrow> \<exists>ctx. represents E contents ctx s (session_spec a) \<and> bound (world s) ctx path)"

definition tdb_with_files :: "'w env \<Rightarrow> ('w \<Rightarrow> nat \<Rightarrow> bytes \<Rightarrow> bytes option) \<Rightarrow> ('w \<Rightarrow> bytes \<Rightarrow> bytes \<Rightarrow> bytes option)
    \<Rightarrow> ('w \<Rightarrow> nat \<Rightarrow> bytes \<Rightarrow> bool) \<Rightarrow> (gint \<Rightarrow> bool) \<Rightarrow> bool" where
  "tdb_with_files E contents files bound truncates \<longleftrightarrow>
     tdb_behaves E contents \<and> transactions_succeed E \<and> tdb_persists E contents files bound truncates \<and>
     tdb_separates E files bound \<and> opens_and_closes E \<and>
     \<not> truncates (stack_word E OR o_rdwr E) \<and> \<not> truncates (o_creat E OR o_rdwr E)"

definition refines_operation :: "'w env \<Rightarrow> ('w \<Rightarrow> nat \<Rightarrow> bytes \<Rightarrow> bytes option) \<Rightarrow> ('w \<Rightarrow> bytes \<Rightarrow> bytes \<Rightarrow> bytes option)
    \<Rightarrow> ('w \<Rightarrow> nat \<Rightarrow> bytes \<Rightarrow> bool) \<Rightarrow> ('o, 'w) storage \<Rightarrow> nat \<Rightarrow> operation \<Rightarrow> file_store \<Rightarrow> ('o, 'w) storage \<Rightarrow> bool" where
  "refines_operation E contents files bound s t r a s' \<longleftrightarrow>
     life_represents E contents files bound s' (fst (file_step t r a)) \<and>
     log_answers (host E) (newly_done s s') (snd (file_step t r a)) \<and>
     (\<forall>t'. t' \<notin> insert t (file_waiting a) \<longrightarrow> tasks s' t' = tasks s t') \<and> storage_transform s' = storage_transform s"

section \<open>One operation\<close>

lemma file_waiting_step: "file_waiting (fst (file_step t r a)) \<subseteq> insert t (file_waiting a)"
proof (cases r)
  case (Request q)
  then show ?thesis
    using waiting_step [of t q "session_spec a"] by (auto simp: file_waiting_def split: option.split prod.split)
qed (auto simp: file_waiting_def split: option.split)

lemma life_completed:
  assumes "life_represents E contents files bound s a" "t \<notin> file_waiting a"
  shows "life_represents E contents files bound (completed_state t b k s) a"
  using assms represents_completed [of E contents _ s "session_spec a" t b k]
  by (auto simp: life_represents_def files_represent_def file_waiting_def split: option.splits)

text \<open>An operation that only completes its task, with an answer of its own.\<close>

lemma refines_answer:
  assumes "life_represents E contents files bound s a" "t \<notin> file_waiting a"
    and "file_step t r a = (a, [(t, ans)])" "answered (host E) ans (k\<lparr>task_success := b\<rparr>)"
  shows "refines_operation E contents files bound s t r a (completed_state t b k s)"
  using life_completed [OF assms(1,2)] assms(3,4) by (simp add: refines_operation_def)

text \<open>A refused request.\<close>

lemma refused_answer [simp]:
  "task_error k = None \<Longrightarrow> answered h (Refused e) (task_set_error e k\<lparr>task_success := False\<rparr>)"
  by (simp add: task_set_error_def g_set_error_def)

lemma refused:
  assumes "tasks s t = Some k" "txn_states s = [] \<or> task_txn_id k = 0" "task_error k = None"
    and "deliver E depth m s = fail_with E e t s"
  shows "\<exists>b k'. deliver E depth m s = Inr (completed_state t b k' s) \<and> answered (host E) (Refused e) (k'\<lparr>task_success := b\<rparr>)"
proof -
  have "fail_with E e t s = Inr (completed_state t False (task_set_error e k) s)"
    using assms(1,2) by (intro fail_with_no_txn) auto
  then show ?thesis using assms(3,4) refused_answer [of k "host E" e] by metis
qed

text \<open>A request that meets a closed storage.\<close>

lemma fails_alone:
  "tasks s t = Some k \<Longrightarrow> txn_states s = [] \<Longrightarrow> storage_task_fail E t s = Inr (completed_state t False k s)"
  by (simp add: storage_task_fail_def storage_task_complete_eq Let_def)

lemma closed_delivery:
  assumes "db_ctx s = None" "txn_states s = []" "tasks s t = Some k" "task_error k = None"
  shows "\<exists>b k'. deliver E (Suc depth) (message_for (t, r)) s = Inr (completed_state t b k' s) \<and>
    answered (host E) (closed_answer r) (k'\<lparr>task_success := b\<rparr>)"
proof -
  note deliver_simps = deliver_def catalina_storage_ex_handle_message.simps catalina_storage_cn_handle_message_def
    handle_set_def handle_get_def handle_txn_commit.simps handle_txn_begin_def handle_txn_cancel_def
  have fails: ?thesis if "closed_answer r = Refused STORAGE_ERROR_STATE"
    "deliver E (Suc depth) (message_for (t, r)) s = fail_with E STORAGE_ERROR_STATE t s"
    using refused [OF assms(3) _ assms(4) that(2)] assms(2) that(1) by simp
  have failed: ?thesis if "closed_answer r = Failed"
    "deliver E (Suc depth) (message_for (t, r)) s = storage_task_fail E t s"
    using fails_alone [OF assms(3,2), of E] that assms(4)
    by (intro exI [of _ False] exI [of _ k]) simp
  show ?thesis
  proof (cases r)
    case Count_Request
    then show ?thesis
      using handle_count_keys_eq [OF assms(3), of E] assms(1)
      by (intro exI [of _ True] exI [of _ "k\<lparr>task_value := VULong 0\<rparr>"]) (simp add: deliver_simps)
  next
    case Begin_Request
    then show ?thesis using assms(1) by (intro failed) (simp_all add: deliver_simps)
  next
    case (Cancel_Request n)
    then show ?thesis using assms(1) by (intro failed) (simp_all add: deliver_simps)
  next
    case (Set_Request n key val)
    then show ?thesis using assms(1) by (intro fails) (simp_all add: deliver_simps)
  next
    case (Get_Request key)
    then show ?thesis using assms(1) by (intro fails) (simp_all add: deliver_simps)
  next
    case (Commit_Request n)
    then show ?thesis using assms(1) by (intro fails) (simp_all add: deliver_simps)
  qed
qed

lemma request_on_closed:
  assumes l: "life_represents E contents files bound s a" and t: "tasks s t = Some k" "t \<notin> file_waiting a" "task_error k = None"
    and o: "opened_file a = None"
  shows "\<exists>s'. deliver E (Suc depth) (operation_message (t, Request r)) s = Inr s' \<and>
    refines_operation E contents files bound s t (Request r) a s'"
proof -
  have "db_ctx s = None" "txn_states s = []" using l o by (simp_all add: life_represents_def)
  from closed_delivery [OF this t(1,3)] obtain b k' where
    "deliver E (Suc depth) (message_for (t, r)) s = Inr (completed_state t b k' s)"
    "answered (host E) (closed_answer r) (k'\<lparr>task_success := b\<rparr>)" by blast
  then show ?thesis using refines_answer [OF l t(2)] o by simp
qed

text \<open>A request that meets an open one: the session refines its own specification.\<close>

lemma separated_steps:
  assumes "tdb_separates E files bound" "(world_step E ctx)\<^sup>*\<^sup>* w w'" "bound w ctx path"
  shows "bound w' ctx path \<and> (\<forall>other. other \<noteq> path \<longrightarrow> files w' other = files w other)"
  using assms(2,3)
proof (induction rule: converse_rtranclp_induct)
  case (step w w1)
  have "bound w1 ctx path" "other \<noteq> path \<Longrightarrow> files w1 other = files w other" for other
    using step.hyps(1) step.prems assms(1) unfolding tdb_separates_def by blast+
  then show ?case using step.IH by simp
qed simp

lemma request_on_open:
  assumes E: "tdb_with_files E contents files bound truncates" and l: "life_represents E contents files bound s a"
    and t: "tasks s t = Some k" "t \<notin> file_waiting a" "task_error k = None"
    and r: "carries (host E) (storage_transform s) r k" "spec_allowed r (session_spec a)" and o: "opened_file a = Some path"
  shows "\<exists>s'. deliver E (Suc depth) (operation_message (t, Request r)) s = Inr s' \<and>
    refines_operation E contents files bound s t (Request r) a s'"
proof -
  have b: "tdb_behaves E contents" "transactions_succeed E" "tdb_persists E contents files bound truncates"
    "tdb_separates E files bound"
    using E by (simp_all add: tdb_with_files_def)
  obtain ctx where rep: "represents E contents ctx s (session_spec a)" "bound (world s) ctx path"
    and f: "files_represent files s a"
    using l o by (auto simp: life_represents_def)
  obtain session' outs where st: "spec_step t r (session_spec a) = (session', outs)" by (metis prod.collapse)
  obtain s' where h: "deliver E (Suc depth) (message_for (t, r)) s = Inr s'"
    and ref: "refines_step E contents ctx s t r (session_spec a) s'"
    using deliver_refines [OF b(1,2) rep(1) t(1) _ r(1) t(3) r(2), of depth] t(2) by (auto simp: file_waiting_def)
  have r': "represents E contents ctx s' session'" "log_answers (host E) (newly_done s s') outs"
    "\<And>t'. t' \<notin> insert t (file_waiting a) \<Longrightarrow> tasks s' t' = tasks s t'" "storage_transform s' = storage_transform s"
    "(world_step E ctx)\<^sup>*\<^sup>* (world s) (world s')"
    using ref by (auto simp: refines_step_def st file_waiting_def)
  note sep = separated_steps [OF b(4) r'(5) rep(2)]
  have own: "files (world s') path = contents (world s') ctx" using tdb_persistsD(1) [OF b(3)] sep by metis
  have "db_represents (storage_transform s') (contents (world s') ctx) (database session')"
    using r'(1) by (simp add: represents_def)
  then have "files_represent files s' (a\<lparr>databases := (databases a)(path := database session'), session_spec := session'\<rparr>)"
    using f sep by (simp add: files_represent_def own r'(4))
  then have "refines_operation E contents files bound s t (Request r) a s'"
    using o st sep r' by (auto simp: refines_operation_def life_represents_def)
  then show ?thesis using h by simp
qed

text \<open>Opening.\<close>

lemma open_refused:
  assumes l: "life_represents E contents files bound s a" and t: "tasks s t = Some k" "t \<notin> file_waiting a" "task_error k = None"
    and k: "task_txn_id k = 0" and o: "opened_file a = Some path'"
  shows "\<exists>s'. deliver E depth (operation_message (t, Open_File path)) s = Inr s' \<and>
    refines_operation E contents files bound s t (Open_File path) a s'"
proof -
  have "db_ctx s \<noteq> None" using l o by (auto simp: life_represents_def represents_def)
  then have "deliver E depth (Message MESSAGE_OPEN t) s = fail_with E STORAGE_ERROR_STATE t s"
    using t(1) by (simp add: deliver_def catalina_storage_ex_handle_message.simps handle_open_def)
  from refused [OF t(1) _ t(3) this] obtain b k' where
    "deliver E depth (Message MESSAGE_OPEN t) s = Inr (completed_state t b k' s)"
    "answered (host E) (Refused STORAGE_ERROR_STATE) (k'\<lparr>task_success := b\<rparr>)" using k by blast
  then show ?thesis using refines_answer [OF l t(2)] o by simp
qed

lemma open_succeeds:
  assumes E: "tdb_with_files E contents files bound truncates" and l: "life_represents E contents files bound s a"
    and t: "tasks s t = Some k" "t \<notin> file_waiting a" and k: "c_text (task_key k) = Inr path" and o: "opened_file a = None"
  shows "\<exists>s'. deliver E depth (operation_message (t, Open_File path)) s = Inr s' \<and>
    refines_operation E contents files bound s t (Open_File path) a s'"
proof -
  have b: "tdb_persists E contents files bound truncates" "tdb_separates E files bound" "opens_and_closes E"
    using E by (simp_all add: tdb_with_files_def)
  have c: "db_ctx s = None" "txn_commits s = []" "txn_seq s = txn_id_of (host E) (last_txn (session_spec a))"
    "open_txns (session_spec a) = Map.empty" and f: "files_represent files s a"
    using l o by (simp_all add: life_represents_def)
  let ?s1 = "opening_state E path s"
  obtain tf og where flags: "opening_flags E path (world ?s1) = (tf, og)" by (metis prod.collapse)
  have "\<not> truncates og" using flags E by (auto simp: opening_flags_def tdb_with_files_def split: if_splits)
  obtain ctx w where open_db: "tdb_open E path tf og (world ?s1) = (Some ctx, w)"
    using b(3) unfolding opens_and_closes_def by (metis option.exhaust prod.collapse)
  note opened = tdb_persistsD(5) [OF b(1) \<open>\<not> truncates og\<close> open_db]
  have other: "files w other = files (world s) other" for other
  proof (cases "other = path")
    case False
    then have "files w other = files (world ?s1) other"
      using b(2) open_db unfolding tdb_separates_def by (metis snd_conv)
    then show ?thesis by (simp add: opening_keeps_files [OF b(1)])
  qed (use opened opening_keeps_files [OF b(1)] in simp)
  have own: "contents w ctx = files w path" using tdb_persistsD(1) [OF b(1)] opened by blast
  define s1 where "s1 = ?s1\<lparr>world := w, db_ctx := Some ctx\<rparr>"
  let ?a = "a\<lparr>opened_file := Some path, session_spec := (session_spec a)\<lparr>database := databases a path\<rparr>\<rparr>"
  have h: "handle_open E (Message MESSAGE_OPEN t) s = Inr (completed_state t True k s1)"
    using handle_open_eq [of "Message MESSAGE_OPEN t" s k path E] t(1) c(1,2) k flags open_db by (simp add: s1_def Let_def)
  have fields: "storage_transform s1 = storage_transform s" "tasks s1 = tasks s" "done_ids s1 = done_ids s"
    by (simp_all add: s1_def opening_state_def Let_def done_ids_def)
  have db: "db_represents (storage_transform s) (files w p) (databases a p)" for p
    using f other by (simp add: files_represent_def)
  have "represents E contents ctx s1 (session_spec ?a)"
    using c(2-4) db [of path] by (simp add: represents_def s1_def opening_state_def Let_def txn_represents_def own)
  then have "life_represents E contents files bound s1 ?a"
    using opened db by (auto simp: life_represents_def files_represent_def s1_def opening_state_def Let_def)
  then have "life_represents E contents files bound (completed_state t True k s1) ?a"
    using t(2) by (intro life_completed) (simp_all add: file_waiting_def)
  then have "refines_operation E contents files bound s t (Open_File path) a (completed_state t True k s1)"
    using o by (simp add: refines_operation_def fields)
  then show ?thesis using h by (simp add: deliver_def catalina_storage_ex_handle_message.simps)
qed

text \<open>Closing.\<close>

lemma pending_states:
  assumes "represents E contents ctx s a"
  shows "txn_states s = [] \<longleftrightarrow> dom (open_txns a) = {}"
proof -
  have "map_of (txn_states s) n = None \<longleftrightarrow> open_txns a n = None" for n
  proof -
    have "txn_represents E s n (open_txns a n)" using assms by (simp add: represents_def)
    then show ?thesis by (cases "open_txns a n") (auto simp: txn_represents_def pending_txn_def)
  qed
  then have "dom (map_of (txn_states s)) = dom (open_txns a)" by (simp add: dom_def)
  then show ?thesis by (metis dom_eq_empty_conv map_of_eq_empty_iff)
qed

lemma close_step:
  assumes E: "tdb_with_files E contents files bound truncates" and l: "life_represents E contents files bound s a"
    and t: "tasks s t = Some k" "t \<notin> file_waiting a" "task_error k = None" and k: "task_txn_id k = 0"
  shows "\<exists>s'. deliver E depth (operation_message (t, Close_File)) s = Inr s' \<and>
    refines_operation E contents files bound s t Close_File a s'"
proof -
  have b: "tdb_persists E contents files bound truncates" "opens_and_closes E"
    using E by (simp_all add: tdb_with_files_def)
  have refuse: ?thesis if "file_step t Close_File a = (a, [(t, Refused STORAGE_ERROR_STATE)])"
    "handle_close E (Message MESSAGE_CLOSE t) s = fail_with E STORAGE_ERROR_STATE t s"
  proof -
    have "deliver E depth (Message MESSAGE_CLOSE t) s = fail_with E STORAGE_ERROR_STATE t s"
      using that(2) by (simp add: deliver_def catalina_storage_ex_handle_message.simps)
    from refused [OF t(1) _ t(3) this] obtain b k' where
      "deliver E depth (Message MESSAGE_CLOSE t) s = Inr (completed_state t b k' s)"
      "answered (host E) (Refused STORAGE_ERROR_STATE) (k'\<lparr>task_success := b\<rparr>)" using k by blast
    then show ?thesis using refines_answer [OF l t(2) that(1)] by simp
  qed
  show ?thesis
  proof (cases "opened_file a")
    case None
    then show ?thesis using l by (intro refuse) (simp_all add: life_represents_def handle_close_def)
  next
    case (Some path)
    then obtain ctx where rep: "represents E contents ctx s (session_spec a)" and f: "files_represent files s a"
      using l by (auto simp: life_represents_def)
    have c: "db_ctx s = Some ctx" "txn s = 0" "txn_commits s = []"
      "txn_seq s = txn_id_of (host E) (last_txn (session_spec a))"
      using rep by (simp_all add: represents_def)
    show ?thesis
    proof (cases "txn_states s = []")
      case False
      then show ?thesis
        using pending_states [OF rep] Some c by (intro refuse) (simp_all add: handle_close_def)
    next
      case True
      then have none: "open_txns (session_spec a) = Map.empty" using pending_states [OF rep] by simp
      obtain w where w: "tdb_close E ctx (world s) = (0, w)"
        using b(2) unfolding opens_and_closes_def by (metis prod.collapse)
      define s1 where "s1 = s\<lparr>world := w, db_ctx := None\<rparr>"
      have fields: "storage_transform s1 = storage_transform s" "tasks s1 = tasks s" "done_ids s1 = done_ids s"
        by (simp_all add: s1_def done_ids_def)
      have "handle_close E (Message MESSAGE_CLOSE t) s = Inr (completed_state t True k s1)"
        using c True w t(1)
        by (simp add: handle_close_def upd_task_Some s1_def completed_state_def
            storage_task_succeed_eq [where k = "k\<lparr>task_success := True\<rparr>"] split: waiter.split)
      moreover have "life_represents E contents files bound s1 (a\<lparr>opened_file := None\<rparr>)"
        using f c True none tdb_persistsD(3) [OF b(1) w]
        by (simp add: life_represents_def files_represent_def s1_def)
      then have "life_represents E contents files bound (completed_state t True k s1) (a\<lparr>opened_file := None\<rparr>)"
        using t(2) by (intro life_completed) (simp_all add: file_waiting_def)
      then have "refines_operation E contents files bound s t Close_File a (completed_state t True k s1)"
        using Some none by (simp add: refines_operation_def fields)
      ultimately show ?thesis by (simp add: deliver_def catalina_storage_ex_handle_message.simps)
    qed
  qed
qed

section \<open>Every sequence of operations\<close>

definition life_of :: "'w env \<Rightarrow> ('w \<Rightarrow> nat \<Rightarrow> bytes \<Rightarrow> bytes option) \<Rightarrow> ('w \<Rightarrow> bytes \<Rightarrow> bytes \<Rightarrow> bytes option)
    \<Rightarrow> ('w \<Rightarrow> nat \<Rightarrow> bytes \<Rightarrow> bool) \<Rightarrow> (gint \<Rightarrow> bool) \<Rightarrow> ('o, 'w) storage \<Rightarrow> file_store \<Rightarrow> bool" where
  "life_of E contents files bound truncates s a \<longleftrightarrow>
     tdb_with_files E contents files bound truncates \<and> life_represents E contents files bound s a"

interpretation lives: message_refinement "E :: 'w env" "Suc depth"
  "life_of E contents files bound truncates :: ('o, 'w) storage \<Rightarrow> file_store \<Rightarrow> bool" file_step file_allowed file_waiting
  operation_message "\<lambda>tr r k. operation_task (host E) tr r k \<and> task_error k = None"
proof unfold_locales
  fix s :: "('o, 'w) storage" and a t k r
  assume "life_of E contents files bound truncates s a" and t: "tasks s t = Some k" "t \<notin> file_waiting a"
    and k: "operation_task (host E) (storage_transform s) r k \<and> task_error k = None" and "file_allowed r a"
  then have E: "tdb_with_files E contents files bound truncates" and l: "life_represents E contents files bound s a"
    by (simp_all add: life_of_def)
  have "\<exists>s'. deliver E (Suc depth) (operation_message (t, r)) s = Inr s' \<and> refines_operation E contents files bound s t r a s'"
  proof (cases r)
    case (Open_File path)
    then show ?thesis
      using open_refused [OF l t] open_succeeds [OF E l t] k by (cases "opened_file a") auto
  next
    case Close_File
    then show ?thesis using close_step [OF E l t] k by auto
  next
    case (Request q)
    then show ?thesis
      using request_on_closed [OF l t] request_on_open [OF E l t] k \<open>file_allowed r a\<close>
      by (cases "opened_file a") auto
  qed
  then show "\<exists>s'. deliver E (Suc depth) (operation_message (t, r)) s = Inr s' \<and>
      life_of E contents files bound truncates s' (fst (file_step t r a)) \<and>
      log_answers (host E) (newly_done s s') (snd (file_step t r a)) \<and>
      (\<forall>t'. t' \<notin> insert t (file_waiting a) \<longrightarrow> tasks s' t' = tasks s t') \<and> storage_transform s' = storage_transform s"
    using E by (auto simp: refines_operation_def life_of_def)
qed (rule file_waiting_step)


section \<open>A disk with several files\<close>

text \<open>
  The world of the witness: files with their databases, and the paths the handles given out so
  far are open on. A handle that was never given out stands for the empty path.
\<close>

type_synonym disk = "(bytes \<times> (bytes \<times> bytes) list) list \<times> bytes list"

definition file_on :: "disk \<Rightarrow> bytes \<Rightarrow> (bytes \<times> bytes) list" where
  "file_on w path = (case map_of (fst w) path of None \<Rightarrow> [] | Some db \<Rightarrow> db)"

definition path_of :: "disk \<Rightarrow> nat \<Rightarrow> bytes" where
  "path_of w ctx = (if ctx < length (snd w) then snd w ! ctx else [])"

definition disk_env :: "endian \<Rightarrow> disk env" where
  "disk_env h =
     \<lparr>host = h, stack_word = 0, tdb_convert = 16, tdb_nolock = 4, tdb_replace = 1, o_creat = 64, o_rdwr = 2,
      g_path_get_dirname = (\<lambda>_. [46]), g_build_filename = (\<lambda>d n. d @ 47 # n),
      is_dir = (\<lambda>_ _. True), is_regular = (\<lambda>path w. map_of (fst w) path \<noteq> None), g_mkdir_with_parents = (\<lambda>_ w. w),
      tdb_open = (\<lambda>path _ _ w. (Some (length (snd w)), (fst w, snd w @ [path]))), tdb_close = (\<lambda>_ w. (0, w)),
      tdb_fetch = (\<lambda>ctx k w. map_of (file_on w (path_of w ctx)) k),
      tdb_store = (\<lambda>ctx k v _ w. (0, (AList.update (path_of w ctx) (AList.update k v (file_on w (path_of w ctx))) (fst w), snd w))),
      tdb_traverse = (\<lambda>ctx w. AList.clearjunk (file_on w (path_of w ctx))),
      tdb_transaction_start = (\<lambda>_ w. (0, w)), tdb_transaction_commit = (\<lambda>_ w. (0, w)),
      tdb_transaction_recover = (\<lambda>_ w. (0, w))\<rparr>"

definition disk_files :: "disk \<Rightarrow> bytes \<Rightarrow> bytes \<Rightarrow> bytes option" where
  "disk_files w path = map_of (file_on w path)"

definition disk_contents :: "disk \<Rightarrow> nat \<Rightarrow> bytes \<Rightarrow> bytes option" where
  "disk_contents w ctx = disk_files w (path_of w ctx)"

definition disk_bound :: "disk \<Rightarrow> nat \<Rightarrow> bytes \<Rightarrow> bool" where
  "disk_bound w ctx path \<longleftrightarrow> ctx < length (snd w) \<and> snd w ! ctx = path"

lemmas disk_simps = disk_env_def disk_files_def disk_contents_def disk_bound_def file_on_def path_of_def

lemma disk_env_behaves: "tdb_behaves (disk_env h) disk_contents"
  by (auto simp: tdb_behaves_def disk_simps update_conv' distinct_clearjunk AList.dom_clearjunk
      dom_map_of_conv_image_fst [symmetric] map_of_clearjunk)

lemma disk_env_with_files: "tdb_with_files (disk_env h) disk_contents disk_files disk_bound (\<lambda>flags. False)"
proof -
  have "tdb_persists (disk_env h) disk_contents disk_files disk_bound (\<lambda>flags. False)"
    by (auto simp: tdb_persists_def disk_simps nth_append)
  moreover have "tdb_separates (disk_env h) disk_files disk_bound"
    by (auto simp: tdb_separates_def disk_simps update_conv' elim!: world_step.cases)
  moreover have "transactions_succeed (disk_env h)" "opens_and_closes (disk_env h)"
    by (simp_all add: transactions_succeed_def stores_succeed_def opens_and_closes_def disk_env_def)
  ultimately show ?thesis using disk_env_behaves by (simp add: tdb_with_files_def)
qed

text \<open>A storage whose tasks are as the public functions make them for a list of operations.\<close>

fun task_of_operation :: "operation \<Rightarrow> 'o task" where
  "task_of_operation (Open_File path) = new_task\<lparr>task_key := Some (path @ [0])\<rparr>"
| "task_of_operation Close_File = new_task"
| "task_of_operation (Request r) = request_task Little r"

fun operation_fits :: "operation \<Rightarrow> bool" where
  "operation_fits (Open_File path) = (0 \<notin> set path)"
| "operation_fits Close_File = True"
| "operation_fits (Request r) = request_fits r"

lemma task_of_operation_fits:
  "operation_fits r \<Longrightarrow> operation_task Little None r (task_of_operation r) \<and> task_error (task_of_operation r) = None"
  using request_task_carries [of _ Little]
  by (cases r) (auto simp: new_task_def c_text_def c_string_terminated)

definition asked_of_closed :: "(nat \<times> operation) list \<Rightarrow> (unit, disk) storage" where
  "asked_of_closed rs = (catalina_storage_init ([], []))\<lparr>tasks := map_of (map (\<lambda>(t, r). (t, task_of_operation r)) rs),
     next_task := length rs\<rparr>"

definition no_files :: file_store where
  "no_files = \<lparr>databases = \<lambda>_. Map.empty, opened_file = None, session_spec = empty_store\<rparr>"

lemma asked_of_closed_represents:
  "life_represents (disk_env h) disk_contents disk_files disk_bound (asked_of_closed rs) no_files"
  by (simp add: life_represents_def files_represent_def db_represents_def asked_of_closed_def no_files_def empty_store_def
      catalina_storage_init_def disk_files_def file_on_def)

lemma asked_of_closed_tasks:
  assumes "distinct (map fst rs)" "\<forall>(t, r)\<in>set rs. operation_fits r"
  shows "\<forall>(t, r)\<in>set rs. \<exists>k. tasks (asked_of_closed rs) t = Some k \<and>
    operation_task (host (disk_env Little)) (storage_transform (asked_of_closed rs)) r k \<and> task_error k = None"
proof clarify
  fix t r assume m: "(t, r) \<in> set rs"
  have "tasks (asked_of_closed rs) t = Some (task_of_operation r)"
    using map_of_is_SomeI [OF assms(1) m] by (simp add: asked_of_closed_def map_of_map)
  moreover have "host (disk_env Little) = Little" "storage_transform (asked_of_closed rs) = None"
    by (simp_all add: disk_env_def asked_of_closed_def catalina_storage_init_def)
  ultimately show "\<exists>k. tasks (asked_of_closed rs) t = Some k \<and>
      operation_task (host (disk_env Little)) (storage_transform (asked_of_closed rs)) r k \<and> task_error k = None"
    using task_of_operation_fits [of r] assms(2) m by auto
qed

definition a_life :: "(nat \<times> operation) list" where
  "a_life = [(0, Request Begin_Request), (1, Open_File [47, 97]), (2, Request (Set_Request 0 [65] [7])),
     (3, Request Begin_Request), (4, Close_File), (5, Request (Cancel_Request 1)), (6, Close_File),
     (7, Request (Get_Request [65])), (8, Open_File [47, 98]), (9, Request Count_Request), (10, Close_File),
     (11, Open_File [47, 97]), (12, Request (Get_Request [65])), (13, Open_File [47, 98])]"


end
