(* ===== verification/Storage_Races.thy ===== *)
theory Storage_Races
  imports Storage_Runs
begin

text \<open>
  The thread of the application finishes completed requests while handlers run in the threads
  of Iris. The model takes both as single steps; here it is shown that their order does not
  matter: a handler neither reads nor writes a task that is completed, nor the flags a finish
  function sets, so a finish gives the same result before and after any delivery, and the
  delivery does the same before and after it.
\<close>

section \<open>Handlers leave other tasks alone\<close>

text \<open>A storage in which task \<open>t\<close> and the flags are something else.\<close>

definition with_other :: "nat \<Rightarrow> 'o task option \<Rightarrow> guint \<Rightarrow> ('o, 'w) storage \<Rightarrow> ('o, 'w) storage" where
  "with_other t x f s = s\<lparr>flags := f, tasks := (tasks s)(t := x)\<rparr>"

lemma with_other_fields [simp]:
  "db_ctx (with_other t x f s) = db_ctx s" "use_idle (with_other t x f s) = use_idle s"
  "storage_formatter (with_other t x f s) = storage_formatter s" "storage_transform (with_other t x f s) = storage_transform s"
  "txn_seq (with_other t x f s) = txn_seq s" "txn (with_other t x f s) = txn s"
  "txn_commits (with_other t x f s) = txn_commits s" "txn_states (with_other t x f s) = txn_states s"
  "ex_port (with_other t x f s) = ex_port s" "cn_port (with_other t x f s) = cn_port s"
  "next_task (with_other t x f s) = next_task s" "completions (with_other t x f s) = completions s"
  "world (with_other t x f s) = world s" "flags (with_other t x f s) = f" "tasks (with_other t x f s) t = x"
  "t' \<noteq> t \<Longrightarrow> tasks (with_other t x f s) t' = tasks s t'"
  by (simp_all add: with_other_def)

lemma with_other_updates [simp]:
  "(with_other t x f s)\<lparr>world := w\<rparr> = with_other t x f (s\<lparr>world := w\<rparr>)"
  "(with_other t x f s)\<lparr>db_ctx := d\<rparr> = with_other t x f (s\<lparr>db_ctx := d\<rparr>)"
  "(with_other t x f s)\<lparr>txn := i\<rparr> = with_other t x f (s\<lparr>txn := i\<rparr>)"
  "(with_other t x f s)\<lparr>txn_seq := i\<rparr> = with_other t x f (s\<lparr>txn_seq := i\<rparr>)"
  "(with_other t x f s)\<lparr>txn_states := al\<rparr> = with_other t x f (s\<lparr>txn_states := al\<rparr>)"
  "(with_other t x f s)\<lparr>txn_commits := ms\<rparr> = with_other t x f (s\<lparr>txn_commits := ms\<rparr>)"
  "(with_other t x f s)\<lparr>ex_port := ms\<rparr> = with_other t x f (s\<lparr>ex_port := ms\<rparr>)"
  "(with_other t x f s)\<lparr>cn_port := ms\<rparr> = with_other t x f (s\<lparr>cn_port := ms\<rparr>)"
  "(with_other t x f s)\<lparr>completions := cs\<rparr> = with_other t x f (s\<lparr>completions := cs\<rparr>)"
  by (rule storage.equality, simp_all add: with_other_def)+

lemma with_other_if [simp]:
  "(if b then with_other t x f s1 else with_other t x f s2) = with_other t x f (if b then s1 else s2)"
  "(case p of None \<Rightarrow> with_other t x f s1 | Some y \<Rightarrow> with_other t x f (g y)) =
    with_other t x f (case p of None \<Rightarrow> s1 | Some y \<Rightarrow> g y)"
  by (simp_all split: option.split)

lemma with_other_same: "with_other t (tasks s t) (flags s) s = s"
  by (simp add: with_other_def)

lemma c_bind_if: "c_bind (if b then r1 else r2) g = (if b then c_bind r1 g else c_bind r2 g)"
  by simp

lemma c_bind_option: "c_bind (case o' of None \<Rightarrow> r1 | Some y \<Rightarrow> r2 y) g = (case o' of None \<Rightarrow> c_bind r1 g | Some y \<Rightarrow> c_bind (r2 y) g)"
  by (cases o') simp_all

lemma c_bind_prod: "c_bind (case p of (a, b) \<Rightarrow> r a b) g = (case p of (a, b) \<Rightarrow> c_bind (r a b) g)"
  by (cases p) simp

lemma c_bind_transformed: "c_bind (case r of Transform_Failed e \<Rightarrow> r1 e | Transformed p n \<Rightarrow> r2 p n) g =
  (case r of Transform_Failed e \<Rightarrow> c_bind (r1 e) g | Transformed p n \<Rightarrow> c_bind (r2 p n) g)"
  by (cases r) simp_all

lemmas bind_simps = c_bind_if c_bind_option c_bind_prod c_bind_transformed c_bind_assoc

text \<open>What a computation with the task \<open>t'\<close> does to such a storage.\<close>

lemma task_ops_other:
  assumes "t' \<noteq> t"
  shows "get_task (with_other t x f s) t' = get_task s t'"
    and "upd_task t' g (with_other t x f s) = c_bind (upd_task t' g s) (\<lambda>s. Inr (with_other t x f s))"
proof -
  show get: "get_task (with_other t x f s) t' = get_task s t'" using assms by (simp add: get_task_def)
  have "(with_other t x f s)\<lparr>tasks := (tasks (with_other t x f s))(t' \<mapsto> k)\<rparr> = with_other t x f (s\<lparr>tasks := (tasks s)(t' \<mapsto> k)\<rparr>)" for k
    using assms by (intro storage.equality) (auto simp: with_other_def)
  then show "upd_task t' g (with_other t x f s) = c_bind (upd_task t' g s) (\<lambda>s. Inr (with_other t x f s))"
    by (simp add: upd_task_def get c_bind_assoc)
qed

lemma completion_other:
  assumes "t' \<noteq> t"
  shows "storage_task_complete t' b (with_other t x f s) = c_bind (storage_task_complete t' b s) (\<lambda>s. Inr (with_other t x f s))"
    and "storage_task_succeed t' (with_other t x f s) = c_bind (storage_task_succeed t' s) (\<lambda>s. Inr (with_other t x f s))"
    and "storage_task_fail E t' (with_other t x f s) = c_bind (storage_task_fail E t' s) (\<lambda>s. Inr (with_other t x f s))"
    and "fail_with E e t' (with_other t x f s) = c_bind (fail_with E e t' s) (\<lambda>s. Inr (with_other t x f s))"
proof -
  show c: "storage_task_complete t' b (with_other t x f s) = c_bind (storage_task_complete t' b s) (\<lambda>s. Inr (with_other t x f s))" for b s
    by (simp add: storage_task_complete_def task_ops_other [OF assms] bind_simps cong: waiter.case_cong)
  then show "storage_task_succeed t' (with_other t x f s) = c_bind (storage_task_succeed t' s) (\<lambda>s. Inr (with_other t x f s))"
    by (simp add: storage_task_succeed_def)
  show fail: "storage_task_fail E t' (with_other t x f s) = c_bind (storage_task_fail E t' s) (\<lambda>s. Inr (with_other t x f s))" for s
    by (simp add: storage_task_fail_def task_ops_other [OF assms] c bind_simps Let_def cong: if_cong option.case_cong)
  show "fail_with E e t' (with_other t x f s) = c_bind (fail_with E e t' s) (\<lambda>s. Inr (with_other t x f s))"
    by (simp add: fail_with_def task_ops_other [OF assms] fail bind_simps)
qed

lemmas other_simps = task_ops_other completion_other bind_simps Let_def

lemma handlers_other:
  assumes "message_task m \<noteq> t"
  shows "handle_close E m (with_other t x f s) = c_bind (handle_close E m s) (\<lambda>s. Inr (with_other t x f s))"
    and "handle_open E m (with_other t x f s) = c_bind (handle_open E m s) (\<lambda>s. Inr (with_other t x f s))"
    and "handle_get E m (with_other t x f s) = c_bind (handle_get E m s) (\<lambda>s. Inr (with_other t x f s))"
    and "handle_set E m (with_other t x f s) = c_bind (handle_set E m s) (\<lambda>s. Inr (with_other t x f s))"
    and "handle_count_keys E m (with_other t x f s) = c_bind (handle_count_keys E m s) (\<lambda>s. Inr (with_other t x f s))"
    and "handle_txn_begin E m (with_other t x f s) = c_bind (handle_txn_begin E m s) (\<lambda>s. Inr (with_other t x f s))"
    and "handle_txn_cancel E m (with_other t x f s) = c_bind (handle_txn_cancel E m s) (\<lambda>s. Inr (with_other t x f s))"
  using assms
  by (simp_all add: handle_close_def handle_open_def handle_get_def handle_set_def handle_count_keys_def
      handle_txn_begin_def handle_txn_cancel_def other_simps cong: if_cong option.case_cong prod.case_cong transform_out.case_cong)

section \<open>Commits leave completed tasks alone\<close>

lemma take_txn_error_other:
  "ct \<noteq> t \<Longrightarrow> take_txn_error hk ct st e (with_other t x f s) = c_bind (take_txn_error hk ct st e s) (\<lambda>s. Inr (with_other t x f s))"
  by (simp add: take_txn_error_def other_simps cong: if_cong)

lemma run_msgs_other:
  assumes "ct \<noteq> t"
  shows "\<forall>m\<in>set ms. what m = MESSAGE_SET \<and> message_task m \<noteq> t \<Longrightarrow>
    run_msgs E depth hk ct ms (with_other t x f s) = c_bind (run_msgs E depth hk ct ms s) (\<lambda>(b, s). Inr (b, with_other t x f s))"
proof (induction ms arbitrary: s)
  case (Cons m ms)
  have "handle_set E m (with_other t x f s) = c_bind (handle_set E m s) (\<lambda>s. Inr (with_other t x f s))"
    using Cons.prems by (intro handlers_other(4)) simp
  then show ?case
    using Cons.prems Cons.IH
    by (simp add: catalina_storage_ex_handle_message.simps bind_simps take_txn_error_other [OF assms] cong: option.case_cong)
qed simp

lemma txn_state_run_other:
  assumes "ct \<noteq> t" "map_of (txn_states s) hk = Some st" "\<forall>m\<in>set (msgs st). what m = MESSAGE_SET \<and> message_task m \<noteq> t"
  shows "txn_state_run E depth hk ct (with_other t x f s) =
    c_bind (txn_state_run E depth hk ct s) (\<lambda>(b, s). Inr (b, with_other t x f s))"
  using assms run_msgs_other [OF assms(1), of "rev (msgs st)"] by (simp add: txn_state_run.simps Let_def)

lemma commit_end_other:
  "ct \<noteq> t \<Longrightarrow> commit_end E ctx hk ct b (with_other t x f s) = c_bind (commit_end E ctx hk ct b s) (\<lambda>s. Inr (with_other t x f s))"
  by (simp add: commit_end_def other_simps cong: if_cong prod.case_cong)

lemma commit_tail_other:
  assumes "ct \<noteq> t"
    and rest: "\<And>s1 m' commits. commit_end E ctx hk ct b s = Inr s1 \<Longrightarrow> txn_commits s1 = m' # commits \<Longrightarrow>
      handle_txn_commit E depth m' (with_other t x f (s1\<lparr>txn_commits := commits\<rparr>)) =
      c_bind (handle_txn_commit E depth m' (s1\<lparr>txn_commits := commits\<rparr>)) (\<lambda>s. Inr (with_other t x f s))"
  shows "commit_tail E depth ctx hk ct b (with_other t x f s) = c_bind (commit_tail E depth ctx hk ct b s) (\<lambda>s. Inr (with_other t x f s))"
proof (cases "commit_end E ctx hk ct b s")
  case (Inr s1)
  then show ?thesis
    using rest [OF Inr] by (cases "txn_commits s1") (simp_all add: commit_tail_eq commit_end_other [OF assms(1)])
qed (simp add: commit_tail_eq commit_end_other [OF assms(1)])

lemma txn_state_run_grows: "txn_state_run E depth hk ct s = Inr (b, s') \<Longrightarrow> grows s s'"
  using run_msgs_grows [of E depth hk ct] handle_txn_commit_grows
  by (fastforce simp: txn_state_run.simps Let_def grows_def split: option.splits)

lemma handle_txn_commit_other:
  fixes s :: "('o, 'w) storage"
  shows "ok {} (add_mset m M) s \<Longrightarrow> what m = MESSAGE_TXN_COMMIT \<Longrightarrow> t \<in> set (done_ids s) \<Longrightarrow>
   handle_txn_commit E depth m (with_other t x f s) = c_bind (handle_txn_commit E depth m s) (\<lambda>s. Inr (with_other t x f s))"
proof (induction depth arbitrary: m s)
  case (Suc depth)
  note ok = Suc.prems(1) and w = Suc.prems(2) and t = Suc.prems(3) and p = ok_parts [OF Suc.prems(1)]
  let ?t = "message_task m"
  have other: "?t \<noteq> t" by (rule done_not_queued [OF ok t]) simp
  obtain task where k: "tasks s ?t = Some task" using ok_live [OF ok] by blast
  let ?id = "task_txn_id task" and ?hk = "txn_hash_key (host E) (task_txn_id task)"
  note simps = handle_txn_commit.simps k w other other_simps get_task_def
  consider "db_ctx s = None" | ctx where "db_ctx s = Some ctx" "txn s \<noteq> 0 \<and> txn s \<noteq> ?id"
    | ctx where "db_ctx s = Some ctx" "\<not> (txn s \<noteq> 0 \<and> txn s \<noteq> ?id)" "map_of (txn_states s) ?hk = None"
    | ctx st where "db_ctx s = Some ctx" "\<not> (txn s \<noteq> 0 \<and> txn s \<noteq> ?id)" "map_of (txn_states s) ?hk = Some st"
    by (cases "db_ctx s"; cases "map_of (txn_states s) ?hk") blast+
  then show ?case
  proof cases
    case 4
    obtain r1 w1 where start: "tdb_transaction_start E ctx (world s) = (r1, w1)" by (metis prod.collapse)
    let ?s1 = "s\<lparr>txn := ?id, world := w1\<rparr>"
    show ?thesis
    proof (cases "r1 = 0")
      case False
      then show ?thesis using 4 start by (auto simp: simps)
    next
      case True
      have "what m' = MESSAGE_SET \<and> message_task m' \<noteq> t" if "m' \<in> set (msgs st)" for m'
      proof -
        have "m' \<in># queued {} s" using queued_in_taken [OF 4(3), of "{}"] that by (auto simp: queued_def dest: mset_subset_eqD)
        then have "m' \<in># add_mset m M + parts {} s" by (simp add: parts_def)
        then show ?thesis
          using done_not_queued [OF ok t] p(1) that map_of_SomeD [OF 4(3)] by (fastforce simp: sets_only_def)
      qed
      then have run: "txn_state_run E depth ?hk ?t (with_other t x f ?s1) =
          c_bind (txn_state_run E depth ?hk ?t ?s1) (\<lambda>(b, s). Inr (b, with_other t x f s))"
        using 4(3) by (intro txn_state_run_other [OF other, where st = st] ballI) simp_all
      have tail: "commit_tail E depth ctx ?hk ?t b (with_other t x f s2) =
          c_bind (commit_tail E depth ctx ?hk ?t b s2) (\<lambda>s. Inr (with_other t x f s))"
        if r: "txn_state_run E depth ?hk ?t ?s1 = Inr (b, s2)" for b s2
      proof (rule commit_tail_other [OF other])
        fix s3 m' commits assume e: "commit_end E ctx ?hk ?t b s2 = Inr s3" "txn_commits s3 = m' # commits"
        have "ok {?hk} (add_mset m M) s2" "db_ctx s2 = Some ctx"
          using commit_run_ok [OF ok 4(1,3), where E = E and depth = depth and i = ?id and w = w1] r by simp_all
        from commit_end_ok [OF this, where E = E and success = b] have s3: "ok {} M s3" "txn s3 = 0" "db_ctx s3 = Some ctx" using e(1) by simp_all
        have "t \<in> set (done_ids s3)"
          using t txn_state_run_grows [OF r] completes_grows(1) [OF commit_end_completes [OF e(1)]] by (auto simp: grows_def done_ids_def)
        then show "handle_txn_commit E depth m' (with_other t x f (s3\<lparr>txn_commits := commits\<rparr>)) =
            c_bind (handle_txn_commit E depth m' (s3\<lparr>txn_commits := commits\<rparr>)) (\<lambda>s. Inr (with_other t x f s))"
          using next_commit [OF s3(1) e(2) s3(2,3)] by (intro Suc.IH) (simp_all add: done_ids_def)
      qed
      have "handle_txn_commit E (Suc depth) m s' = c_bind (txn_state_run E depth ?hk ?t (s'\<lparr>txn := ?id, world := w1\<rparr>))
          (\<lambda>(b, s). commit_tail E depth ctx ?hk ?t b s)"
        if "db_ctx s' = Some ctx" "txn s' = txn s" "tasks s' ?t = Some task" "txn_states s' = txn_states s" "world s' = world s" for s' :: "('o, 'w) storage"
        using that 4 k w start True by (auto simp: handle_txn_commit.simps Let_def commit_tail_def [abs_def])
      then show ?thesis
        using 4 k other run tail by (cases "txn_state_run E depth ?hk ?t ?s1") (auto simp: bind_simps)
    qed
  qed (auto simp: simps)
qed (simp add: handle_txn_commit.simps)

section \<open>Deliveries and finishes commute\<close>

text \<open>A message is taken from its port and handled.\<close>

definition take_message :: "'w env \<Rightarrow> nat \<Rightarrow> message \<Rightarrow> ('o, 'w) storage \<Rightarrow> ('o, 'w) storage result" where
  "take_message E depth m s =
     (if m \<in> set (ex_port s) then catalina_storage_ex_handle_message E depth m (s\<lparr>ex_port := remove1 m (ex_port s)\<rparr>)
      else catalina_storage_cn_handle_message E m (s\<lparr>cn_port := remove1 m (cn_port s)\<rparr>))"

text \<open>One after the other, in either order: the same result, the same faults, the same state.\<close>

definition commutes :: "(('o, 'w) storage \<Rightarrow> ('r \<times> ('o, 'w) storage) result) \<Rightarrow> (('o, 'w) storage \<Rightarrow> ('o, 'w) storage result)
    \<Rightarrow> ('o, 'w) storage \<Rightarrow> bool" where
  "commutes finish act s \<longleftrightarrow>
     c_bind (finish s) (\<lambda>(r, s1). c_bind (act s1) (\<lambda>s2. Inr (r, s2))) = c_bind (act s) finish"

text \<open>A function that reads and writes one task and the flags.\<close>

definition confined :: "nat \<Rightarrow> (('o, 'w) storage \<Rightarrow> ('r \<times> ('o, 'w) storage) result) \<Rightarrow> bool" where
  "confined t finish \<longleftrightarrow> (\<exists>g. \<forall>s. finish s = (case tasks s t of
     None \<Rightarrow> Inl Use_After_Free
   | Some k \<Rightarrow> (case g k (flags s) of (r, x, f) \<Rightarrow> Inr (r, with_other t x f s))))"

lemma confinedI: "(\<And>s. finish s = (case tasks s t of None \<Rightarrow> Inl Use_After_Free
   | Some k \<Rightarrow> (case g k (flags s) of (r, x, f) \<Rightarrow> Inr (r, with_other t x f s)))) \<Longrightarrow> confined t finish"
  unfolding confined_def by blast

lemma take_message_other:
  assumes "idle_ok {#} s" "t \<in> set (done_ids s)" "m \<in> set (ex_port s) \<union> set (cn_port s)"
  shows "take_message E depth m (with_other t x f s) = c_bind (take_message E depth m s) (\<lambda>s. Inr (with_other t x f s))"
proof (cases "m \<in> set (ex_port s)")
  case True
  let ?s = "s\<lparr>ex_port := remove1 m (ex_port s)\<rparr>"
  have ok: "ok {} (add_mset m {#}) ?s" using idle_take(1) [OF assms(1) True] by (simp add: idle_ok_def)
  have t: "t \<in> set (done_ids ?s)" using assms(2) by (simp add: done_ids_def)
  have "message_task m \<noteq> t" by (rule done_not_queued [OF ok t]) simp
  then show ?thesis
    using True handlers_other [where m = m and t = t] handle_txn_commit_other [OF ok _ t]
    by (cases "what m") (simp_all add: take_message_def catalina_storage_ex_handle_message.simps)
next
  case False
  let ?s = "s\<lparr>cn_port := remove1 m (cn_port s)\<rparr>"
  have ok: "ok {} (add_mset m {#}) ?s" using idle_take(2) [OF assms(1)] False assms(3) by (simp add: idle_ok_def)
  have t: "t \<in> set (done_ids ?s)" using assms(2) by (simp add: done_ids_def)
  have "message_task m \<noteq> t" by (rule done_not_queued [OF ok t]) simp
  then show ?thesis
    using False handlers_other [where m = m and t = t]
    by (cases "what m") (simp_all add: take_message_def catalina_storage_cn_handle_message_def)
qed

lemma confined_commutes:
  assumes "confined t finish" "tasks s t = Some k"
    and "\<And>x f. act (with_other t x f s) = c_bind (act s) (\<lambda>s. Inr (with_other t x f s))"
  shows "commutes finish act s"
proof -
  obtain g where g: "\<And>s. finish s = (case tasks s t of None \<Rightarrow> Inl Use_After_Free
      | Some k \<Rightarrow> (case g k (flags s) of (r, x, f) \<Rightarrow> Inr (r, with_other t x f s)))"
    using assms(1) unfolding confined_def by blast
  obtain r x fl where k: "g k (flags s) = (r, x, fl)" by (metis prod.collapse)
  have "act s = c_bind (act s) (\<lambda>s'. Inr (with_other t (tasks s t) (flags s) s'))"
    using assms(3) [of "tasks s t" "flags s"] by (simp only: with_other_same)
  then have "with_other t (tasks s t) (flags s) s2 = s2" if "act s = Inr s2" for s2 using that by simp
  then have "tasks s2 t = tasks s t \<and> flags s2 = flags s" if "act s = Inr s2" for s2
    using that by (metis with_other_fields(14,15))
  then show ?thesis
    using k assms(2,3) by (cases "act s") (simp_all add: commutes_def g)
qed

text \<open>Every finish function is confined to its task, and so is what follows the wait of a synchronous call.\<close>

lemma with_other_kept: "tasks s t = Some k \<Longrightarrow> with_other t (Some k) (flags s) s = s"
  using with_other_same [of t s] by simp

lemmas confined_simps = get_task_def storage_task_free_def storage_task_wait_def wait_and_free_def with_other_kept Let_def

lemma confined_freeing:
  assumes "\<And>s. finish s = c_bind (get_task s t) (\<lambda>k. if \<not> valid k then Inr (wrong, s)
    else c_bind (storage_task_free t (if sets k then s\<lparr>flags := new (flags s)\<rparr> else s)) (\<lambda>s. Inr (r k, s)))"
  shows "confined t finish"
  by (rule confinedI [where g = "\<lambda>k f. if \<not> valid k then (wrong, Some k, f) else (r k, None, if sets k then new f else f)"])
    (auto simp: assms confined_simps with_other_def fun_upd_idem split: option.split)

lemma finishes_confined:
  "confined t (catalina_storage_open_finish t e)" "confined t (catalina_storage_close_finish t e)"
  "confined t (catalina_storage_set_finish t e)" "confined t (catalina_storage_get_finish t old e)"
  "confined t (catalina_storage_transaction_begin_finish t)" "confined t (catalina_storage_transaction_commit_finish t e)"
  "confined t (\<lambda>s. c_bind (catalina_storage_transaction_cancel_finish t s) (\<lambda>s. Inr ((), s)))"
  "confined t (catalina_storage_set_value_finish t e)" "confined t (catalina_storage_get_value_finish t v e)"
proof -
  show "confined t (catalina_storage_open_finish t e)"
    by (rule confined_freeing [where valid = "result_is_valid Tag_Open" and wrong = "(False, e)"
          and r = "\<lambda>k. (task_error k = None, propagate (task_error k) e)" and sets = "\<lambda>k. task_error k = None" and new = "\<lambda>f. f OR 1"])
      (simp add: catalina_storage_open_finish_def Let_def cong: if_cong)
  show "confined t (catalina_storage_close_finish t e)"
    by (rule confined_freeing [where valid = "result_is_valid Tag_Close" and wrong = "(False, e)"
          and r = "\<lambda>k. (task_error k = None, propagate (task_error k) e)" and sets = "\<lambda>k. task_error k = None" and new = "\<lambda>f. 0"])
      (simp add: catalina_storage_close_finish_def Let_def cong: if_cong)
  show "confined t (catalina_storage_set_finish t e)"
    by (rule confined_freeing [where valid = "result_is_valid Tag_Set" and wrong = "(False, e)"
          and r = "\<lambda>k. (task_success k, propagate (task_error k) e)" and sets = "\<lambda>k. False" and new = "\<lambda>f. f"])
      (simp add: catalina_storage_set_finish_def cong: if_cong)
  show "confined t (catalina_storage_get_finish t old e)"
    by (rule confined_freeing [where valid = "result_is_valid Tag_Get" and wrong = "((False, old), e)"
          and r = "\<lambda>k. ((task_success k, if task_error k \<noteq> None then old
            else (if task_data k \<noteq> None then task_data k else fst old, task_data_length k)), propagate (task_error k) e)"
          and sets = "\<lambda>k. False" and new = "\<lambda>f. f"])
      (simp add: catalina_storage_get_finish_def Let_def cong: if_cong)
  show "confined t (catalina_storage_transaction_begin_finish t)"
    by (rule confined_freeing [where valid = "result_is_valid Tag_Begin" and wrong = 0 and r = task_txn_id and sets = "\<lambda>k. False" and new = "\<lambda>f. f"])
      (simp add: catalina_storage_transaction_begin_finish_def cong: if_cong)
  show "confined t (catalina_storage_transaction_commit_finish t e)"
    by (rule confined_freeing [where valid = "result_is_valid Tag_Commit" and wrong = "(False, e)"
          and r = "\<lambda>k. (task_success k, propagate (task_error k) e)" and sets = "\<lambda>k. False" and new = "\<lambda>f. f"])
      (simp add: catalina_storage_transaction_commit_finish_def cong: if_cong)
  show "confined t (\<lambda>s. c_bind (catalina_storage_transaction_cancel_finish t s) (\<lambda>s. Inr ((), s)))"
    by (rule confined_freeing [where valid = "result_is_valid Tag_Cancel" and wrong = "()" and r = "\<lambda>k. ()" and sets = "\<lambda>k. False" and new = "\<lambda>f. f"])
      (simp add: catalina_storage_transaction_cancel_finish_def c_bind_assoc c_bind_if cong: if_cong)
  show "confined t (catalina_storage_set_value_finish t e)"
    by (rule confined_freeing [where valid = "\<lambda>k. True" and wrong = "(False, e)"
          and r = "\<lambda>k. (task_success k, propagate (task_error k) e)" and sets = "\<lambda>k. False" and new = "\<lambda>f. f"])
      (simp add: catalina_storage_set_value_finish_def cong: if_cong)
  show "confined t (catalina_storage_get_value_finish t v e)"
    by (rule confined_freeing [where valid = "result_is_valid Tag_Get_Value" and wrong = "(False, v, e)"
          and r = "\<lambda>k. (task_success k, if task_success k then g_value_put v (task_value k) else v, propagate (task_error k) e)"
          and sets = "\<lambda>k. False" and new = "\<lambda>f. f"])
      (simp add: catalina_storage_get_value_finish_def Let_def cong: if_cong)
qed

lemma confined_waiting: "confined t (wait_and_free t)"
  by (rule confinedI [where g = "\<lambda>k f. ((task_success k, if \<not> task_success k then task_error k else None), None, f)"])
    (auto simp: confined_simps with_other_def split: option.split)

lemma returns_confined:
  "confined t (catalina_storage_open_return t)" "confined t (catalina_storage_close_return t)"
  "confined t (catalina_storage_set_return t)" "confined t (catalina_storage_get_return t old)"
  "confined t (catalina_storage_count_keys_return t)"
proof -
  show "confined t (catalina_storage_open_return t)" "confined t (catalina_storage_close_return t)"
    "confined t (catalina_storage_set_return t)"
    using confined_waiting [of t]
    by (simp_all add: confined_def catalina_storage_open_return_def catalina_storage_close_return_def catalina_storage_set_return_def)
  show "confined t (catalina_storage_get_return t old)"
    by (rule confinedI [where g = "\<lambda>k f. (((task_success k, if task_success k then (task_data k, task_data_length k) else old),
        if \<not> task_success k then task_error k else None), None, f)"])
      (auto simp: catalina_storage_get_return_def confined_simps with_other_def split: option.split)
  show "confined t (catalina_storage_count_keys_return t)"
    by (rule confinedI [where g = "\<lambda>k f. (if task_success k then g_value_get_ulong (task_value k) else 0, None, f)"])
      (auto simp: catalina_storage_count_keys_return_def confined_simps with_other_def split: option.split)
qed

lemma delivery_commutes:
  assumes "reachable E depth s" "t \<in> set (done_ids s)" "tasks s t = Some k" "m \<in> set (ex_port s) \<union> set (cn_port s)"
    and "confined t finish"
  shows "commutes finish (take_message E depth' m) s"
  using take_message_other [OF reachable_idle [OF assms(1)] assms(2,4)] by (rule confined_commutes [OF assms(5,3)])

text \<open>
  C14: In every run, while a message is being delivered to its handler, finishing a request
  that is completed gives the same result and leaves the same storage whether it comes before
  the delivery or after it, and the delivery returns or stops in the same way: the threads of
  Iris and the thread of the application do not race. This holds for the finish function of
  every asynchronous request and for what the synchronous functions do when they are woken.
\<close>

theorem finishing_commutes:
  fixes s :: "('o, 'w) storage"
  assumes "reachable E depth s" "t \<in> set (done_ids s)" "tasks s t = Some k" "m \<in> set (ex_port s) \<union> set (cn_port s)"
  shows "commutes (catalina_storage_open_finish t e) (take_message E depth' m) s
    \<and> commutes (catalina_storage_close_finish t e) (take_message E depth' m) s
    \<and> commutes (catalina_storage_set_finish t e) (take_message E depth' m) s
    \<and> commutes (catalina_storage_get_finish t old e) (take_message E depth' m) s
    \<and> commutes (catalina_storage_transaction_begin_finish t) (take_message E depth' m) s
    \<and> commutes (catalina_storage_transaction_commit_finish t e) (take_message E depth' m) s
    \<and> commutes (\<lambda>s. c_bind (catalina_storage_transaction_cancel_finish t s) (\<lambda>s. Inr ((), s))) (take_message E depth' m) s
    \<and> commutes (catalina_storage_set_value_finish t e) (take_message E depth' m) s
    \<and> commutes (catalina_storage_get_value_finish t v e) (take_message E depth' m) s
    \<and> commutes (catalina_storage_open_return t) (take_message E depth' m) s
    \<and> commutes (catalina_storage_close_return t) (take_message E depth' m) s
    \<and> commutes (catalina_storage_set_return t) (take_message E depth' m) s
    \<and> commutes (catalina_storage_get_return t old) (take_message E depth' m) s
    \<and> commutes (catalina_storage_count_keys_return t) (take_message E depth' m) s"
  by (intro conjI delivery_commutes [OF assms] finishes_confined returns_confined)

text \<open>Two requests to close a storage that is closed: the first is refused, the second waits in its port.\<close>

definition two_closes :: "(unit, (bytes \<times> bytes) list) storage" where
  "two_closes = snd (catalina_storage_close_async (User_Callback 1)
     (snd (catalina_storage_close_async (User_Callback 0) (catalina_storage_init []))))"

definition refused_close :: "(unit, (bytes \<times> bytes) list) storage result" where
  "refused_close = take_message (memory_env Little) 1 (Message MESSAGE_CLOSE 0) two_closes"

lemma two_closes_fields [simp]:
  "ex_port two_closes = [Message MESSAGE_CLOSE 0, Message MESSAGE_CLOSE 1]" "cn_port two_closes = []"
  "db_ctx two_closes = None" "completions two_closes = []" "use_idle two_closes = True"
  "tasks two_closes 0 = Some (new_task\<lparr>task_waiter := Async_Result (User_Callback 0) Tag_Close\<rparr>)"
  by (simp_all add: two_closes_def catalina_storage_close_async_def storage_task_new_eq with_task_def post_ex_def catalina_storage_init_def)

lemma refused_close_reachable:
  assumes "refused_close = Inr s"
  shows "reachable (memory_env Little) 1 s"
proof -
  have "reachable (memory_env Little) 1 two_closes"
    unfolding two_closes_def by (intro reachable.stepped [OF _ step.close_async] reachable.started)
  moreover have "step (memory_env Little) 1 two_closes s"
    using assms by (intro step.deliver_ex [of "Message MESSAGE_CLOSE 0"]) (simp_all add: refused_close_def take_message_def)
  ultimately show ?thesis by (rule reachable.stepped)
qed

lemma refused_close_result:
  "\<exists>s k. refused_close = Inr s \<and> 0 \<in> set (done_ids s) \<and> tasks s 0 = Some k \<and> Message MESSAGE_CLOSE 1 \<in> set (ex_port s)"
  by (simp add: refused_close_def take_message_def catalina_storage_ex_handle_message.simps handle_close_def handler_simps
      fail_with_def storage_task_fail_eq done_ids_def completed_state_def new_task_def)

theorem finishing_commutes_witness:
  "\<exists>s. refused_close = Inr s \<and>
     commutes (catalina_storage_close_finish 0 (Some None)) (take_message (memory_env Little) 1 (Message MESSAGE_CLOSE 1)) s"
proof -
  obtain s k where s: "refused_close = Inr s" and c: "0 \<in> set (done_ids s)" "tasks s 0 = Some k" "Message MESSAGE_CLOSE 1 \<in> set (ex_port s)"
    using refused_close_result by blast
  have "Message MESSAGE_CLOSE 1 \<in> set (ex_port s) \<union> set (cn_port s)" using c(3) by (rule UnI1)
  note all = finishing_commutes [OF refused_close_reachable [OF s] c(1,2) this]
  show ?thesis using s conjunct1 [OF conjunct2 [OF all]] by blast
qed

end
