(* ===== verification/Spec2Isabelle.thy ===== *)
theory Spec2Isabelle
  imports Wire_Properties Formatter_Typing GObject_Classes Storage_Specification Storage_Progress
    Storage_Callbacks Storage_Lifecycle Storage_Races
begin

text \<open>
  A verification library for catalina, an embedded store of keys and values on top of TDB and
  GLib. The sources it models are the C files of \<^verbatim>\<open>src/catalina/\<close>; everything else they call
  is a parameter.

  \<^bold>\<open>The program.\<close> A \<^verbatim>\<open>CatalinaStorage\<close> (\<^verbatim>\<open>catalina-storage.c\<close>) owns a TDB database. Its public
  functions make a task, a structure with the arguments of a request and room for its result,
  and post a message with the task to one of two Iris ports: the concurrent one for lookups and
  counts, the exclusive one for everything that changes the storage. A handler per type of
  message does the work and completes the task: it wakes the thread that waits for it, or
  queues the callback of an asynchronous request for the main loop. Updates of a transaction
  are kept as messages in the state of the transaction until its commit runs them in a TDB
  transaction. Before a value is stored and after it is fetched it goes through a
  \<^verbatim>\<open>CatalinaTransform\<close>, for instance the zlib one (\<^verbatim>\<open>catalina-zlib-transform.c\<close>); the typed
  requests turn a \<^verbatim>\<open>GValue\<close> into a buffer and back with a \<^verbatim>\<open>CatalinaFormatter\<close>, for instance
  the binary one (\<^verbatim>\<open>catalina-binary-formatter.c\<close>).

  \<^bold>\<open>Common ground.\<close>

    \<^item> \<open>Catalina_Base\<close>: bytes, byte order, memory with faults as values (a read out of bounds, a
      \<^verbatim>\<open>NULL\<close> pointer, a freed task, an abort are \<open>Inl\<close> of a \<open>fault\<close>), C strings, the bind of
      computations that may fault, and the collection \<open>mem_simps\<close>.

  \<^bold>\<open>The binary formatter\<close> (\<^verbatim>\<open>catalina-binary-formatter.c\<close>, \<^verbatim>\<open>-private.h\<close>).

    \<^item> \<open>Formatter_Scalars\<close>: the type codes, and \<^verbatim>\<open>write_t\<close> and \<^verbatim>\<open>read_t\<close> of the fixed-size types
      \<open>t\<close> at their machine width. The locale \<open>wire_codec\<close> states what a pair promises, and is
      interpreted for each of them.
    \<^item> \<open>Formatter_Strings\<close>: strings and the numbers stored as text; the locale \<open>text_codec\<close>.
    \<^item> \<open>Formatter_Types\<close>: \<^verbatim>\<open>GValue\<close> as a datatype, and the object system as the record \<open>platform\<close>.
    \<^item> \<open>Formatter_Write\<close>, \<open>Formatter_Read\<close>: \<^verbatim>\<open>write_value\<close>, \<^verbatim>\<open>write_object\<close>, \<^verbatim>\<open>real_serialize\<close>,
      and the way back. \<^verbatim>\<open>write_object\<close> takes the value of its uninitialised local \<^verbatim>\<open>total\<close> as
      an argument. The recursion through nested objects is bounded by a number, and the
      theorems hold for every value that is no deeper than the bound.
    \<^item> \<open>Formatter_Roundtrip\<close>, \<open>Formatter_Properties\<close>, \<open>Wire_Properties\<close>: what is written is read
      back, between hosts of any byte orders and with objects rebuilt from their properties;
      where readers stay in bounds; and the inputs on which the format loses data or the code
      aborts. \<open>Formatter_Typing\<close>: the reader keeps values well-typed on any block of bytes.

  \<^bold>\<open>The interfaces and the zlib transform.\<close>

    \<^item> \<open>Interfaces\<close>: the method tables and dispatchers of \<^verbatim>\<open>catalina-formatter.c\<close> and
      \<^verbatim>\<open>catalina-transform.c\<close>, with the contracts \<open>formatter_contract\<close> and \<open>transform_contract\<close>.
    \<^item> \<open>Formatter_Interface\<close>: the binary formatter fulfils its contract.
    \<^item> \<open>Zlib_Transform\<close>: settings, \<^verbatim>\<open>real_read\<close> and \<^verbatim>\<open>real_write\<close>. The loop around \<^verbatim>\<open>deflate\<close> is a
      partial function with the value \<open>None\<close> for not ending.
    \<^item> \<open>Zlib_Properties\<close>: the loop ends, its parts are the compressed stream, and the transform
      fulfils its contract; what the reader does with data that is not its own.

  \<^bold>\<open>The storage\<close> (\<^verbatim>\<open>catalina-storage.c\<close>, \<^verbatim>\<open>-private.h\<close>).

    \<^item> \<open>Storage_Model\<close>: the record \<open>storage\<close> is \<^verbatim>\<open>CatalinaStoragePrivate\<close> together with the
      ports, the heap of tasks, the completions so far and the world of TDB; \<open>task\<close>, \<open>message\<close>
      and \<open>txn_state\<close> are the C structures; \<^verbatim>\<open>storage_task_new\<close>, \<^verbatim>\<open>_free\<close>, \<^verbatim>\<open>_complete\<close>,
      \<^verbatim>\<open>_fail\<close>. Transaction numbers keep their 64 bits, and the hash table its view of the first
      four bytes.
    \<^item> \<open>Storage_Handlers\<close>: \<^verbatim>\<open>handle_open\<close>, \<^verbatim>\<open>handle_close\<close>, \<^verbatim>\<open>handle_get\<close>, \<^verbatim>\<open>handle_set\<close>,
      \<^verbatim>\<open>handle_count_keys\<close>, \<^verbatim>\<open>handle_txn_begin\<close>, \<^verbatim>\<open>handle_txn_cancel\<close>, \<^verbatim>\<open>handle_txn_commit\<close> with
      \<^verbatim>\<open>txn_state_run\<close>, and the dispatchers of the two ports. A commit starts the next one that
      waits by calling itself: \<open>depth\<close> is the room on the stack, and \<open>commit_stack_bound\<close> shows
      that one frame more than commits are waiting is enough.
    \<^item> \<open>Storage_Client\<close>: the public functions, the synchronous ones cut in two where they wait.
    \<^item> \<open>Storage_Lemmas\<close>, \<open>Storage_Transactions\<close>: the handlers path by path, and what a commit
      does in terms of a list of updates.
    \<^item> \<open>Storage_Machine\<close>, \<open>Storage_Safety\<close>, \<open>Storage_Depth\<close>: the invariant of the whole machine
      (every message has a live task of its own, not completed yet; queues hold updates only; a
      closed storage is idle) and its preservation by every handler.
    \<^item> \<open>Storage_Frames\<close>, \<open>Storage_Chains\<close>: which tasks an operation may touch, and the second
      invariant of the machine, for the typed asynchronous requests: each waits through a raw
      request whose callback knows it, and the two are one to one.
    \<^item> \<open>Storage_Steps\<close>: the step relation and the states that can be reached. Any message on a
      port may be delivered next, so what holds of all runs holds for every scheduler. A step is
      a public asynchronous function, a delivery, a callback or a finish function. A callback
      that runs while its task is completed (\<^verbatim>\<open>use-idle\<close> off) is a step of its own like one
      from the main loop. Of the application it is assumed that it finishes requests of its own
      that are completed, each once and with the finish function that belongs to it, and that it
      does not commit transaction 0.
    \<^item> \<open>Storage_Sync\<close>: the synchronous functions as whole calls. \<open>Storage_Example\<close>: a database in
      memory for the witnesses.
    \<^item> \<open>Storage_Ids\<close>, \<open>Storage_Properties\<close>, \<open>Storage_Failures\<close>, \<open>Storage_Runs\<close>: what single
      requests and commits do, the error paths, and the properties of every run.
    \<^item> \<open>Storage_Progress\<close>: no request is lost. As long as no transaction is current, every
      delivery returns and completes its task, or the update waits in its transaction.
    \<^item> \<open>Storage_Specification\<close>: the abstract store, a map with transactions, and the proof that
      the handlers, tables and transforms implement it for every sequence of messages. The
      locale \<open>message_refinement\<close> is the contract of one delivery with a specification.
    \<^item> \<open>Storage_Durability\<close>: what was stored is there after closing and opening again, given
      what \<open>tdb_persists\<close> says of files.
    \<^item> \<open>Storage_Lifecycle\<close>: the abstract machine with its files, opening and closing included, and
      what a closed storage answers; a second interpretation of \<open>message_refinement\<close>.
    \<^item> \<open>Typed_Storage\<close>, \<open>Storage_Async\<close>: the storage as a client of both contracts, proved once in
      the locale \<open>typed_storage\<close> and interpreted for the binary formatter with zlib; first for
      the synchronous functions, then for the asynchronous ones with the callbacks that chain
      two tasks. \<open>Storage_Callbacks\<close>: in every run a callback answers the request it belongs to.
    \<^item> \<open>Storage_Races\<close>: a handler neither reads nor writes a completed task or the flags, a finish
      function nothing else, so finishes and deliveries commute.

  \<^bold>\<open>GObject\<close> (the class and instance functions of the five \<^verbatim>\<open>.c\<close> files).

    \<^item> \<open>GObject_Classes\<close>: \<^verbatim>\<open>class_init\<close>, \<^verbatim>\<open>finalize\<close>, \<^verbatim>\<open>dispose\<close>, \<^verbatim>\<open>new\<close>, the property numbers
      with their specifications, \<^verbatim>\<open>get_type\<close> of the two interfaces and the error domains; what
      settings made by property name do.

  \<^bold>\<open>Parameters and what is relied on of them.\<close> \<open>libc\<close> formats and parses numbers; \<open>platform\<close> is
  the GObject system (types, properties, setters); \<open>zlib\<close> is the stream compressor, of which
  \<open>zlib_behaves\<close> says that it hands out a finite stream in parts and that inflating a whole
  stream gives the input; \<open>env\<close> is TDB with the file system, of which \<open>tdb_behaves\<close> says that
  storing changes one key or nothing, fetching reads it and traversing visits each key once;
  the validation of property values and the type registry of GObject are parameters of
  \<open>GObject_Classes\<close>.
  Each of these hypotheses has a concrete instance in the witnesses.

  \<^bold>\<open>Not modelled.\<close> Reference counts (of messages, so also what \<^verbatim>\<open>txn_state_free\<close> releases, and
  of objects), and buffers once they are handed to the caller; the code GLib's type macros
  generate, and the header files' declarations and cast macros; output of warnings (a failed
  \<^verbatim>\<open>g_return_if_fail\<close> is its early return); the threads of Iris: a handler is one step, which
  for the exclusive port is its guarantee, and for the concurrent one is justified by
  \<open>concurrent_requests_commute\<close>, and a finish function in the thread of the application is one
  step, justified by \<open>finishing_commutes\<close>; the key address a hash table keeps when a transaction number
  comes round again after \<open>2 ^ 32\<close> begins.
\<close>

end
